(* ===== verification/Beacons_Prelude.thy ===== *)
theory Beacons_Prelude
  imports Main "HOL-Library.AList" "HOL-Library.Multiset" "HOL-Library.Word"
begin

text \<open>
  Shared vocabulary of the development: the Go run-time notions that every component uses.
  \<^item> \<open>wrap64\<close>: Go's \<open>int\<close> and \<open>time.Duration\<close> are 64-bit two's complement;
  \<^item> \<open>go_map\<close>: a Go map as an association list with distinct keys (\<open>go_put\<close>, \<open>go_del\<close>,
    \<open>map_of\<close>), and \<open>iteration\<close>: the unspecified order of a \<open>range\<close> over a map;
  \<^item> \<open>go_index\<close>: the recurring loop that indexes a slice by a key;
  \<^item> \<open>error\<close>: the error values the code builds, with \<open>error_text\<close> for \<open>Error()\<close> and
    \<open>errors_is\<close> for the sentinel checks;
  \<^item> \<open>outcome\<close>: a call that returns or panics.
\<close>

named_theorems go_consts \<open>constants of the source, unfolded by evaluation\<close>
named_theorems go_eval \<open>defining equations used when a concrete input is evaluated\<close>

section \<open>64-bit integers\<close>

definition wrap64 :: "int \<Rightarrow> int" where
  "wrap64 n = (n + 2 ^ 63) mod 2 ^ 64 - 2 ^ 63"

definition max_int64 :: int where
  "max_int64 = 2 ^ 63 - 1"

definition min_int64 :: int where
  "min_int64 = - (2 ^ 63)"

definition in_int64 :: "int \<Rightarrow> bool" where
  "in_int64 n \<longleftrightarrow> min_int64 \<le> n \<and> n \<le> max_int64"

lemma wrap64_id: "in_int64 n \<Longrightarrow> wrap64 n = n"
  by (simp add: wrap64_def in_int64_def min_int64_def max_int64_def)

lemma wrap64_in_int64: "in_int64 (wrap64 n)"
  by (simp add: wrap64_def in_int64_def min_int64_def max_int64_def)

lemma wrap64_sint: "wrap64 n = sint (word_of_int n :: 64 word)"
  by (simp add: wrap64_def sint_sbintrunc' signed_take_bit_eq_take_bit_shift take_bit_eq_mod)

section \<open>Maps\<close>

type_synonym ('k, 'v) go_map = "('k \<times> 'v) list"

abbreviation go_put :: "'k \<Rightarrow> 'v \<Rightarrow> ('k, 'v) go_map \<Rightarrow> ('k, 'v) go_map" where
  "go_put \<equiv> AList.update"

abbreviation go_del :: "'k \<Rightarrow> ('k, 'v) go_map \<Rightarrow> ('k, 'v) go_map" where
  "go_del \<equiv> AList.delete"

abbreviation go_map_wf :: "('k, 'v) go_map \<Rightarrow> bool" where
  "go_map_wf m \<equiv> distinct (map fst m)"

lemma map_of_go_put [simp]: "map_of (go_put k v m) = (map_of m)(k \<mapsto> v)"
  by (rule update_conv')

lemma map_of_go_del [simp]: "map_of (go_del k m) = (map_of m)(k := None)"
  by (rule delete_conv')

lemma go_put_wf [intro, simp]: "go_map_wf m \<Longrightarrow> go_map_wf (go_put k v m)"
  by (rule distinct_update)

lemma go_del_wf [intro, simp]: "go_map_wf m \<Longrightarrow> go_map_wf (go_del k m)"
  by (rule distinct_delete)

lemma go_map_mem_iff: "go_map_wf m \<Longrightarrow> (k, v) \<in> set m \<longleftrightarrow> map_of m k = Some v"
  by (metis map_of_eq_Some_iff)

lemma filter_wf [intro, simp]: "go_map_wf m \<Longrightarrow> go_map_wf (filter P m)"
  by (induction m) auto

lemma map_of_filter_wf:
  "go_map_wf m \<Longrightarrow>
     map_of (filter (\<lambda>(k, v). P k v) m) k
       = (case map_of m k of None \<Rightarrow> None | Some v \<Rightarrow> if P k v then Some v else None)"
  by (induction m) (auto split: option.splits simp: map_of_eq_None_iff)

text \<open>A missing key reads as the zero value of the map's element type.\<close>

definition go_get :: "'v \<Rightarrow> ('k, 'v) go_map \<Rightarrow> 'k \<Rightarrow> 'v" where
  "go_get z m k = (case map_of m k of None \<Rightarrow> z | Some v \<Rightarrow> v)"

lemma go_get_put [simp]: "go_get z (go_put k v m) j = (if j = k then v else go_get z m j)"
  by (simp add: go_get_def)

section \<open>Iteration order\<close>

text \<open>
  \<open>for k, v := range m\<close> visits every entry of a map once, in an order the language leaves
  open. A value of type \<open>iteration\<close> is one such order; every theorem that mentions one
  holds for all of them.
\<close>

typedef 'a iteration = "{f :: 'a list \<Rightarrow> 'a list. \<forall>xs. mset (f xs) = mset xs}"
  morphisms iterate Iteration
  by (rule exI [of _ "\<lambda>xs. xs"]) simp

setup_lifting type_definition_iteration

lift_definition in_order :: "'a iteration" is "\<lambda>xs. xs"
  by simp

lift_definition in_reverse :: "'a iteration" is rev
  by simp

lemma iterate_in_order [simp]: "iterate in_order xs = xs"
  by transfer simp

lemma iterate_in_reverse [simp]: "iterate in_reverse xs = rev xs"
  by transfer simp

lemma mset_iterate [simp]: "mset (iterate it xs) = mset xs"
  by transfer simp

lemma set_iterate [simp]: "set (iterate it xs) = set xs"
  using mset_iterate [of it xs] by (metis set_mset_mset)

lemma length_iterate [simp]: "length (iterate it xs) = length xs"
  using mset_iterate [of it xs] by (metis size_mset)

lemma distinct_map_iterate [simp]: "distinct (map f (iterate it xs)) = distinct (map f xs)"
  by (metis mset_iterate mset_map mset_eq_imp_distinct_iff)

lemma map_of_iterate [simp]: "go_map_wf m \<Longrightarrow> map_of (iterate it m) = map_of m"
  by (metis distinct_map_iterate map_of_inject_set set_iterate)

section \<open>Indexing a slice by a key\<close>

text \<open>The loop \<open>m := make(map[K]V); for _, x := range xs { m[key(x)] = x }\<close>.\<close>

fun go_index_from :: "('v \<Rightarrow> 'k) \<Rightarrow> ('k, 'v) go_map \<Rightarrow> 'v list \<Rightarrow> ('k, 'v) go_map" where
  "go_index_from key m [] = m"
| "go_index_from key m (x # xs) = go_index_from key (go_put (key x) x m) xs"

abbreviation go_index :: "('v \<Rightarrow> 'k) \<Rightarrow> 'v list \<Rightarrow> ('k, 'v) go_map" where
  "go_index key \<equiv> go_index_from key []"

lemma go_index_from_wf: "go_map_wf m \<Longrightarrow> go_map_wf (go_index_from key m xs)"
  by (induction xs arbitrary: m) simp_all

lemma go_index_wf [simp]: "go_map_wf (go_index key xs)"
  by (simp add: go_index_from_wf)

lemma find_snoc:
  "find P (xs @ [x]) = (case find P xs of None \<Rightarrow> if P x then Some x else None | Some y \<Rightarrow> Some y)"
  by (induction xs) simp_all

lemma find_SomeD: "find P xs = Some x \<Longrightarrow> x \<in> set xs \<and> P x"
  by (induction xs) (auto split: if_splits)

lemma go_index_from_lookup:
  "map_of (go_index_from key m xs) k
     = (case find (\<lambda>x. key x = k) (rev xs) of None \<Rightarrow> map_of m k | Some x \<Rightarrow> Some x)"
  by (induction xs arbitrary: m) (auto simp: find_snoc split: option.splits)

text \<open>The last element with a key wins, as in the Go loop.\<close>

lemma go_index_lookup: "map_of (go_index key xs) k = find (\<lambda>x. key x = k) (rev xs)"
  by (simp add: go_index_from_lookup split: option.splits)

lemma go_index_SomeD: "map_of (go_index key xs) k = Some x \<Longrightarrow> x \<in> set xs \<and> key x = k"
  unfolding go_index_lookup by (drule find_SomeD) simp

lemma go_index_None_iff: "map_of (go_index key xs) k = None \<longleftrightarrow> k \<notin> key ` set xs"
  by (auto simp: go_index_lookup find_None_iff)

lemma go_index_distinct:
  assumes "distinct (map key xs)" "x \<in> set xs"
  shows "map_of (go_index key xs) (key x) = Some x"
proof (cases "map_of (go_index key xs) (key x)")
  case None
  with assms(2) show ?thesis by (auto simp: go_index_None_iff)
next
  case (Some y)
  then have "y \<in> set xs" "key y = key x" using go_index_SomeD by metis+
  with assms have "y = x" by (metis distinct_map inj_onD)
  with Some show ?thesis by simp
qed

section \<open>Errors and panics\<close>

text \<open>
  The error values the program builds: plain errors with their text, the two sentinels of
  the transport package, the API errors of two adapters, and \<open>fmt.Errorf("..%w..")\<close>, which
  keeps the wrapped error between a text before it and a text after it.
\<close>

datatype error =
    OtherError string
  | AuthFailed
  | CircuitOpen
  | CfApiError "(int \<times> string) list"
  | TcApiError string string
  | Wrapped string error string

text \<open>\<open>errors.Is(err, target)\<close> for a sentinel: equality along the chain of wrapped errors.\<close>

fun errors_is :: "error \<Rightarrow> error \<Rightarrow> bool" where
  "errors_is (Wrapped pre e post) t = (Wrapped pre e post = t \<or> errors_is e t)"
| "errors_is e t = (e = t)"

datatype 'a outcome = Returned 'a | Panicked string

end
