(* ===== verification/Go_Strings.thy ===== *)
theory Go_Strings
  imports Beacons_Prelude
begin

text \<open>
  The functions of Go's \<open>strings\<close> and \<open>strconv\<close> packages that the source calls, over byte
  strings (\<open>string\<close> is a list of 8-bit characters, as a Go string is a sequence of bytes).
  Case mapping and white space are those of ASCII; bytes from 128 on are left as they are.
  The lemmas here are the ones the components share: the round trip of \<open>itoa\<close> and \<open>atoi\<close>,
  prefixes and suffixes, and splitting at the first separator.
\<close>

section \<open>Prefixes, suffixes, searching\<close>

definition has_prefix :: "string \<Rightarrow> string \<Rightarrow> bool" where
  "has_prefix s p \<longleftrightarrow> take (length p) s = p"

definition has_suffix :: "string \<Rightarrow> string \<Rightarrow> bool" where
  "has_suffix s p \<longleftrightarrow> length p \<le> length s \<and> drop (length s - length p) s = p"

definition trim_prefix :: "string \<Rightarrow> string \<Rightarrow> string" where
  "trim_prefix s p = (if has_prefix s p then drop (length p) s else s)"

definition trim_suffix :: "string \<Rightarrow> string \<Rightarrow> string" where
  "trim_suffix s p = (if has_suffix s p then take (length s - length p) s else s)"

fun index_byte :: "string \<Rightarrow> char \<Rightarrow> nat option" where
  "index_byte [] c = None"
| "index_byte (x # xs) c = (if x = c then Some 0 else map_option Suc (index_byte xs c))"

definition contains_any :: "string \<Rightarrow> string \<Rightarrow> bool" where
  "contains_any s cs \<longleftrightarrow> list_ex (\<lambda>c. c \<in> set cs) s"

text \<open>\<open>strings.Cut\<close>: the parts around the first occurrence of the separator, if there is one.\<close>

fun cut :: "string \<Rightarrow> string \<Rightarrow> (string \<times> string) option" where
  "cut [] sep = (if sep = [] then Some ([], []) else None)"
| "cut (x # xs) sep =
     (if has_prefix (x # xs) sep then Some ([], drop (length sep) (x # xs))
      else map_option (\<lambda>(a, b). (x # a, b)) (cut xs sep))"

text \<open>\<open>before, _, _ := strings.Cut(s, sep)\<close>: the whole string when there is no separator.\<close>

definition cut_before :: "string \<Rightarrow> string \<Rightarrow> string" where
  "cut_before s sep = (case cut s sep of None \<Rightarrow> s | Some (a, b) \<Rightarrow> a)"

definition cut_after :: "string \<Rightarrow> string \<Rightarrow> string" where
  "cut_after s sep = (case cut s sep of None \<Rightarrow> [] | Some (a, b) \<Rightarrow> b)"

text \<open>\<open>strings.SplitN(s, c, n)\<close> for \<open>n > 0\<close> and \<open>strings.Split(s, c)\<close>, one-byte separator.\<close>

fun split_n :: "nat \<Rightarrow> char \<Rightarrow> string \<Rightarrow> string list" where
  "split_n 0 c s = []"
| "split_n (Suc 0) c s = [s]"
| "split_n (Suc (Suc n)) c s =
     (case index_byte s c of
        None \<Rightarrow> [s]
      | Some i \<Rightarrow> take i s # split_n (Suc n) c (drop (Suc i) s))"

definition split_all :: "char \<Rightarrow> string \<Rightarrow> string list" where
  "split_all c s = split_n (Suc (length s)) c s"

fun join :: "string \<Rightarrow> string list \<Rightarrow> string" where
  "join sep [] = []"
| "join sep [x] = x"
| "join sep (x # y # ys) = x @ sep @ join sep (y # ys)"

lemma has_prefix_append [simp]: "has_prefix (p @ s) p"
  by (simp add: has_prefix_def)

lemma has_suffix_append [simp]: "has_suffix (s @ p) p"
  by (simp add: has_suffix_def)

lemma has_suffixE: "has_suffix s p \<Longrightarrow> (\<And>a. s = a @ p \<Longrightarrow> P) \<Longrightarrow> P"
  by (metis append_take_drop_id has_suffix_def)

lemma has_suffix_iff: "has_suffix s p \<longleftrightarrow> (\<exists>a. s = a @ p)"
  by (metis has_suffixE has_suffix_append)

lemma has_prefix_iff: "has_prefix s p \<longleftrightarrow> (\<exists>a. s = p @ a)"
  by (metis append_take_drop_id has_prefix_append has_prefix_def)

lemma trim_suffix_append [simp]: "trim_suffix (s @ p) p = s"
  by (simp add: trim_suffix_def)

lemma trim_prefix_append [simp]: "trim_prefix (p @ s) p = s"
  by (simp add: trim_prefix_def)

lemma index_byte_None [simp]: "index_byte s c = None \<longleftrightarrow> c \<notin> set s"
  by (induction s) auto

lemma index_byte_notin [simp]: "c \<notin> set s \<Longrightarrow> index_byte s c = None"
  by simp

lemma index_byte_append: "c \<notin> set a \<Longrightarrow> index_byte (a @ c # b) c = Some (length a)"
  by (induction a) auto

lemma index_byte_SomeD:
  "index_byte s c = Some i \<Longrightarrow>
     i < length s \<and> s ! i = c \<and> c \<notin> set (take i s) \<and> s = take i s @ c # drop (Suc i) s"
proof (induction s arbitrary: i)
  case Nil
  then show ?case by simp
next
  case (Cons x xs)
  then show ?case by (cases "x = c") auto
qed

lemma cut_append: "c \<notin> set a \<Longrightarrow> cut (a @ c # b) [c] = Some (a, b)"
  by (induction a) (auto simp: has_prefix_def)

lemma cut_None: "c \<notin> set a \<Longrightarrow> cut a [c] = None"
  by (induction a) (auto simp: has_prefix_def)

lemma split_n_snoc:
  "c \<notin> set a \<Longrightarrow> split_n (Suc (Suc n)) c (a @ c # b) = a # split_n (Suc n) c b"
  by (simp add: index_byte_append)

lemma split_n_last: "c \<notin> set a \<Longrightarrow> split_n (Suc n) c a = [a]"
  by (cases n) simp_all

section \<open>White space and case\<close>

definition is_space :: "char \<Rightarrow> bool" where
  "is_space c \<longleftrightarrow> of_char c \<in> {9 :: nat, 10, 11, 12, 13, 32}"

definition trim_space :: "string \<Rightarrow> string" where
  "trim_space s = rev (dropWhile is_space (rev (dropWhile is_space s)))"

text \<open>\<open>strings.Fields\<close>: the maximal runs of non-space characters.\<close>

fun fields_from :: "string \<Rightarrow> string \<Rightarrow> string list" where
  "fields_from w [] = (if w = [] then [] else [w])"
| "fields_from w (c # cs) =
     (if is_space c then (if w = [] then fields_from [] cs else w # fields_from [] cs)
      else fields_from (w @ [c]) cs)"

abbreviation fields :: "string \<Rightarrow> string list" where
  "fields \<equiv> fields_from []"

definition upper_char :: "char \<Rightarrow> char" where
  "upper_char c = (let n = of_char c :: nat in
     if 97 \<le> n \<and> n \<le> 122 then char_of (n - 32) else c)"

definition lower_char :: "char \<Rightarrow> char" where
  "lower_char c = (let n = of_char c :: nat in
     if 65 \<le> n \<and> n \<le> 90 then char_of (n + 32) else c)"

definition to_upper :: "string \<Rightarrow> string" where
  "to_upper s = map upper_char s"

definition to_lower :: "string \<Rightarrow> string" where
  "to_lower s = map lower_char s"

lemma length_to_upper [simp]: "length (to_upper s) = length s"
  by (simp add: to_upper_def)

lemma trim_space_id: "list_all (\<lambda>c. \<not> is_space c) s \<Longrightarrow> trim_space s = s"
proof -
  assume a: "list_all (\<lambda>c. \<not> is_space c) s"
  have "dropWhile is_space xs = xs" if "list_all (\<lambda>c. \<not> is_space c) xs" for xs
    using that by (cases xs) simp_all
  with a show ?thesis by (simp add: trim_space_def list_all_rev)
qed

section \<open>Decimal integers\<close>

definition digit_char :: "nat \<Rightarrow> char" where
  "digit_char d = char_of (48 + d)"

definition char_digit :: "char \<Rightarrow> nat option" where
  "char_digit c = (let n = of_char c :: nat in if 48 \<le> n \<and> n \<le> 57 then Some (n - 48) else None)"

fun nat_decimal :: "nat \<Rightarrow> string" where
  "nat_decimal n =
     (if n < 10 then [digit_char n] else nat_decimal (n div 10) @ [digit_char (n mod 10)])"

declare nat_decimal.simps [simp del]

text \<open>\<open>strconv.Itoa\<close> and the \<open>%d\<close> verb.\<close>

definition itoa :: "int \<Rightarrow> string" where
  "itoa n = (if n < 0 then ''-'' @ nat_decimal (nat (- n)) else nat_decimal (nat n))"

fun parse_digits :: "nat \<Rightarrow> string \<Rightarrow> nat option" where
  "parse_digits acc [] = Some acc"
| "parse_digits acc (c # cs) =
     (case char_digit c of None \<Rightarrow> None | Some d \<Rightarrow> parse_digits (10 * acc + d) cs)"

definition parse_nat :: "string \<Rightarrow> nat option" where
  "parse_nat s = (if s = [] then None else parse_digits 0 s)"

text \<open>
  \<open>strconv.Atoi\<close>, with the value it returns beside the error: 0 for a syntax error and the
  nearest 64-bit value for one out of range.
\<close>

definition atoi_signed :: "bool \<Rightarrow> string \<Rightarrow> int \<times> bool" where
  "atoi_signed neg s =
     (case parse_nat s of
        None \<Rightarrow> (0, False)
      | Some m \<Rightarrow>
          (let n = (if neg then - int m else int m) in
           if n < min_int64 then (min_int64, False)
           else if max_int64 < n then (max_int64, False)
           else (n, True)))"

definition atoi :: "string \<Rightarrow> int \<times> bool" where
  "atoi s =
     (case s of
        c # cs \<Rightarrow>
          if c = CHR ''-'' then atoi_signed True cs
          else if c = CHR ''+'' then atoi_signed False cs
          else atoi_signed False s
      | [] \<Rightarrow> atoi_signed False s)"

text \<open>\<open>if n, err := strconv.Atoi(s); err == nil { x = n }\<close>\<close>

definition atoi_or :: "int \<Rightarrow> string \<Rightarrow> int" where
  "atoi_or d s = (if snd (atoi s) then fst (atoi s) else d)"

lemma char_digit_digit_char [simp]: "d < 10 \<Longrightarrow> char_digit (digit_char d) = Some d"
  by (simp add: char_digit_def digit_char_def Let_def)

lemma nat_decimal_nonempty [simp]: "nat_decimal n \<noteq> []"
  by (subst nat_decimal.simps) simp

lemma parse_digits_append:
  "parse_digits a (xs @ ys)
     = (case parse_digits a xs of None \<Rightarrow> None | Some b \<Rightarrow> parse_digits b ys)"
  by (induction a xs rule: parse_digits.induct) (auto split: option.splits)

lemma parse_digits_nat_decimal: "parse_digits 0 (nat_decimal n) = Some n"
proof (induction n rule: nat_decimal.induct)
  case (1 n)
  show ?case
  proof (cases "n < 10")
    case True
    then show ?thesis by (subst nat_decimal.simps) simp
  next
    case False
    with 1 have "parse_digits 0 (nat_decimal (n div 10)) = Some (n div 10)" by simp
    with False show ?thesis by (subst nat_decimal.simps) (simp add: parse_digits_append)
  qed
qed

lemma parse_nat_nat_decimal [simp]: "parse_nat (nat_decimal n) = Some n"
  by (simp add: parse_nat_def parse_digits_nat_decimal)

lemma nat_decimal_digits: "c \<in> set (nat_decimal n) \<Longrightarrow> char_digit c \<noteq> None"
proof (induction n rule: nat_decimal.induct)
  case (1 n)
  then show ?case by (subst (asm) nat_decimal.simps) (auto split: if_splits)
qed

lemma nat_decimal_no_sign: "CHR ''-'' \<notin> set (nat_decimal n)" "CHR ''+'' \<notin> set (nat_decimal n)"
  using nat_decimal_digits by (fastforce simp: char_digit_def)+

lemma atoi_signed_nat_decimal:
  "in_int64 (if neg then - int m else int m) \<Longrightarrow>
     atoi_signed neg (nat_decimal m) = (if neg then - int m else int m, True)"
  by (auto simp: atoi_signed_def Let_def in_int64_def)

text \<open>Every 64-bit value survives formatting and parsing.\<close>

lemma atoi_itoa: "in_int64 n \<Longrightarrow> atoi (itoa n) = (n, True)"
proof (cases "n < 0")
  case True
  assume "in_int64 n"
  with True have "atoi_signed True (nat_decimal (nat (- n))) = (n, True)"
    by (subst atoi_signed_nat_decimal) simp_all
  with True show ?thesis by (simp add: atoi_def itoa_def)
next
  case False
  assume r: "in_int64 n"
  obtain c cs where c: "nat_decimal (nat n) = c # cs"
    by (meson nat_decimal_nonempty neq_Nil_conv)
  then have "c \<noteq> CHR ''-''" "c \<noteq> CHR ''+''"
    using nat_decimal_no_sign [of "nat n"] by auto
  moreover have "atoi_signed False (nat_decimal (nat n)) = (n, True)"
    using r False by (subst atoi_signed_nat_decimal) simp_all
  ultimately show ?thesis using False c by (simp add: atoi_def itoa_def)
qed

lemma atoi_in_int64: "in_int64 (fst (atoi s))"
  by (auto simp: atoi_def atoi_signed_def Let_def in_int64_def min_int64_def max_int64_def
      split: list.splits option.splits)

section \<open>Quoting and error text\<close>

text \<open>
  The \<open>%q\<close> verb (\<open>strconv.Quote\<close>): escapes for quotes, backslashes and ASCII control
  characters; the bytes of printable non-ASCII text are kept.
\<close>

definition hex_char :: "nat \<Rightarrow> char" where
  "hex_char d = (if d < 10 then char_of (48 + d) else char_of (87 + d))"

definition quote_char :: "char \<Rightarrow> string" where
  "quote_char c = (let n = of_char c :: nat in
     if n = 34 then [char_of (92 :: nat), c]
     else if n = 92 then [c, c]
     else if n = 7 then char_of (92 :: nat) # ''a''
     else if n = 8 then char_of (92 :: nat) # ''b''
     else if n = 9 then char_of (92 :: nat) # ''t''
     else if n = 10 then char_of (92 :: nat) # ''n''
     else if n = 11 then char_of (92 :: nat) # ''v''
     else if n = 12 then char_of (92 :: nat) # ''f''
     else if n = 13 then char_of (92 :: nat) # ''r''
     else if n < 32 \<or> n = 127
       then char_of (92 :: nat) # CHR ''x'' # [hex_char (n div 16), hex_char (n mod 16)]
     else [c])"

definition go_quote :: "string \<Rightarrow> string" where
  "go_quote s = CHR 0x22 # concat (map quote_char s) @ [CHR 0x22]"

text \<open>\<open>err.Error()\<close>\<close>

fun error_text :: "error \<Rightarrow> string" where
  "error_text (OtherError s) = s"
| "error_text AuthFailed = ''transport: authentication failed''"
| "error_text CircuitOpen =
     ''transport: circuit open after repeated authentication failures '' @
       [CHR 0xE2, CHR 0x80, CHR 0x93] @ '' check credentials and restart''"
| "error_text (CfApiError es) =
     ''cloudflare api error: '' @ join ''; '' (map (\<lambda>(c, m). itoa c @ '': '' @ m) es)"
| "error_text (TcApiError st m) = ''technitium api error ('' @ st @ ''): '' @ m"
| "error_text (Wrapped pre e post) = pre @ error_text e @ post"

end
