(* ===== verification/Model.thy ===== *)
theory Model
  imports Go_Strings
begin

text \<open>
  \<open>internal/model/model.go\<close>: the DNS record every component works on, its identity
  \<open>RecordKey\<close>, and the configuration structs of upstreams and sources. The string-typed
  enumerations of the source stay strings, since a label or a state file can hold any text.
  Times are nanoseconds since the zero \<open>time.Time\<close>, so the zero value is 0. Proved here: the
  key identifies (source ID, record ID, upstream) when the last two contain no slash, and
  an example of two records that share a key when they do.
\<close>

section \<open>Enumerations\<close>

type_synonym RecordType = string
type_synonym RecordStatus = string

definition RecordTypeA :: RecordType where [go_consts]: "RecordTypeA = ''A''"
definition RecordTypeAAAA :: RecordType where [go_consts]: "RecordTypeAAAA = ''AAAA''"
definition RecordTypeCNAME :: RecordType where [go_consts]: "RecordTypeCNAME = ''CNAME''"
definition RecordTypeTXT :: RecordType where [go_consts]: "RecordTypeTXT = ''TXT''"
definition RecordTypeMX :: RecordType where [go_consts]: "RecordTypeMX = ''MX''"
definition RecordTypeSRV :: RecordType where [go_consts]: "RecordTypeSRV = ''SRV''"
definition RecordTypeNS :: RecordType where [go_consts]: "RecordTypeNS = ''NS''"
definition RecordTypeCAA :: RecordType where [go_consts]: "RecordTypeCAA = ''CAA''"

definition RecordStatusPending :: RecordStatus where
  [go_consts]: "RecordStatusPending = ''pending''"
definition RecordStatusSynced :: RecordStatus where
  [go_consts]: "RecordStatusSynced = ''synced''"
definition RecordStatusFailed :: RecordStatus where
  [go_consts]: "RecordStatusFailed = ''failed''"
definition RecordStatusPendingDelete :: RecordStatus where
  [go_consts]: "RecordStatusPendingDelete = ''pending_delete''"

lemma status_distinct [simp]:
  "RecordStatusSynced \<noteq> RecordStatusFailed" "RecordStatusFailed \<noteq> RecordStatusSynced"
  "RecordStatusPendingDelete \<noteq> RecordStatusFailed" "RecordStatusFailed \<noteq> RecordStatusPendingDelete"
  "RecordStatusPendingDelete \<noteq> RecordStatusSynced" "RecordStatusSynced \<noteq> RecordStatusPendingDelete"
  by (simp_all add: go_consts)

section \<open>Records\<close>

text \<open>The embedded struct is the record being extended, so its fields are promoted as in Go.\<close>

record BaseRecord =
  TTL :: int
  Priority :: int
  Comment :: string

record Record = BaseRecord +
  ID :: string
  SourceID :: string
  SourceName :: string
  Upstream :: string
  Type :: RecordType
  Name :: string
  Value :: string
  Status :: RecordStatus
  SyncedAt :: int
  SyncError :: string
  Failures :: int

definition zero_base :: BaseRecord where
  "zero_base = \<lparr>TTL = 0, Priority = 0, Comment = ''''\<rparr>"

definition zero_record :: Record where
  [go_eval]: "zero_record = \<lparr>TTL = 0, Priority = 0, Comment = '''', ID = '''', SourceID = '''',
     SourceName = '''', Upstream = '''', Type = '''', Name = '''', Value = '''', Status = '''',
     SyncedAt = 0, SyncError = '''', Failures = 0\<rparr>"

definition RecordKey :: "Record \<Rightarrow> string" where
  [go_eval]: "RecordKey r = SourceID r @ ''/'' @ ID r @ ''/'' @ Upstream r"

lemma RecordKey_status_update [simp]:
  "RecordKey (r\<lparr>Status := s\<rparr>) = RecordKey r"
  "RecordKey (r\<lparr>SyncedAt := t\<rparr>) = RecordKey r"
  "RecordKey (r\<lparr>SyncError := e\<rparr>) = RecordKey r"
  "RecordKey (r\<lparr>Failures := n\<rparr>) = RecordKey r"
  by (simp_all add: RecordKey_def)

lemma append_sep_inj:
  "a @ c # b = a' @ c # b' \<Longrightarrow> c \<notin> set b \<Longrightarrow> c \<notin> set b' \<Longrightarrow> a = a' \<and> b = b'"
proof -
  assume e: "a @ c # b = a' @ c # b'" and b: "c \<notin> set b" "c \<notin> set b'"
  have tw: "takeWhile (\<lambda>x. x \<noteq> c) (rev xs @ c # ys) = rev xs" if "c \<notin> set xs" for xs ys
    using that by (subst takeWhile_append2) auto
  from e have "rev b @ c # rev a = rev b' @ c # rev a'"
    by (metis append.assoc append_Cons append_Nil rev.simps(2) rev_append)
  with tw [OF b(1)] tw [OF b(2)] have "rev b = rev b'" by metis
  with e show ?thesis by simp
qed

text \<open>A record whose record ID and upstream name are free of the separator.\<close>

definition key_safe :: "Record \<Rightarrow> bool" where
  "key_safe r \<longleftrightarrow> CHR ''/'' \<notin> set (ID r) \<and> CHR ''/'' \<notin> set (Upstream r)"

text \<open>
  The key identifies the triple it is built from: two records with the same key have the
  same source ID, record ID and upstream, provided record IDs and upstream names contain no
  slash (source IDs may: they are file paths or container IDs).
\<close>

theorem RecordKey_identifies:
  assumes "key_safe r" "key_safe r'" "RecordKey r = RecordKey r'"
  shows "SourceID r = SourceID r' \<and> ID r = ID r' \<and> Upstream r = Upstream r'"
proof -
  have "(SourceID r @ ''/'' @ ID r) @ CHR ''/'' # Upstream r
      = (SourceID r' @ ''/'' @ ID r') @ CHR ''/'' # Upstream r'"
    using assms(3) by (simp add: RecordKey_def)
  then have "SourceID r @ CHR ''/'' # ID r = SourceID r' @ CHR ''/'' # ID r'"
    and u: "Upstream r = Upstream r'"
    using append_sep_inj assms(1,2) unfolding key_safe_def
    by (metis append_Cons append_Nil)+
  then have "SourceID r = SourceID r' \<and> ID r = ID r'"
    using append_sep_inj assms(1,2) unfolding key_safe_def by metis
  with u show ?thesis by simp
qed

theorem RecordKey_identifies_witness:
  "let r = zero_record\<lparr>SourceID := ''/etc/dns/a.yaml'', ID := ''web'', Upstream := ''cf''\<rparr>;
       r' = r\<lparr>TTL := 5, Name := ''other''\<rparr>
   in key_safe r \<and> key_safe r' \<and> RecordKey r = RecordKey r' \<and>
      SourceID r = SourceID r' \<and> ID r = ID r' \<and> Upstream r = Upstream r'"
  using RecordKey_identifies
    [of "zero_record\<lparr>SourceID := ''/etc/dns/a.yaml'', ID := ''web'', Upstream := ''cf''\<rparr>"
        "zero_record\<lparr>SourceID := ''/etc/dns/a.yaml'', ID := ''web'', Upstream := ''cf'',
           TTL := 5, Name := ''other''\<rparr>"]
  by (simp add: key_safe_def RecordKey_def)

text \<open>
  Without that proviso the key is ambiguous: a record ID with a slash moves the boundary, so
  two records of different sources share one entry of the store.
\<close>

lemma RecordKey_collision:
  "RecordKey (zero_record\<lparr>SourceID := ''/dns/a'', ID := ''b/web'', Upstream := ''cf''\<rparr>)
     = RecordKey (zero_record\<lparr>SourceID := ''/dns/a/b'', ID := ''web'', Upstream := ''cf''\<rparr>)"
  by (simp add: RecordKey_def)

section \<open>Configuration structs\<close>

record UpstreamHTTPConfig =
  RetryMaxAttempts :: int
  RetryBaseDelayMs :: int
  RetryMaxDelayMs :: int
  AuthFailureThreshold :: int
  DebugLog :: bool
  DebugLogSecrets :: bool

record UpstreamConfig =
  ucType :: string
  APIToken :: string
  ZoneID :: string
  URL :: string
  Password :: string
  Zone :: string
  ucHTTP :: UpstreamHTTPConfig
  VerifyInterval :: int

record SourceConfig =
  scType :: string
  Host :: string
  Glob :: string

end
