(* ===== verification/Registry.thy ===== *)
theory Registry
  imports Model
begin

text \<open>
  \<open>internal/registry\<close>: the \<open>Store\<close> interface with its optional \<open>Batcher\<close> extension
  (\<open>registry.go\<close>), the in-memory store (\<open>memory.go\<close>) and the store backed by a JSON file
  (\<open>file.go\<close>). The interface value is the record of operations \<open>store_ops\<close>; its contract is
  the locale \<open>record_store\<close>, interpreted on both stores. The file store runs on a small model
  of a file system with inodes, a visible and a durable directory and failing system calls.
  Proved here: both stores implement a map from record keys to records; whatever system call
  of a flush fails, and wherever the machine stops, the state file holds the old state or the
  new one; a flush that reports success is durable; a batch writes the file once.
\<close>

section \<open>The Store interface\<close>

record 's store_ops =
  stUpsert :: "Record \<Rightarrow> 's \<Rightarrow> error option \<times> 's"
  stDelete :: "string \<Rightarrow> 's \<Rightarrow> error option \<times> 's"
  stDeleteRecord :: "Record \<Rightarrow> 's \<Rightarrow> error option \<times> 's"
  stList :: "(string \<times> Record) iteration \<Rightarrow> 's \<Rightarrow> error + Record list"
  stListBySourceName :: "(string \<times> Record) iteration \<Rightarrow> string \<Rightarrow> 's \<Rightarrow> error + Record list"
  stBatch :: "(('s \<Rightarrow> bool \<times> 's) \<times> (bool \<Rightarrow> error option \<Rightarrow> 's \<Rightarrow> error option \<times> 's)) option"

text \<open>
  \<open>Batch(fn)\<close> is split around the call of \<open>fn\<close>, whose closure changes more than the store:
  \<open>begin\<close> says whether an outer batch is running, \<open>finish\<close> gets that flag and the error of \<open>fn\<close>.
\<close>

definition run_batch ::
  "('s \<Rightarrow> bool \<times> 's) \<times> (bool \<Rightarrow> error option \<Rightarrow> 's \<Rightarrow> error option \<times> 's)
     \<Rightarrow> ('s \<times> 'a \<Rightarrow> error option \<times> 's \<times> 'a) \<Rightarrow> 's \<times> 'a \<Rightarrow> error option \<times> 's \<times> 'a" where
  "run_batch b fn sa =
     (let (nested, s1) = fst b (fst sa);
          (fnErr, s2, a2) = fn (s1, snd sa);
          (err, s3) = snd b nested fnErr s2
      in (err, s3, a2))"

definition keyed :: "(string, Record) go_map \<Rightarrow> bool" where
  "keyed m \<longleftrightarrow> go_map_wf m \<and> (\<forall>(k, r) \<in> set m. k = RecordKey r)"

lemma keyed_iff:
  "keyed m \<longleftrightarrow> go_map_wf m \<and> (\<forall>k r. map_of m k = Some r \<longrightarrow> RecordKey r = k)"
  unfolding keyed_def using go_map_mem_iff [of m] by fastforce

lemma keyed_Nil [simp]: "keyed []"
  by (simp add: keyed_def)

lemma keyed_wf [intro]: "keyed m \<Longrightarrow> go_map_wf m"
  by (simp add: keyed_def)

lemma keyed_lookup: "keyed m \<Longrightarrow> map_of m k = Some r \<Longrightarrow> RecordKey r = k"
  by (simp add: keyed_iff)

lemma keyed_put [simp]: "keyed m \<Longrightarrow> keyed (go_put (RecordKey r) r m)"
  by (simp add: keyed_iff)

lemma keyed_del [simp]: "keyed m \<Longrightarrow> keyed (go_del k m)"
  by (simp add: keyed_iff)

lemma keyed_filter [simp]: "keyed m \<Longrightarrow> keyed (filter P m)"
  by (auto simp: keyed_def filter_wf)

lemma keyed_keys: "keyed m \<Longrightarrow> map fst m = map RecordKey (map snd m)"
  by (auto simp: keyed_def)

lemma keyed_mem_iff: "keyed m \<Longrightarrow> r \<in> snd ` set m \<longleftrightarrow> map_of m (RecordKey r) = Some r"
  by (force simp: keyed_def dest: map_of_SomeD)

text \<open>
  What a store promises: it behaves as a map from record keys to records, whatever it reports
  about durability, and listing it yields every entry once.
\<close>

locale record_store =
  fixes ops :: "'s store_ops"
    and recs :: "'s \<Rightarrow> (string, Record) go_map"
    and inv :: "'s \<Rightarrow> bool"
  assumes inv_keyed: "inv s \<Longrightarrow> keyed (recs s)"
    and upsert_inv: "inv s \<Longrightarrow> inv (snd (stUpsert ops r s))"
    and upsert_recs: "inv s \<Longrightarrow>
      map_of (recs (snd (stUpsert ops r s))) = (map_of (recs s))(RecordKey r \<mapsto> r)"
    and delete_record_inv: "inv s \<Longrightarrow> inv (snd (stDeleteRecord ops r s))"
    and delete_record_recs: "inv s \<Longrightarrow>
      map_of (recs (snd (stDeleteRecord ops r s))) = (map_of (recs s))(RecordKey r := None)"
    and delete_inv: "inv s \<Longrightarrow> inv (snd (stDelete ops sid s))"
    and delete_recs: "inv s \<Longrightarrow> map_of (recs (snd (stDelete ops sid s))) k
      = (case map_of (recs s) k of None \<Rightarrow> None
         | Some r \<Rightarrow> if SourceID r = sid then None else Some r)"
    and list_recs: "inv s \<Longrightarrow> stList ops it s = Inr xs \<Longrightarrow> mset xs = mset (map snd (recs s))"
    and list_source_recs: "inv s \<Longrightarrow> stListBySourceName ops it n s = Inr xs \<Longrightarrow>
      mset xs = mset (filter (\<lambda>r. SourceName r = n) (map snd (recs s)))"
    and batch_begin: "inv s \<Longrightarrow> stBatch ops = Some b \<Longrightarrow>
      inv (snd (fst b s)) \<and> recs (snd (fst b s)) = recs s"
    and batch_finish: "inv s \<Longrightarrow> stBatch ops = Some b \<Longrightarrow>
      inv (snd (snd b nested e s)) \<and> recs (snd (snd b nested e s)) = recs s"
begin

lemma list_keys_distinct:
  assumes "inv s" "stList ops it s = Inr xs"
  shows "distinct (map RecordKey xs)"
proof -
  have k: "keyed (recs s)" using assms(1) by (rule inv_keyed)
  then have "map fst (recs s) = map RecordKey (map snd (recs s))"
    by (rule keyed_keys)
  moreover have "mset (map RecordKey xs) = mset (map RecordKey (map snd (recs s)))"
    using list_recs [OF assms] by (metis mset_map)
  ultimately show ?thesis using k by (metis keyed_wf mset_eq_imp_distinct_iff)
qed

lemma list_mem_iff:
  assumes "inv s" "stList ops it s = Inr xs"
  shows "r \<in> set xs \<longleftrightarrow> map_of (recs s) (RecordKey r) = Some r"
proof -
  have "set xs = snd ` set (recs s)"
    using list_recs [OF assms] by (metis mset_eq_setD set_map)
  with keyed_mem_iff [OF inv_keyed [OF assms(1)]] show ?thesis by simp
qed

text \<open>Indexing a listing by record key gives the store's map back.\<close>

lemma list_index:
  assumes "inv s" "stList ops it s = Inr xs"
  shows "map_of (go_index RecordKey xs) = map_of (recs s)"
proof
  fix k
  show "map_of (go_index RecordKey xs) k = map_of (recs s) k"
  proof (cases "map_of (recs s) k")
    case None
    have "k \<notin> RecordKey ` set xs"
      using None list_mem_iff [OF assms] by auto
    with None show ?thesis by (simp add: go_index_None_iff)
  next
    case (Some r)
    then have "RecordKey r = k" using keyed_lookup inv_keyed assms(1) by blast
    with Some list_mem_iff [OF assms] have "r \<in> set xs" by simp
    with go_index_distinct [OF list_keys_distinct [OF assms]] \<open>RecordKey r = k\<close> Some
    show ?thesis by metis
  qed
qed

end

section \<open>MemoryStore\<close>

type_synonym memory_store = "(string, Record) go_map"

definition NewMemoryStore :: memory_store where
  "NewMemoryStore = []"

definition mem_upsert :: "Record \<Rightarrow> memory_store \<Rightarrow> error option \<times> memory_store" where
  [go_eval]: "mem_upsert r m = (None, go_put (RecordKey r) r m)"

definition mem_delete :: "string \<Rightarrow> memory_store \<Rightarrow> error option \<times> memory_store" where
  [go_eval]: "mem_delete sid m = (None, filter (\<lambda>(k, r). SourceID r \<noteq> sid) m)"

definition mem_delete_record :: "Record \<Rightarrow> memory_store \<Rightarrow> error option \<times> memory_store" where
  [go_eval]: "mem_delete_record r m = (None, go_del (RecordKey r) m)"

definition mem_list ::
  "(string \<times> Record) iteration \<Rightarrow> memory_store \<Rightarrow> error + Record list" where
  [go_eval]: "mem_list it m = Inr (map snd (iterate it m))"

definition mem_list_by_source_name ::
  "(string \<times> Record) iteration \<Rightarrow> string \<Rightarrow> memory_store \<Rightarrow> error + Record list" where
  [go_eval]: "mem_list_by_source_name it n m =
     Inr (filter (\<lambda>r. SourceName r = n) (map snd (iterate it m)))"

definition memory_ops :: "memory_store store_ops" where
  [go_eval]: "memory_ops = \<lparr>stUpsert = mem_upsert, stDelete = mem_delete,
     stDeleteRecord = mem_delete_record, stList = mem_list,
     stListBySourceName = mem_list_by_source_name, stBatch = None\<rparr>"

lemma mset_map_iterate: "mset (map f (iterate it m)) = mset (map f m)"
  by (metis mset_iterate mset_map)

lemma mset_filter_iterate: "mset (filter P (map f (iterate it m))) = mset (filter P (map f m))"
  by (metis mset_filter mset_map_iterate)

lemma map_of_delete_source:
  "go_map_wf m \<Longrightarrow> map_of (filter (\<lambda>(k, r). SourceID r \<noteq> sid) m) k
     = (case map_of m k of None \<Rightarrow> None | Some r \<Rightarrow> if SourceID r = sid then None else Some r)"
  by (subst map_of_filter_wf) (auto split: option.splits)

lemmas memory_defs = memory_ops_def mem_upsert_def mem_delete_def mem_delete_record_def
  mem_list_def mem_list_by_source_name_def

interpretation mem: record_store memory_ops "\<lambda>m. m" keyed
  by unfold_locales
    (auto simp only: memory_defs store_ops.simps snd_conv keyed_put keyed_del keyed_filter
       map_of_go_put map_of_go_del map_of_delete_source [OF keyed_wf] mset_map_iterate
       mset_filter_iterate sum.inject option.distinct)

section \<open>A file system with crashes\<close>

text \<open>
  What \<open>flush\<close> uses of the operating system. A directory entry names an inode; \<open>dirNow\<close> is
  what running programs see, \<open>dirDurable\<close> what a crash goes back to at worst; \<open>dataSynced\<close>
  says that an inode's content has been fsynced since it last changed. \<open>ioFaults\<close> is the fate
  of the coming system calls, \<open>None\<close> for success (also when the list is used up); a failing
  write reports how many bytes it had written.
\<close>

record disk =
  dirNow :: "string \<Rightarrow> nat option"
  dirDurable :: "string \<Rightarrow> nat option"
  inodeData :: "nat \<Rightarrow> string"
  dataSynced :: "nat \<Rightarrow> bool"
  nextInode :: nat
  ioFaults :: "(error \<times> nat) option list"
  goos :: string

definition sys_call :: "disk \<Rightarrow> (error \<times> nat) option \<times> disk" where
  "sys_call d = (case ioFaults d of [] \<Rightarrow> (None, d) | f # fs \<Rightarrow> (f, d\<lparr>ioFaults := fs\<rparr>))"

definition os_open_trunc :: "string \<Rightarrow> disk \<Rightarrow> (error + nat) \<times> disk" where
  "os_open_trunc p d =
     (case sys_call d of
        (Some (e, _), d1) \<Rightarrow> (Inl e, d1)
      | (None, d1) \<Rightarrow>
          (let i = (case dirNow d1 p of None \<Rightarrow> nextInode d1 | Some i \<Rightarrow> i)
           in (Inr i, d1\<lparr>dirNow := (dirNow d1)(p \<mapsto> i),
                 inodeData := (inodeData d1)(i := ''''),
                 dataSynced := (dataSynced d1)(i := False),
                 nextInode := max (nextInode d1) (Suc i)\<rparr>)))"

definition file_write :: "nat \<Rightarrow> string \<Rightarrow> disk \<Rightarrow> error option \<times> disk" where
  "file_write i data d =
     (case sys_call d of
        (Some (e, n), d1) \<Rightarrow> (Some e, d1\<lparr>inodeData := (inodeData d1)(i := take n data),
           dataSynced := (dataSynced d1)(i := False)\<rparr>)
      | (None, d1) \<Rightarrow> (None, d1\<lparr>inodeData := (inodeData d1)(i := data),
           dataSynced := (dataSynced d1)(i := False)\<rparr>))"

definition file_sync :: "nat \<Rightarrow> disk \<Rightarrow> error option \<times> disk" where
  "file_sync i d =
     (case sys_call d of
        (Some (e, _), d1) \<Rightarrow> (Some e, d1)
      | (None, d1) \<Rightarrow> (None, d1\<lparr>dataSynced := (dataSynced d1)(i := True)\<rparr>))"

definition file_close :: "disk \<Rightarrow> error option \<times> disk" where
  "file_close d = (case sys_call d of (f, d1) \<Rightarrow> (map_option fst f, d1))"

definition os_rename :: "string \<Rightarrow> string \<Rightarrow> disk \<Rightarrow> error option \<times> disk" where
  "os_rename src dst d =
     (case sys_call d of
        (Some (e, _), d1) \<Rightarrow> (Some e, d1)
      | (None, d1) \<Rightarrow> (None, d1\<lparr>dirNow := (dirNow d1)(dst := dirNow d1 src, src := None)\<rparr>))"

text \<open>\<open>os.Open(dir)\<close>, then \<open>Sync\<close> on it; the state file and its temporary share one directory.\<close>

definition syncDir :: "disk \<Rightarrow> error option \<times> disk" where
  "syncDir d =
     (if goos d = ''windows'' then (None, d)
      else case sys_call d of
        (Some (e, _), d1) \<Rightarrow> (Some e, d1)
      | (None, d1) \<Rightarrow>
          (case sys_call d1 of
             (Some (e, _), d2) \<Rightarrow> (Some e, d2)
           | (None, d2) \<Rightarrow> (None, d2\<lparr>dirDurable := dirNow d2\<rparr>)))"

text \<open>
  What a reader can find at a path after a crash: the inode named by the visible or by the
  durable entry, with its content if that was fsynced and with any content otherwise.
\<close>

definition crash_view :: "disk \<Rightarrow> string \<Rightarrow> string option \<Rightarrow> bool" where
  "crash_view d p c \<longleftrightarrow>
     (\<exists>e \<in> {dirNow d p, dirDurable d p}.
        (case e of None \<Rightarrow> c = None
         | Some i \<Rightarrow> (if dataSynced d i then c = Some (inodeData d i) else c \<noteq> None)))"

section \<open>FileStore\<close>

record file_store =
  fsPath :: string
  fsRecords :: "(string, Record) go_map"
  fsBatching :: bool
  fsDisk :: disk

text \<open>
  JSON is the codec \<open>enc\<close>/\<open>dec\<close>, an argument: \<open>json.MarshalIndent\<close> of the records map and
  \<open>json.Unmarshal\<close> into it. \<open>write_file\<close> is the part of \<open>flush\<close> after the encoding.
\<close>

definition write_file :: "string \<Rightarrow> string \<Rightarrow> disk \<Rightarrow> error option \<times> disk" where
  "write_file path data d =
     (let tmp = path @ ''.tmp'' in
      case os_open_trunc tmp d of
        (Inl e, d1) \<Rightarrow> (Some e, d1)
      | (Inr i, d1) \<Rightarrow>
      (case file_write i data d1 of
        (Some e, d2) \<Rightarrow> (Some e, snd (file_close d2))
      | (None, d2) \<Rightarrow>
      (case file_sync i d2 of
        (Some e, d3) \<Rightarrow> (Some e, snd (file_close d3))
      | (None, d3) \<Rightarrow>
      (case file_close d3 of
        (Some e, d4) \<Rightarrow> (Some e, d4)
      | (None, d4) \<Rightarrow>
      (case os_rename tmp path d4 of
        (Some e, d5) \<Rightarrow> (Some e, d5)
      | (None, d5) \<Rightarrow> syncDir d5)))))"

definition flush ::
  "((string, Record) go_map \<Rightarrow> error + string) \<Rightarrow> file_store \<Rightarrow> error option \<times> file_store" where
  "flush enc f =
     (case enc (fsRecords f) of
        Inl e \<Rightarrow> (Some e, f)
      | Inr data \<Rightarrow>
          (case write_file (fsPath f) data (fsDisk f) of (e, d) \<Rightarrow> (e, f\<lparr>fsDisk := d\<rparr>)))"

definition flushLocked ::
  "((string, Record) go_map \<Rightarrow> error + string) \<Rightarrow> file_store \<Rightarrow> error option \<times> file_store" where
  "flushLocked enc f = (if fsBatching f then (None, f) else flush enc f)"

definition fs_load ::
  "(string \<Rightarrow> error + (string, Record) go_map) \<Rightarrow> file_store \<Rightarrow> error option \<times> file_store" where
  "fs_load dec f =
     (case dirNow (fsDisk f) (fsPath f) of
        None \<Rightarrow> (None, f)
      | Some i \<Rightarrow>
          (case sys_call (fsDisk f) of
             (Some (e, _), d) \<Rightarrow> (Some e, f\<lparr>fsDisk := d\<rparr>)
           | (None, d) \<Rightarrow>
               (case dec (inodeData d i) of
                  Inl e \<Rightarrow> (Some e, f\<lparr>fsDisk := d\<rparr>)
                | Inr m \<Rightarrow> (None, f\<lparr>fsDisk := d, fsRecords := m\<rparr>))))"

definition NewFileStore ::
  "(string \<Rightarrow> error + (string, Record) go_map) \<Rightarrow> string \<Rightarrow> disk \<Rightarrow> error + file_store" where
  "NewFileStore dec path d =
     (case fs_load dec \<lparr>fsPath = path, fsRecords = [], fsBatching = False, fsDisk = d\<rparr> of
        (Some e, _) \<Rightarrow> Inl e
      | (None, f) \<Rightarrow> Inr f)"

definition fs_upsert ::
  "((string, Record) go_map \<Rightarrow> error + string) \<Rightarrow> Record \<Rightarrow> file_store
     \<Rightarrow> error option \<times> file_store" where
  "fs_upsert enc r f = flushLocked enc (f\<lparr>fsRecords := go_put (RecordKey r) r (fsRecords f)\<rparr>)"

definition fs_delete ::
  "((string, Record) go_map \<Rightarrow> error + string) \<Rightarrow> string \<Rightarrow> file_store
     \<Rightarrow> error option \<times> file_store" where
  "fs_delete enc sid f =
     flushLocked enc (f\<lparr>fsRecords := filter (\<lambda>(k, r). SourceID r \<noteq> sid) (fsRecords f)\<rparr>)"

definition fs_delete_record ::
  "((string, Record) go_map \<Rightarrow> error + string) \<Rightarrow> Record \<Rightarrow> file_store
     \<Rightarrow> error option \<times> file_store" where
  "fs_delete_record enc r f = flushLocked enc (f\<lparr>fsRecords := go_del (RecordKey r) (fsRecords f)\<rparr>)"

definition fs_list :: "(string \<times> Record) iteration \<Rightarrow> file_store \<Rightarrow> error + Record list" where
  "fs_list it f = Inr (map snd (iterate it (fsRecords f)))"

definition fs_list_by_source_name ::
  "(string \<times> Record) iteration \<Rightarrow> string \<Rightarrow> file_store \<Rightarrow> error + Record list" where
  "fs_list_by_source_name it n f =
     Inr (filter (\<lambda>r. SourceName r = n) (map snd (iterate it (fsRecords f))))"

definition fs_batch_begin :: "file_store \<Rightarrow> bool \<times> file_store" where
  "fs_batch_begin f = (if fsBatching f then (True, f) else (False, f\<lparr>fsBatching := True\<rparr>))"

definition fs_batch_finish ::
  "((string, Record) go_map \<Rightarrow> error + string) \<Rightarrow> bool \<Rightarrow> error option \<Rightarrow> file_store
     \<Rightarrow> error option \<times> file_store" where
  "fs_batch_finish enc nested fnErr f =
     (if nested then (fnErr, f)
      else case flush enc (f\<lparr>fsBatching := False\<rparr>) of
        (flushErr, f') \<Rightarrow> (if fnErr \<noteq> None then fnErr else flushErr, f'))"

definition file_ops ::
  "((string, Record) go_map \<Rightarrow> error + string) \<Rightarrow> file_store store_ops" where
  "file_ops enc = \<lparr>stUpsert = fs_upsert enc, stDelete = fs_delete enc,
     stDeleteRecord = fs_delete_record enc, stList = fs_list,
     stListBySourceName = fs_list_by_source_name,
     stBatch = Some (fs_batch_begin, fs_batch_finish enc)\<rparr>"

lemma flush_records [simp]: "fsRecords (snd (flush enc f)) = fsRecords f"
  by (auto simp: flush_def split: sum.splits prod.splits)

lemma flushLocked_records [simp]: "fsRecords (snd (flushLocked enc f)) = fsRecords f"
  by (simp add: flushLocked_def)

lemma batch_begin_records [simp]: "fsRecords (snd (fs_batch_begin f)) = fsRecords f"
  by (simp add: fs_batch_begin_def)

lemma batch_finish_records [simp]: "fsRecords (snd (fs_batch_finish enc n e f)) = fsRecords f"
  using flush_records [of enc "f\<lparr>fsBatching := False\<rparr>"]
  by (cases "flush enc (f\<lparr>fsBatching := False\<rparr>)") (simp add: fs_batch_finish_def)

lemmas file_defs = file_ops_def fs_upsert_def fs_delete_def fs_delete_record_def fs_list_def
  fs_list_by_source_name_def

interpretation fstore: record_store "file_ops enc" fsRecords "\<lambda>f. keyed (fsRecords f)"
  for enc :: "(string, Record) go_map \<Rightarrow> error + string"
  by unfold_locales
    (auto simp: file_defs map_of_delete_source [OF keyed_wf] mset_map_iterate mset_filter_iterate
       simp del: mset_map mset_filter)

section \<open>Crash safety of the state file\<close>

text \<open>
  The state the file system is in between flushes: whatever the state file's name leads to is
  fsynced and is not the inode the temporary file writes to.
\<close>

definition disk_ok :: "string \<Rightarrow> disk \<Rightarrow> bool" where
  "disk_ok p d \<longleftrightarrow>
     (\<forall>i. dirNow d p = Some i \<or> dirDurable d p = Some i \<longrightarrow>
        i < nextInode d \<and> dataSynced d i \<and> dirNow d (p @ ''.tmp'') \<noteq> Some i) \<and>
     (\<forall>i. dirNow d (p @ ''.tmp'') = Some i \<longrightarrow> i < nextInode d)"

lemmas io_defs = sys_call_def os_open_trunc_def file_write_def file_sync_def file_close_def
  os_rename_def syncDir_def

lemma sys_call_frame:
  "sys_call d = (f, d') \<Longrightarrow> dirNow d' = dirNow d \<and> dirDurable d' = dirDurable d \<and>
     inodeData d' = inodeData d \<and> dataSynced d' = dataSynced d \<and> nextInode d' = nextInode d \<and>
     goos d' = goos d"
  by (auto simp: sys_call_def split: list.splits)

text \<open>One lemma per system call: what it does to the state file's name and to the temporary.\<close>

lemma tmp_neq [simp]: "p @ ''.tmp'' \<noteq> p" "p \<noteq> p @ ''.tmp''"
  by simp_all

lemma crash_view_cong:
  assumes "dirNow d' p = dirNow d p" "dirDurable d' p = dirDurable d p"
    "\<And>j. dirNow d p = Some j \<or> dirDurable d p = Some j \<Longrightarrow>
       inodeData d' j = inodeData d j \<and> dataSynced d' j = dataSynced d j"
  shows "crash_view d' p c \<longleftrightarrow> crash_view d p c"
  using assms by (cases "dirNow d p"; cases "dirDurable d p") (simp_all add: crash_view_def)

lemma sys_call_same:
  assumes "sys_call d = (f, d')"
  shows "disk_ok p d' = disk_ok p d" "crash_view d' p c \<longleftrightarrow> crash_view d p c"
proof -
  note f = sys_call_frame [OF assms]
  then show "disk_ok p d' = disk_ok p d" unfolding disk_ok_def by (elim conjE) (simp only:)
  from f show "crash_view d' p c \<longleftrightarrow> crash_view d p c" by (intro crash_view_cong) simp_all
qed

lemma open_trunc_effect:

  assumes "os_open_trunc (p @ ''.tmp'') d = (r, d')" "disk_ok p d"
  shows "disk_ok p d'" "crash_view d' p c \<longleftrightarrow> crash_view d p c" "goos d' = goos d"
    "\<And>i. r = Inr i \<Longrightarrow> dirNow d' (p @ ''.tmp'') = Some i"
proof -
  obtain f d1 where s: "sys_call d = (f, d1)" by fastforce
  note f = sys_call_frame [OF s]
  have "disk_ok p d' \<and> (crash_view d' p c \<longleftrightarrow> crash_view d p c) \<and> goos d' = goos d \<and>
      (\<forall>i. r = Inr i \<longrightarrow> dirNow d' (p @ ''.tmp'') = Some i)"
  proof (cases f)
    case None
    define i where "i = (case dirNow d1 (p @ ''.tmp'') of None \<Rightarrow> nextInode d1 | Some i \<Rightarrow> i)"
    have d': "r = Inr i" "dirNow d' = (dirNow d1)(p @ ''.tmp'' \<mapsto> i)"
      "dirDurable d' = dirDurable d1" "inodeData d' = (inodeData d1)(i := '''')"
      "dataSynced d' = (dataSynced d1)(i := False)" "nextInode d' = max (nextInode d1) (Suc i)"
      "goos d' = goos d1"
      using assms(1) s None by (auto simp: os_open_trunc_def i_def Let_def)
    have "dirNow d p \<noteq> Some i" "dirDurable d p \<noteq> Some i"
      using assms(2) f unfolding i_def disk_ok_def by (auto split: option.splits)
    with d' f have "crash_view d' p c \<longleftrightarrow> crash_view d p c"
      by (intro crash_view_cong) auto
    moreover have "disk_ok p d'"
    proof -
      have now: "dirNow d' p = dirNow d p" "dirDurable d' p = dirDurable d p"
        and tmp: "dirNow d' (p @ ''.tmp'') = Some i"
        using d' f by simp_all
      have "j < nextInode d' \<and> dataSynced d' j \<and> Some i \<noteq> Some j"
        if "dirNow d p = Some j \<or> dirDurable d p = Some j" for j
      proof -
        have "j < nextInode d \<and> dataSynced d j" "j \<noteq> i"
          using that assms(2) \<open>dirNow d p \<noteq> Some i\<close> \<open>dirDurable d p \<noteq> Some i\<close>
          unfolding disk_ok_def by blast+
        then show ?thesis using d' f by (simp add: less_max_iff_disj)
      qed
      then show ?thesis unfolding disk_ok_def now tmp using d'(6) by simp
    qed
    ultimately show ?thesis using d' f by simp
  next
    case (Some e)
    with assms(1) s have "d' = d1" "\<And>i. r \<noteq> Inr i"
      by (auto simp: os_open_trunc_def split: prod.splits)
    with assms(2) f sys_call_same [OF s] show ?thesis by simp
  qed
  then show "disk_ok p d'" "crash_view d' p c \<longleftrightarrow> crash_view d p c" "goos d' = goos d"
    "\<And>i. r = Inr i \<Longrightarrow> dirNow d' (p @ ''.tmp'') = Some i"
    by blast+
qed

lemma write_effect:
  assumes "file_write i data d = (r, d')" "disk_ok p d" "dirNow d (p @ ''.tmp'') = Some i"
  shows "disk_ok p d'" "crash_view d' p c \<longleftrightarrow> crash_view d p c" "goos d' = goos d"
    "dirNow d' (p @ ''.tmp'') = Some i" "r = None \<Longrightarrow> inodeData d' i = data"
proof -
  obtain f d1 where s: "sys_call d = (f, d1)" by fastforce
  then obtain x where d': "dirNow d' = dirNow d" "dirDurable d' = dirDurable d"
    "inodeData d' = (inodeData d)(i := x)" "dataSynced d' = (dataSynced d)(i := False)"
    "nextInode d' = nextInode d" "goos d' = goos d" "r = None \<Longrightarrow> x = data"
    using assms(1) sys_call_frame [OF s]
    by (cases f) (auto simp: file_write_def split: prod.splits)
  have ne: "dirNow d p \<noteq> Some i" "dirDurable d p \<noteq> Some i"
    using assms(2,3) unfolding disk_ok_def by blast+
  with d' show "crash_view d' p c \<longleftrightarrow> crash_view d p c"
    by (intro crash_view_cong) auto
  have "dataSynced d' j" if "dirNow d p = Some j \<or> dirDurable d p = Some j" for j
    using that ne assms(2) d'(4) unfolding disk_ok_def by auto
  then show "disk_ok p d'"
    using assms(2) unfolding disk_ok_def d'(1,2,5) by blast
  show "goos d' = goos d" "dirNow d' (p @ ''.tmp'') = Some i" "r = None \<Longrightarrow> inodeData d' i = data"
    using d' assms(3) by simp_all
qed

lemma sync_effect:
  assumes "file_sync i d = (r, d')" "disk_ok p d" "dirNow d (p @ ''.tmp'') = Some i"
  shows "disk_ok p d'" "crash_view d' p c \<longleftrightarrow> crash_view d p c" "goos d' = goos d"
    "dirNow d' (p @ ''.tmp'') = Some i" "inodeData d' = inodeData d"
    "r = None \<Longrightarrow> dataSynced d' i"
proof -
  obtain f d1 where s: "sys_call d = (f, d1)" by fastforce
  have d': "dirNow d' = dirNow d" "dirDurable d' = dirDurable d"
    "inodeData d' = inodeData d" "dataSynced d' = (dataSynced d)(i := dataSynced d' i)"
    "nextInode d' = nextInode d" "goos d' = goos d" "r = None \<Longrightarrow> dataSynced d' i"
    using assms(1) s sys_call_frame [OF s]
    by (cases f; auto simp: file_sync_def split: prod.splits)+
  have ne: "dirNow d p \<noteq> Some i" "dirDurable d p \<noteq> Some i"
    using assms(2,3) unfolding disk_ok_def by blast+
  have same: "dataSynced d' j = dataSynced d j" if "j \<noteq> i" for j
    using d'(4) that by (metis fun_upd_other)
  show "crash_view d' p c \<longleftrightarrow> crash_view d p c"
    using ne same d'(1,2,3) by (intro crash_view_cong) auto
  have "dataSynced d' j" if "dirNow d p = Some j \<or> dirDurable d p = Some j" for j
    using that ne assms(2) same unfolding disk_ok_def by metis
  then show "disk_ok p d'"
    using assms(2) unfolding disk_ok_def d'(1,2,5) by blast
  show "goos d' = goos d" "dirNow d' (p @ ''.tmp'') = Some i" "inodeData d' = inodeData d"
    "r = None \<Longrightarrow> dataSynced d' i"
    using d' assms(3) by simp_all
qed

lemma close_effect:
  assumes "file_close d = (r, d')"
  shows "disk_ok p d' = disk_ok p d" "crash_view d' p c \<longleftrightarrow> crash_view d p c" "goos d' = goos d"
    "dirNow d' = dirNow d" "inodeData d' = inodeData d" "dataSynced d' = dataSynced d"
proof -
  obtain f where "sys_call d = (f, d')"
    using assms by (auto simp: file_close_def split: prod.splits)
  then show "disk_ok p d' = disk_ok p d" "crash_view d' p c \<longleftrightarrow> crash_view d p c"
    "goos d' = goos d" "dirNow d' = dirNow d" "inodeData d' = inodeData d"
    "dataSynced d' = dataSynced d"
    using sys_call_frame sys_call_same by blast+
qed

lemma rename_effect:
  assumes "os_rename (p @ ''.tmp'') p d = (r, d')" "disk_ok p d"
    "dirNow d (p @ ''.tmp'') = Some i" "dataSynced d i" "inodeData d i = data"
  shows "disk_ok p d'" "crash_view d' p c \<Longrightarrow> crash_view d p c \<or> c = Some data"
    "goos d' = goos d" "r = None \<Longrightarrow> dirNow d' p = Some i \<and> dataSynced d' i \<and> inodeData d' i = data"
  using assms
  by (auto simp: os_rename_def disk_ok_def crash_view_def
      split: prod.splits option.splits dest!: sys_call_frame)

lemma syncDir_frame:
  assumes "syncDir d = (r, d')"
  shows "dirNow d' = dirNow d" "inodeData d' = inodeData d" "dataSynced d' = dataSynced d"
    "nextInode d' = nextInode d" "dirDurable d' = dirDurable d \<or> dirDurable d' = dirNow d"
    "r = None \<Longrightarrow> goos d \<noteq> ''windows'' \<Longrightarrow> dirDurable d' = dirNow d"
proof -
  obtain f d1 where s: "sys_call d = (f, d1)" by fastforce
  obtain g d2 where t: "sys_call d1 = (g, d2)" by fastforce
  note fr = sys_call_frame [OF s] sys_call_frame [OF t]
  have "d' = d \<and> goos d = ''windows'' \<or> d' = d1 \<and> r \<noteq> None \<or> d' = d2 \<and> r \<noteq> None \<or>
      d' = d2\<lparr>dirDurable := dirNow d2\<rparr>"
    using assms s t by (cases f; cases g) (auto simp: syncDir_def split: if_splits)
  then show "dirNow d' = dirNow d" "inodeData d' = inodeData d" "dataSynced d' = dataSynced d"
    "nextInode d' = nextInode d" "dirDurable d' = dirDurable d \<or> dirDurable d' = dirNow d"
    "r = None \<Longrightarrow> goos d \<noteq> ''windows'' \<Longrightarrow> dirDurable d' = dirNow d"
    using fr by (elim disjE; simp)+
qed

lemma syncDir_effect:
  assumes "syncDir d = (r, d')" "disk_ok p d" "dirNow d p = Some i" "dataSynced d i"
    "inodeData d i = data"
  shows "disk_ok p d'" "crash_view d' p c \<Longrightarrow> crash_view d p c"
    "r = None \<Longrightarrow> goos d \<noteq> ''windows'' \<Longrightarrow> crash_view d' p c \<longleftrightarrow> c = Some data"
    "dirNow d' = dirNow d \<and> inodeData d' = inodeData d"
proof -
  note fr = syncDir_frame [OF assms(1)]
  show "disk_ok p d'"
    using assms(2) fr(5) unfolding disk_ok_def fr(1,3,4) by metis
  have "dirDurable d' p = dirDurable d p \<or> dirDurable d' p = dirNow d p"
    using fr(5) by auto
  then show "crash_view d' p c \<Longrightarrow> crash_view d p c"
    unfolding crash_view_def fr(1,2,3) by (elim disjE) simp_all
  show "crash_view d' p c \<longleftrightarrow> c = Some data" if "r = None" "goos d \<noteq> ''windows''"
    using fr(6) [OF that] assms(3,4,5) by (simp add: crash_view_def fr(1,2,3))
  show "dirNow d' = dirNow d \<and> inodeData d' = inodeData d" using fr by simp
qed

lemma write_file_effect:
  assumes "write_file p data d = (r, d')" "disk_ok p d"
  shows "disk_ok p d'" "crash_view d' p c \<Longrightarrow> crash_view d p c \<or> c = Some data"
    "r = None \<Longrightarrow> goos d \<noteq> ''windows'' \<Longrightarrow> crash_view d' p c \<longleftrightarrow> c = Some data"
    "r = None \<Longrightarrow> \<exists>i. dirNow d' p = Some i \<and> inodeData d' i = data"
proof -
  let ?tmp = "p @ ''.tmp''"
  obtain r1 d1 where o: "os_open_trunc ?tmp d = (r1, d1)" by fastforce
  note 1 = open_trunc_effect [OF o assms(2)]
  have "disk_ok p d' \<and> (crash_view d' p c \<longrightarrow> crash_view d p c \<or> c = Some data) \<and>
      (r = None \<longrightarrow> goos d \<noteq> ''windows'' \<longrightarrow> (crash_view d' p c \<longleftrightarrow> c = Some data)) \<and>
      (r = None \<longrightarrow> (\<exists>i. dirNow d' p = Some i \<and> inodeData d' i = data))"
  proof (cases r1)
    case (Inl e)
    with assms(1) o 1 show ?thesis by (auto simp: write_file_def Let_def)
  next
    case (Inr i)
    obtain r2 d2 where w: "file_write i data d1 = (r2, d2)" by fastforce
    note 2 = write_effect [OF w 1(1) 1(4) [OF Inr]]
    obtain r3 d3 where s: "file_sync i d2 = (r3, d3)" by fastforce
    note 3 = sync_effect [OF s 2(1) 2(4)]
    obtain r4 d4 where c: "file_close d3 = (r4, d4)" by fastforce
    note 4 = close_effect [OF c]
    obtain r5 d5 where n: "os_rename ?tmp p d4 = (r5, d5)" by fastforce
    show ?thesis
    proof (cases "r2 = None \<and> r3 = None")
      case False
      then obtain e dx where "r = Some e" "d' = snd (file_close dx)" "dx = d2 \<or> dx = d3"
        using assms(1) o Inr w s by (auto simp: write_file_def Let_def split: option.splits)
      then show ?thesis
        using close_effect [of dx "fst (file_close dx)" d'] 1 2 3 by (auto simp: prod_eq_iff)
    next
      case True
      have 5: "disk_ok p d4" "dirNow d4 ?tmp = Some i" "dataSynced d4 i" "inodeData d4 i = data"
        using True 2 3 4 by simp_all
      note 6 = rename_effect [OF n 5]
      show ?thesis
      proof (cases "r4 = None \<and> r5 = None")
        case False
        then show ?thesis
          using assms(1) o Inr w s c n True 1 2 3 4 6
          by (auto simp: write_file_def Let_def split: option.splits)
      next
        case fin: True
        then have sd: "syncDir d5 = (r, d')"
          using assms(1) o Inr w s c n True by (simp add: write_file_def Let_def)
        from fin 6(4) have "dirNow d5 p = Some i" "dataSynced d5 i" "inodeData d5 i = data"
          by simp_all
        note 7 = syncDir_effect [OF sd 6(1) this]
        show ?thesis using 1 2 3 4 6 7 fin by auto
      qed
    qed
  qed
  then show "disk_ok p d'" "crash_view d' p c \<Longrightarrow> crash_view d p c \<or> c = Some data"
    "r = None \<Longrightarrow> goos d \<noteq> ''windows'' \<Longrightarrow> crash_view d' p c \<longleftrightarrow> c = Some data"
    "r = None \<Longrightarrow> \<exists>i. dirNow d' p = Some i \<and> inodeData d' i = data"
    by blast+
qed

text \<open>The commands a client issues to a file store; a batch is bracketed by two of them.\<close>

datatype store_cmd =
    CmdUpsert Record
  | CmdDelete string
  | CmdDeleteRecord Record
  | CmdBatchBegin
  | CmdBatchFinish bool "error option"

fun fs_cmd ::
  "((string, Record) go_map \<Rightarrow> error + string) \<Rightarrow> file_store \<Rightarrow> store_cmd \<Rightarrow> file_store" where
  "fs_cmd enc f (CmdUpsert r) = snd (fs_upsert enc r f)"
| "fs_cmd enc f (CmdDelete sid) = snd (fs_delete enc sid f)"
| "fs_cmd enc f (CmdDeleteRecord r) = snd (fs_delete_record enc r f)"
| "fs_cmd enc f CmdBatchBegin = snd (fs_batch_begin f)"
| "fs_cmd enc f (CmdBatchFinish nested e) = snd (fs_batch_finish enc nested e f)"

fun fs_run ::
  "((string, Record) go_map \<Rightarrow> error + string) \<Rightarrow> file_store \<Rightarrow> store_cmd list \<Rightarrow> file_store" where
  "fs_run enc f [] = f"
| "fs_run enc f (c # cs) = fs_run enc (fs_cmd enc f c) cs"

lemma flush_path [simp]: "fsPath (snd (flush enc f)) = fsPath f"
  by (auto simp: flush_def split: sum.splits prod.splits)

text \<open>A flush writes the records it has in memory, or leaves the disk alone.\<close>

lemma flush_effect:
  assumes "disk_ok (fsPath f) (fsDisk f)"
  shows "disk_ok (fsPath f) (fsDisk (snd (flush enc f)))"
    "crash_view (fsDisk (snd (flush enc f))) (fsPath f) c \<Longrightarrow>
       crash_view (fsDisk f) (fsPath f) c \<or> (\<exists>data. enc (fsRecords f) = Inr data \<and> c = Some data)"
proof -
  have "disk_ok (fsPath f) (fsDisk (snd (flush enc f))) \<and>
      (crash_view (fsDisk (snd (flush enc f))) (fsPath f) c \<longrightarrow>
        crash_view (fsDisk f) (fsPath f) c \<or> (\<exists>data. enc (fsRecords f) = Inr data \<and> c = Some data))"
  proof (cases "enc (fsRecords f)")
    case (Inl e)
    with assms show ?thesis by (simp add: flush_def)
  next
    case (Inr data)
    obtain r d where w: "write_file (fsPath f) data (fsDisk f) = (r, d)" by fastforce
    from write_file_effect(1,2) [OF w assms] Inr w show ?thesis by (simp add: flush_def)
  qed
  then show "disk_ok (fsPath f) (fsDisk (snd (flush enc f)))"
    "crash_view (fsDisk (snd (flush enc f))) (fsPath f) c \<Longrightarrow>
       crash_view (fsDisk f) (fsPath f) c \<or> (\<exists>data. enc (fsRecords f) = Inr data \<and> c = Some data)"
    by blast+
qed

lemma fs_cmd_flush:
  assumes "g = (fs_cmd enc f c)\<lparr>fsDisk := fsDisk f\<rparr>"
  shows "fs_cmd enc f c = snd (flush enc g) \<and> fsPath g = fsPath f \<and> fsDisk g = fsDisk f \<or>
   fsPath (fs_cmd enc f c) = fsPath f \<and> fsDisk (fs_cmd enc f c) = fsDisk f"
proof -
  have undo_disk: "(snd (flush enc h))\<lparr>fsDisk := fsDisk h\<rparr> = h" for h
    by (auto simp: flush_def split: sum.splits prod.splits)
  have fin: "snd (fs_batch_finish enc n e f)
      = (if n then f else snd (flush enc (f\<lparr>fsBatching := False\<rparr>)))" for n e
    by (simp add: fs_batch_finish_def split: prod.splits)
  show ?thesis
    using assms undo_disk [of "f\<lparr>fsBatching := False\<rparr>"]
      undo_disk [of "f\<lparr>fsRecords := R\<rparr>" for R]
    by (cases c) (auto simp: fs_upsert_def fs_delete_def fs_delete_record_def flushLocked_def
        fs_batch_begin_def fin)
qed

lemma fs_cmd_effect:
  assumes "disk_ok (fsPath f) (fsDisk f)"
  shows "disk_ok (fsPath f) (fsDisk (fs_cmd enc f c))" "fsPath (fs_cmd enc f c) = fsPath f"
    "crash_view (fsDisk (fs_cmd enc f c)) (fsPath f) v \<Longrightarrow>
       crash_view (fsDisk f) (fsPath f) v \<or>
       (\<exists>data. enc (fsRecords (fs_cmd enc f c)) = Inr data \<and> v = Some data)"
proof -
  define g where "g = (fs_cmd enc f c)\<lparr>fsDisk := fsDisk f\<rparr>"
  from fs_cmd_flush [OF g_def]
  have "disk_ok (fsPath f) (fsDisk (fs_cmd enc f c)) \<and> fsPath (fs_cmd enc f c) = fsPath f \<and>
    (crash_view (fsDisk (fs_cmd enc f c)) (fsPath f) v \<longrightarrow>
       crash_view (fsDisk f) (fsPath f) v \<or>
       (\<exists>data. enc (fsRecords (fs_cmd enc f c)) = Inr data \<and> v = Some data))"
  proof (elim disjE conjE)
    assume a: "fs_cmd enc f c = snd (flush enc g)" "fsPath g = fsPath f" "fsDisk g = fsDisk f"
    from assms a(2,3) have "disk_ok (fsPath g) (fsDisk g)" by simp
    from flush_effect [OF this] a show ?thesis by simp
  qed (use assms in simp)
  then show "disk_ok (fsPath f) (fsDisk (fs_cmd enc f c))" "fsPath (fs_cmd enc f c) = fsPath f"
    "crash_view (fsDisk (fs_cmd enc f c)) (fsPath f) v \<Longrightarrow>
       crash_view (fsDisk f) (fsPath f) v \<or>
       (\<exists>data. enc (fsRecords (fs_cmd enc f c)) = Inr data \<and> v = Some data)"
    by blast+
qed

text \<open>
  C3. Crash safety of \<open>FileStore\<close>. Run any commands against a file store while system calls
  fail at will; if the machine stops then, what is found at the state file's name is what could
  be found there at the start, or the complete encoding of the records as they were after some
  of the commands: never a torn or partial file. Stopping inside a flush is covered, since the
  disk is then in the state in which a flush that fails at that call leaves it.
\<close>

theorem FileStore_crash_atomic:
  assumes "disk_ok (fsPath f) (fsDisk f)"
    and "crash_view (fsDisk (fs_run enc f cmds)) (fsPath f) v"
  shows "crash_view (fsDisk f) (fsPath f) v \<or>
    (\<exists>n \<le> length cmds. \<exists>data. enc (fsRecords (fs_run enc f (take n cmds))) = Inr data \<and> v = Some data)"
  using assms
proof (induction cmds arbitrary: f)
  case Nil
  then show ?case by simp
next
  case (Cons c cs)
  let ?f = "fs_cmd enc f c"
  note e = fs_cmd_effect [OF Cons.prems(1), of enc c]
  have "disk_ok (fsPath ?f) (fsDisk ?f)" using e by simp
  from Cons.IH [OF this] Cons.prems(2) e(2)
  have "crash_view (fsDisk ?f) (fsPath f) v \<or>
      (\<exists>n \<le> length cs. \<exists>data. enc (fsRecords (fs_run enc ?f (take n cs))) = Inr data \<and> v = Some data)"
    by simp
  then show ?case
  proof (elim disjE exE conjE)
    assume "crash_view (fsDisk ?f) (fsPath f) v"
    then have "crash_view (fsDisk f) (fsPath f) v \<or>
        (\<exists>data. enc (fsRecords ?f) = Inr data \<and> v = Some data)" by (rule e(3))
    moreover have "fs_run enc f (take (Suc 0) (c # cs)) = ?f" by simp
    ultimately show ?thesis by (metis One_nat_def le_add1 length_Cons plus_1_eq_Suc)
  next
    fix n data
    assume "n \<le> length cs" "enc (fsRecords (fs_run enc ?f (take n cs))) = Inr data" "v = Some data"
    then show ?thesis by (intro disjI2 exI [of _ "Suc n"]) simp
  qed
qed

definition empty_disk :: disk where
  "empty_disk = \<lparr>dirNow = (\<lambda>_. None), dirDurable = (\<lambda>_. None), inodeData = (\<lambda>_. ''''),
     dataSynced = (\<lambda>_. False), nextInode = 0, ioFaults = [], goos = ''linux''\<rparr>"

definition empty_file_store :: file_store where
  "empty_file_store = \<lparr>fsPath = ''/data/s'', fsRecords = [], fsBatching = False, fsDisk = empty_disk\<rparr>"

lemma empty_disk_ok: "disk_ok p empty_disk"
  by (simp add: disk_ok_def empty_disk_def)

lemmas file_eval = empty_file_store_def empty_disk_def fs_upsert_def flushLocked_def flush_def
  write_file_def io_defs RecordKey_def zero_record_def

theorem FileStore_crash_atomic_witness:
  "let enc = (\<lambda>m. Inr (concat (map fst m))) :: (string, Record) go_map \<Rightarrow> error + string;
       cmds = [CmdUpsert zero_record];
       f = empty_file_store
   in disk_ok (fsPath f) (fsDisk f) \<and>
      crash_view (fsDisk (fs_run enc f cmds)) (fsPath f) (Some ''//'') \<and>
      (crash_view (fsDisk f) (fsPath f) (Some ''//'') \<or>
       (\<exists>n \<le> length cmds. \<exists>data.
          enc (fsRecords (fs_run enc f (take n cmds))) = Inr data \<and> Some ''//'' = Some data))"
proof -
  let ?enc = "(\<lambda>m. Inr (concat (map fst m))) :: (string, Record) go_map \<Rightarrow> error + string"
  have d: "disk_ok (fsPath empty_file_store) (fsDisk empty_file_store)"
    by (simp add: empty_file_store_def empty_disk_ok)
  have v: "crash_view (fsDisk (fs_run ?enc empty_file_store [CmdUpsert zero_record]))
      (fsPath empty_file_store) (Some ''//'')"
    by (simp add: file_eval crash_view_def)
  from FileStore_crash_atomic [OF d v] d v show ?thesis by (simp only: Let_def)
qed

text \<open>
  C9. Durability of a successful flush. When \<open>flush\<close> reports no error (on a platform where
  directories are fsynced), a crash can no longer take the file back: its only possible
  content is the encoding of the records in memory; and a store opened on that disk starts
  with exactly these records, for any codec whose decoder inverts the encoder on them.
\<close>

theorem FileStore_flush_durable:
  assumes "disk_ok (fsPath f) (fsDisk f)" "goos (fsDisk f) \<noteq> ''windows''"
    and "enc (fsRecords f) = Inr data" "dec data = Inr (fsRecords f)"
    and "flush enc f = (None, f')" "ioFaults (fsDisk f') = []"
  shows "(\<forall>v. crash_view (fsDisk f') (fsPath f) v \<longleftrightarrow> v = Some data) \<and>
    (\<exists>g. NewFileStore dec (fsPath f) (fsDisk f') = Inr g \<and> fsRecords g = fsRecords f)"
proof -
  obtain d where w: "write_file (fsPath f) data (fsDisk f) = (None, d)" and d: "fsDisk f' = d"
    using assms(3,5) by (auto simp: flush_def split: prod.splits)
  note e = write_file_effect [OF w assms(1)]
  have "crash_view d (fsPath f) v \<longleftrightarrow> v = Some data" for v
    using e(3) assms(2) by blast
  moreover obtain i where "dirNow d (fsPath f) = Some i" "inodeData d i = data"
    using e(4) by blast
  ultimately show ?thesis
    using assms(4,6) d by (simp add: NewFileStore_def fs_load_def sys_call_def)
qed

theorem FileStore_flush_durable_witness:
  "let enc = (\<lambda>m. Inr (concat (map fst m))) :: (string, Record) go_map \<Rightarrow> error + string;
       dec = (\<lambda>s. if s = ''//'' then Inr [(''//'', zero_record)] else Inr []);
       f = empty_file_store\<lparr>fsRecords := [(''//'', zero_record)]\<rparr>;
       f' = snd (flush enc f)
   in fst (flush enc f) = None \<and> (\<forall>v. crash_view (fsDisk f') (fsPath f) v \<longleftrightarrow> v = Some ''//'') \<and>
      (\<exists>g. NewFileStore dec (fsPath f) (fsDisk f') = Inr g \<and> fsRecords g = fsRecords f)"
proof -
  let ?enc = "(\<lambda>m. Inr (concat (map fst m))) :: (string, Record) go_map \<Rightarrow> error + string"
  let ?dec = "\<lambda>s. if s = ''//'' then Inr [(''//'', zero_record)] else Inr []"
  let ?f = "empty_file_store\<lparr>fsRecords := [(''//'', zero_record)]\<rparr>"
  have d: "disk_ok (fsPath ?f) (fsDisk ?f)"
    by (simp add: empty_file_store_def empty_disk_ok)
  have g: "goos (fsDisk ?f) \<noteq> ''windows''" "ioFaults (fsDisk (snd (flush ?enc ?f))) = []"
    and n: "fst (flush ?enc ?f) = None"
    by (simp_all add: file_eval)
  then have "flush ?enc ?f = (None, snd (flush ?enc ?f))" by (simp add: prod_eq_iff)
  from FileStore_flush_durable [OF d g(1) _ _ this g(2), of "''//''" ?dec] n
  show ?thesis unfolding Let_def by simp
qed

text \<open>The commands a batch may hold: every mutation, no nested batch.\<close>

fun cmd_mutates :: "store_cmd \<Rightarrow> bool" where
  "cmd_mutates CmdBatchBegin = False"
| "cmd_mutates (CmdBatchFinish n e) = False"
| "cmd_mutates c = True"

lemma fs_cmd_batching:
  "fsBatching f \<Longrightarrow> cmd_mutates c \<Longrightarrow>
     fsBatching (fs_cmd enc f c) \<and> fsDisk (fs_cmd enc f c) = fsDisk f"
  by (cases c) (simp_all add: fs_upsert_def fs_delete_def fs_delete_record_def flushLocked_def)

lemma fs_cmd_records_eq:
  "fsRecords f = fsRecords g \<Longrightarrow> fsRecords (fs_cmd enc f c) = fsRecords (fs_cmd enc g c)"
  by (cases c) (simp_all add: fs_upsert_def fs_delete_def fs_delete_record_def)

lemma fs_run_batching:
  "fsBatching f \<Longrightarrow> list_all cmd_mutates cs \<Longrightarrow>
     fsBatching (fs_run enc f cs) \<and> fsDisk (fs_run enc f cs) = fsDisk f"
  by (induction cs arbitrary: f) (simp_all add: fs_cmd_batching)

lemma fs_run_records_eq:
  "fsRecords f = fsRecords g \<Longrightarrow> fsRecords (fs_run enc f cs) = fsRecords (fs_run enc g cs)"
proof (induction cs arbitrary: f g)
  case (Cons c cs)
  from Cons.IH [OF fs_cmd_records_eq [OF Cons.prems]] show ?case by simp
qed simp

text \<open>
  A batch writes once. Inside \<open>Batch\<close> no mutation touches the disk, the records evolve as
  they would without the batch, and the end of the batch is one flush of the final records.
\<close>

theorem Batch_single_flush:
  assumes "\<not> fsBatching f" "list_all cmd_mutates cs"
  shows "let (nested, f1) = fs_batch_begin f; f2 = fs_run enc f1 cs
    in fsDisk f2 = fsDisk f \<and> fsRecords f2 = fsRecords (fs_run enc f cs) \<and>
       fs_batch_finish enc nested None f2 = flush enc (f2\<lparr>fsBatching := False\<rparr>)"
proof -
  have b: "fs_batch_begin f = (False, f\<lparr>fsBatching := True\<rparr>)"
    using assms(1) by (simp add: fs_batch_begin_def)
  have "fsDisk (fs_run enc (f\<lparr>fsBatching := True\<rparr>) cs) = fsDisk f"
    using fs_run_batching [OF _ assms(2), of "f\<lparr>fsBatching := True\<rparr>"] by simp
  moreover have "fsRecords (fs_run enc (f\<lparr>fsBatching := True\<rparr>) cs) = fsRecords (fs_run enc f cs)"
    by (rule fs_run_records_eq) simp
  ultimately show ?thesis by (simp add: b fs_batch_finish_def)
qed

theorem Batch_single_flush_witness:
  "let f = empty_file_store; cs = [CmdUpsert zero_record, CmdDeleteRecord zero_record];
       enc = (\<lambda>m. Inr ''{}'')
   in \<not> fsBatching f \<and> list_all cmd_mutates cs \<and>
     (let (nested, f1) = fs_batch_begin f; f2 = fs_run enc f1 cs
      in fsDisk f2 = fsDisk f \<and> fsRecords f2 = fsRecords (fs_run enc f cs) \<and>
         fs_batch_finish enc nested None f2 = flush enc (f2\<lparr>fsBatching := False\<rparr>))"
proof -
  have nb: "\<not> fsBatching empty_file_store" by (simp add: empty_file_store_def)
  have c: "list_all cmd_mutates [CmdUpsert zero_record, CmdDeleteRecord zero_record]" by simp
  show ?thesis
    using nb c Batch_single_flush [OF nb c, of "\<lambda>m. Inr ''{}''"]
    unfolding Let_def by (rule conjI [OF _ conjI])
qed
end
