(* ===== verification/Diff.thy ===== *)
theory Diff
  imports Registry
begin

text \<open>
  \<open>internal/reconcile/plan.go\<close> and \<open>diff.go\<close>: the plan types and \<open>diff\<close>, which turns desired
  records, recorded records, the set of cleanly read sources and the upstreams' actual
  records into the operations of one pass. The loops over Go maps take their order from
  \<open>diff_orders\<close>. Proved here: the operations of a plan, exactly; at most one operation per
  record key; deletions only for records of cleanly read sources that nobody desires; when and
  how drift is corrected; a converged state plans nothing.
\<close>

section \<open>Plan types\<close>

datatype OpKind = OpNoop | OpCreate | OpUpdate | OpDelete

fun op_kind_string :: "OpKind \<Rightarrow> string" where
  "op_kind_string OpNoop = ''noop''"
| "op_kind_string OpCreate = ''create''"
| "op_kind_string OpUpdate = ''update''"
| "op_kind_string OpDelete = ''delete''"

definition DriftMissing :: string where [go_consts]: "DriftMissing = ''missing''"
definition DriftChanged :: string where [go_consts]: "DriftChanged = ''changed''"

record Op =
  Kind :: OpKind
  opRecord :: Record
  DriftReason :: string
  DriftDetail :: string

type_synonym Plan = "(string, Op list) go_map"

definition simple_op :: "OpKind \<Rightarrow> Record \<Rightarrow> Op" where
  [go_eval]: "simple_op k r = \<lparr>Kind = k, opRecord = r, DriftReason = '''', DriftDetail = ''''\<rparr>"

lemma simple_op_simps [simp]:
  "Kind (simple_op k r) = k" "opRecord (simple_op k r) = r" "DriftReason (simple_op k r) = ''''"
  by (simp_all add: simple_op_def)

definition Summary :: "Plan \<Rightarrow> OpKind \<Rightarrow> nat" where
  "Summary p k = sum_list (map (\<lambda>(u, ops). length (filter (\<lambda>op. Kind op = k) ops)) p)"

section \<open>Comparing records\<close>

definition appliedEqual :: "Record \<Rightarrow> Record \<Rightarrow> bool" where
  [go_eval]: "appliedEqual a b \<longleftrightarrow>
     Type a = Type b \<and> Name a = Name b \<and> Value a = Value b \<and> TTL a = TTL b \<and>
     Priority a = Priority b \<and> Comment a = Comment b"

definition naturalKey :: "string \<Rightarrow> RecordType \<Rightarrow> string \<Rightarrow> string \<Rightarrow> string" where
  [go_eval]: "naturalKey u t n v = u @ ''/'' @ t @ ''/'' @ n @ ''/'' @ v"

definition nameTypeKey :: "string \<Rightarrow> RecordType \<Rightarrow> string \<Rightarrow> string" where
  [go_eval]: "nameTypeKey u t n = u @ ''/'' @ t @ ''/'' @ n"

section \<open>Indexing the upstreams' records\<close>

record upstreamVerification =
  Actual :: "(string, Record list) go_map"
  Fetched :: "(string, bool) go_map"
  Compare :: "(string, Record \<Rightarrow> Record \<Rightarrow> bool) go_map"

record actualIndex =
  exact :: "(string, Record) go_map"
  byNameType :: "(string, Record) go_map"

definition put_first :: "string \<Rightarrow> Record \<Rightarrow> (string, Record) go_map \<Rightarrow> (string, Record) go_map" where
  [go_eval]: "put_first k r m = (case map_of m k of None \<Rightarrow> go_put k r m | Some _ \<Rightarrow> m)"

fun index_records :: "string \<Rightarrow> Record list \<Rightarrow> actualIndex \<Rightarrow> actualIndex" where
  "index_records u [] idx = idx"
| "index_records u (r # rs) idx =
     index_records u rs
       \<lparr>exact = put_first (naturalKey u (Type r) (Name r) (Value r)) r (exact idx),
        byNameType = put_first (nameTypeKey u (Type r) (Name r)) r (byNameType idx)\<rparr>"

fun index_upstreams :: "(string \<times> Record list) list \<Rightarrow> actualIndex \<Rightarrow> actualIndex" where
  "index_upstreams [] idx = idx"
| "index_upstreams ((u, rs) # us) idx = index_upstreams us (index_records u rs idx)"

definition buildActualIndex ::
  "(string \<times> Record list) iteration \<Rightarrow> (string, Record list) go_map \<Rightarrow> actualIndex" where
  [go_eval]: "buildActualIndex it actual =
     index_upstreams (iterate it actual) \<lparr>exact = [], byNameType = []\<rparr>"

section \<open>Drift\<close>

definition driftDetail :: "Record \<Rightarrow> Record \<Rightarrow> bool \<Rightarrow> string" where
  "driftDetail want got hasGot =
     (if \<not> hasGot then
        ''no upstream record for type='' @ Type want @ '' name='' @ go_quote (Name want) @
        '' value='' @ go_quote (Value want)
      else
        (let diffs =
           (if Value want \<noteq> Value got then
              [''value: upstream='' @ go_quote (Value got) @ '' desired='' @ go_quote (Value want)]
            else []) @
           (if TTL want \<noteq> TTL got then
              [''ttl: upstream='' @ itoa (TTL got) @ '' desired='' @ itoa (TTL want)] else []) @
           (if Priority want \<noteq> Priority got then
              [''priority: upstream='' @ itoa (Priority got) @ '' desired='' @ itoa (Priority want)]
            else []) @
           (if Comment want \<noteq> Comment got then
              [''comment: upstream='' @ go_quote (Comment got) @ '' desired='' @
               go_quote (Comment want)]
            else [])
         in if diffs = [] then
              ''no literal field difference (drift decided by an upstream-specific comparison rule)''
            else join ''; '' diffs))"

text \<open>\<open>None\<close> is the result \<open>(Op{}, false)\<close>.\<close>

definition driftCorrection ::
  "actualIndex \<Rightarrow> upstreamVerification \<Rightarrow> Record \<Rightarrow> Op option" where
  "driftCorrection idx ver want =
     (if \<not> go_get False (Fetched ver) (Upstream want) then None
      else
        (let cmp = go_get appliedEqual (Compare ver) (Upstream want) in
         case map_of (exact idx) (naturalKey (Upstream want) (Type want) (Name want) (Value want)) of
           Some got \<Rightarrow>
             if cmp want got then None
             else Some \<lparr>Kind = OpUpdate, opRecord = want, DriftReason = DriftChanged,
                    DriftDetail = driftDetail want got True\<rparr>
         | None \<Rightarrow>
         (case map_of (byNameType idx) (nameTypeKey (Upstream want) (Type want) (Name want)) of
            Some got \<Rightarrow> Some \<lparr>Kind = OpUpdate, opRecord = want, DriftReason = DriftChanged,
                    DriftDetail = driftDetail want got True\<rparr>
          | None \<Rightarrow> Some \<lparr>Kind = OpCreate, opRecord = want, DriftReason = DriftMissing,
                    DriftDetail = driftDetail want zero_record False\<rparr>)))"

section \<open>diff\<close>

record diff_orders =
  ordActual :: "(string \<times> Record list) iteration"
  ordDesired :: "(string \<times> Record) iteration"
  ordRecorded :: "(string \<times> Record) iteration"

definition plan_add :: "Op \<Rightarrow> Plan \<Rightarrow> Plan" where
  [go_eval]: "plan_add op p =
     go_put (Upstream (opRecord op)) (go_get [] p (Upstream (opRecord op)) @ [op]) p"

text \<open>The body of the loop over the desired records: the \<open>switch\<close>.\<close>

definition desired_op ::
  "actualIndex \<Rightarrow> upstreamVerification \<Rightarrow> (string, Record) go_map \<Rightarrow> string \<Rightarrow> Record \<Rightarrow> Op" where
  "desired_op idx ver recordedByKey key want =
     (case map_of recordedByKey key of
        None \<Rightarrow> simple_op OpCreate want
      | Some have \<Rightarrow>
          if Status have = RecordStatusFailed then simple_op OpUpdate want
          else if appliedEqual want have then
            (case driftCorrection idx ver want of
               Some op \<Rightarrow> op
             | None \<Rightarrow> simple_op OpNoop want)
          else simple_op OpUpdate want)"

fun diff_desired ::
  "actualIndex \<Rightarrow> upstreamVerification \<Rightarrow> (string, Record) go_map \<Rightarrow> (string \<times> Record) list
     \<Rightarrow> Plan \<Rightarrow> Plan" where
  "diff_desired idx ver rec [] p = p"
| "diff_desired idx ver rec ((key, want) # ds) p =
     diff_desired idx ver rec ds (plan_add (desired_op idx ver rec key want) p)"

fun diff_deletes ::
  "(string, Record) go_map \<Rightarrow> (string, bool) go_map \<Rightarrow> (string \<times> Record) list \<Rightarrow> Plan \<Rightarrow> Plan" where
  "diff_deletes des snap [] p = p"
| "diff_deletes des snap ((key, have) # rs) p =
     (if map_of des key \<noteq> None then diff_deletes des snap rs p
      else if \<not> go_get False snap (SourceName have) then diff_deletes des snap rs p
      else diff_deletes des snap rs (plan_add (simple_op OpDelete have) p))"

definition diff ::
  "diff_orders \<Rightarrow> Record list \<Rightarrow> Record list \<Rightarrow> (string, bool) go_map \<Rightarrow> upstreamVerification
     \<Rightarrow> Plan" where
  "diff ord desired recorded snapshotted ver =
     (let desiredByKey = go_index RecordKey desired;
          recordedByKey = go_index RecordKey recorded;
          idx = buildActualIndex (ordActual ord) (Actual ver)
      in diff_deletes desiredByKey snapshotted (iterate (ordRecorded ord) recordedByKey)
           (diff_desired idx ver recordedByKey (iterate (ordDesired ord) desiredByKey) []))"

section \<open>The operations of a plan\<close>

text \<open>Grouping by upstream keeps each upstream's operations in the order they were added.\<close>

lemma opRecord_desired_op [simp]: "opRecord (desired_op idx ver rec k want) = want"
  by (auto simp: desired_op_def driftCorrection_def Let_def split: option.splits if_splits)

lemma foldl_plan_add:
  "go_get [] (foldl (\<lambda>p op. plan_add op p) p ops) u
     = go_get [] p u @ filter (\<lambda>op. Upstream (opRecord op) = u) ops"
  by (induction ops arbitrary: p) (simp_all add: plan_add_def)

definition delete_ops ::
  "(string, Record) go_map \<Rightarrow> (string, bool) go_map \<Rightarrow> (string \<times> Record) list \<Rightarrow> Op list" where
  "delete_ops des snap rs =
     map (\<lambda>(k, have). simple_op OpDelete have)
       (filter (\<lambda>(k, have). map_of des k = None \<and> go_get False snap (SourceName have)) rs)"

definition diff_ops ::
  "diff_orders \<Rightarrow> Record list \<Rightarrow> Record list \<Rightarrow> (string, bool) go_map \<Rightarrow> upstreamVerification
     \<Rightarrow> Op list" where
  "diff_ops ord desired recorded snapshotted ver =
     map (\<lambda>(k, want). desired_op (buildActualIndex (ordActual ord) (Actual ver)) ver
            (go_index RecordKey recorded) k want)
       (iterate (ordDesired ord) (go_index RecordKey desired)) @
     delete_ops (go_index RecordKey desired) snapshotted
       (iterate (ordRecorded ord) (go_index RecordKey recorded))"

lemma diff_desired_foldl:
  "diff_desired idx ver rec ds p
     = foldl (\<lambda>p op. plan_add op p) p (map (\<lambda>(k, want). desired_op idx ver rec k want) ds)"
  by (induction idx ver rec ds p rule: diff_desired.induct) simp_all

lemma diff_deletes_foldl:
  "diff_deletes des snap rs p = foldl (\<lambda>p op. plan_add op p) p (delete_ops des snap rs)"
  by (induction des snap rs p rule: diff_deletes.induct) (simp_all add: delete_ops_def)

lemma diff_foldl:
  "diff ord desired recorded snap ver
     = foldl (\<lambda>p op. plan_add op p) [] (diff_ops ord desired recorded snap ver)"
  by (simp add: diff_def diff_ops_def Let_def diff_desired_foldl diff_deletes_foldl)

lemma diff_get:
  "go_get [] (diff ord desired recorded snap ver) u
     = filter (\<lambda>op. Upstream (opRecord op) = u) (diff_ops ord desired recorded snap ver)"
  by (simp add: diff_foldl foldl_plan_add) (simp add: go_get_def)

lemma plan_add_wf: "go_map_wf p \<Longrightarrow> go_map_wf (plan_add op p)"
  by (simp add: plan_add_def)

lemma diff_wf: "go_map_wf (diff ord desired recorded snap ver)"
proof -
  have "go_map_wf p \<Longrightarrow> go_map_wf (foldl (\<lambda>p op. plan_add op p) p ops)" for p ops
    by (induction ops arbitrary: p) (simp_all add: plan_add_wf)
  then show ?thesis by (simp add: diff_foldl)
qed

text \<open>All operations of a plan, whatever the upstream.\<close>

definition plan_ops :: "Plan \<Rightarrow> Op list" where
  "plan_ops p = concat (map snd p)"

lemma plan_ops_mset_iterate: "mset (plan_ops (iterate it p)) = mset (plan_ops p)"
proof -
  have c: "mset (concat xs) = \<Sum>\<^sub># (image_mset mset (mset xs))" for xs :: "Op list list"
    by (induction xs) simp_all
  show ?thesis unfolding plan_ops_def c by simp
qed

lemma mem_plan_opsI: "op \<in> set (go_get [] p u) \<Longrightarrow> op \<in> set (plan_ops p)"
proof (cases "map_of p u")
  case (Some ops)
  assume "op \<in> set (go_get [] p u)"
  with Some have "op \<in> set ops" by (simp add: go_get_def)
  moreover have "ops \<in> set (map snd p)" using map_of_SomeD [OF Some] by force
  ultimately show ?thesis unfolding plan_ops_def by (simp only: set_concat) blast
qed (simp add: go_get_def)

lemma mem_plan_opsE:
  assumes "op \<in> set (plan_ops p)" "go_map_wf p"
  obtains u where "op \<in> set (go_get [] p u)"
proof -
  from assms(1) obtain u ops where "(u, ops) \<in> set p" "op \<in> set ops"
    unfolding plan_ops_def by auto
  moreover from this(1) assms(2) have "map_of p u = Some ops"
    by (intro map_of_is_SomeI) simp_all
  ultimately have "op \<in> set (go_get [] p u)"
    by (simp add: go_get_def)
  then show ?thesis by (rule that)
qed

lemma set_plan_ops_diff:
  "set (plan_ops (diff ord desired recorded snap ver)) = set (diff_ops ord desired recorded snap ver)"
proof (intro set_eqI iffI)
  fix op
  assume "op \<in> set (plan_ops (diff ord desired recorded snap ver))"
  then obtain u where "op \<in> set (go_get [] (diff ord desired recorded snap ver) u)"
    using diff_wf by (rule mem_plan_opsE)
  then show "op \<in> set (diff_ops ord desired recorded snap ver)" by (simp add: diff_get)
next
  fix op
  assume "op \<in> set (diff_ops ord desired recorded snap ver)"
  then have "op \<in> set (go_get [] (diff ord desired recorded snap ver) (Upstream (opRecord op)))"
    by (simp add: diff_get)
  then show "op \<in> set (plan_ops (diff ord desired recorded snap ver))" by (rule mem_plan_opsI)
qed

lemma mset_plan_add: "mset (plan_ops (plan_add op p)) = add_mset op (mset (plan_ops p))"
proof -
  have "mset (concat (map snd (go_put u (go_get [] p u @ [op]) p)))
      = add_mset op (mset (concat (map snd p)))" for u
    by (induction p) (auto simp: go_get_def)
  then show ?thesis by (simp add: plan_ops_def plan_add_def)
qed

lemma mset_plan_ops_diff:
  "mset (plan_ops (diff ord desired recorded snap ver))
     = mset (diff_ops ord desired recorded snap ver)"
proof -
  have "mset (plan_ops (foldl (\<lambda>p op. plan_add op p) p ops)) = mset ops + mset (plan_ops p)"
    for ops p by (induction ops arbitrary: p) (simp_all add: mset_plan_add)
  then show ?thesis by (simp add: diff_foldl) (simp add: plan_ops_def)
qed

lemma mem_iterate_index:
  "(k, r) \<in> set (iterate it (go_index RecordKey rs)) \<longleftrightarrow> map_of (go_index RecordKey rs) k = Some r"
  by (metis go_index_wf go_map_mem_iff set_iterate)

lemma mem_diff_ops:
  "op \<in> set (diff_ops ord desired recorded snap ver) \<longleftrightarrow>
     (\<exists>k want. map_of (go_index RecordKey desired) k = Some want \<and>
        op = desired_op (buildActualIndex (ordActual ord) (Actual ver)) ver
               (go_index RecordKey recorded) k want) \<or>
     (\<exists>k have. map_of (go_index RecordKey recorded) k = Some have \<and>
        map_of (go_index RecordKey desired) k = None \<and> go_get False snap (SourceName have) \<and>
        op = simple_op OpDelete have)"
  unfolding diff_ops_def delete_ops_def
  by (simp only: set_append set_map set_filter Un_iff image_iff Bex_def mem_Collect_eq
      split_paired_Ex case_prod_conv mem_iterate_index) blast

lemma keyed_go_index: "keyed (go_index RecordKey rs)"
  using go_index_SomeD [of RecordKey rs] by (auto simp: keyed_iff simp del: map_of_eq_Some_iff)

lemma index_key: "map_of (go_index RecordKey rs) k = Some r \<Longrightarrow> RecordKey r = k"
  using keyed_lookup [OF keyed_go_index] .

lemma desired_op_iff:
  "op = desired_op idx ver rec k want \<longleftrightarrow>
     (map_of rec k = None \<and> op = simple_op OpCreate want \<or>
      (\<exists>have. map_of rec k = Some have \<and>
         (\<not> (Status have \<noteq> RecordStatusFailed \<and> appliedEqual want have) \<and> op = simple_op OpUpdate want \<or>
          Status have \<noteq> RecordStatusFailed \<and> appliedEqual want have \<and>
            (driftCorrection idx ver want = Some op \<or>
             driftCorrection idx ver want = None \<and> op = simple_op OpNoop want))))"
  by (auto simp: desired_op_def split: option.splits)

text \<open>
  C4. What a pass plans, exactly. The operations filed under an upstream are: for every desired
  key a creation when nothing is recorded, an update when the record failed or an applied field
  differs from what was applied, otherwise the drift correction, if there is one, or a no-op; and
  a deletion for every recorded key that is not desired and whose source was read cleanly; and
  nothing else.
\<close>

theorem diff_plan_exact:
  "op \<in> set (go_get [] (diff ord desired recorded snap ver) u) \<longleftrightarrow>
     Upstream (opRecord op) = u \<and>
     ((\<exists>k want. map_of (go_index RecordKey desired) k = Some want \<and>
         (map_of (go_index RecordKey recorded) k = None \<and> op = simple_op OpCreate want \<or>
          (\<exists>have. map_of (go_index RecordKey recorded) k = Some have \<and>
             (\<not> (Status have \<noteq> RecordStatusFailed \<and> appliedEqual want have) \<and> op = simple_op OpUpdate want \<or>
              Status have \<noteq> RecordStatusFailed \<and> appliedEqual want have \<and>
                (driftCorrection (buildActualIndex (ordActual ord) (Actual ver)) ver want = Some op \<or>
                 driftCorrection (buildActualIndex (ordActual ord) (Actual ver)) ver want = None \<and>
                   op = simple_op OpNoop want))))) \<or>
      (\<exists>k have. map_of (go_index RecordKey recorded) k = Some have \<and>
         map_of (go_index RecordKey desired) k = None \<and> go_get False snap (SourceName have) \<and>
         op = simple_op OpDelete have))"
  unfolding diff_get set_filter mem_Collect_eq mem_diff_ops desired_op_iff by blast

lemma map_key_desired_ops:
  "map (\<lambda>op. RecordKey (opRecord op))
     (map (\<lambda>(k, want). desired_op idx ver rec k want)
        (iterate it (go_index RecordKey desired)))
   = map fst (iterate it (go_index RecordKey desired))"
proof -
  have "(k, w) \<in> set (iterate it (go_index RecordKey desired)) \<Longrightarrow> RecordKey w = k" for k w
    unfolding mem_iterate_index by (rule index_key)
  then show ?thesis by (auto intro!: map_cong)
qed

lemma map_key_delete_ops:
  "map (\<lambda>op. RecordKey (opRecord op)) (delete_ops des snap (iterate it (go_index RecordKey rs)))
   = map fst (filter (\<lambda>(k, have). map_of des k = None \<and> go_get False snap (SourceName have))
       (iterate it (go_index RecordKey rs)))"
proof -
  have "(k, w) \<in> set (iterate it (go_index RecordKey rs)) \<Longrightarrow> RecordKey w = k" for k w
    unfolding mem_iterate_index by (rule index_key)
  then show ?thesis by (auto simp: delete_ops_def intro!: map_cong)
qed

lemma plan_keys_distinct:
  "distinct (map (\<lambda>op. RecordKey (opRecord op)) (plan_ops (diff ord desired recorded snap ver)))"
proof -
  let ?D = "iterate (ordDesired ord) (go_index RecordKey desired)"
  let ?P = "\<lambda>(k, have). map_of (go_index RecordKey desired) k = None \<and>
    go_get False snap (SourceName have)"
  let ?R = "filter ?P (iterate (ordRecorded ord) (go_index RecordKey recorded))"
  have "mset (map (\<lambda>op. RecordKey (opRecord op)) (plan_ops (diff ord desired recorded snap ver)))
      = mset (map (\<lambda>op. RecordKey (opRecord op)) (diff_ops ord desired recorded snap ver))"
    by (simp add: mset_plan_ops_diff)
  also have "\<dots> = mset (map fst ?D @ map fst ?R)"
    unfolding diff_ops_def map_append map_key_desired_ops map_key_delete_ops ..
  finally have "distinct (map (\<lambda>op. RecordKey (opRecord op)) (plan_ops (diff ord desired recorded snap ver)))
      = distinct (map fst ?D @ map fst ?R)"
    by (rule mset_eq_imp_distinct_iff)
  moreover have "distinct (map fst ?D)" "distinct (map fst ?R)"
    by (simp_all add: filter_wf)
  moreover have "set (map fst ?D) \<inter> set (map fst ?R) = {}"
    by (force simp: map_of_eq_None_iff)
  ultimately show ?thesis by simp
qed

text \<open>
  A plan never holds two operations for one record key, over all upstreams together: no
  record is both updated and deleted, or written twice, in one pass.
\<close>

theorem diff_one_op_per_key:
  "distinct (map (\<lambda>op. RecordKey (opRecord op)) (plan_ops (diff ord desired recorded snap ver)))"
  by (rule plan_keys_distinct)

lemma planned_delete:
  assumes "op \<in> set (plan_ops (diff ord desired recorded snap ver))" "Kind op = OpDelete"
  shows "opRecord op \<in> set recorded \<and> RecordKey (opRecord op) \<notin> RecordKey ` set desired \<and>
    go_get False snap (SourceName (opRecord op)) \<and> DriftReason op = ''''"
proof -
  have "Kind (desired_op idx ver rec k w) \<noteq> OpDelete" for idx rec k w
    by (auto simp: desired_op_def driftCorrection_def Let_def split: option.splits if_splits)
  with assms obtain k have' where h: "map_of (go_index RecordKey recorded) k = Some have'"
      "map_of (go_index RecordKey desired) k = None" "go_get False snap (SourceName have')"
      "op = simple_op OpDelete have'"
    unfolding set_plan_ops_diff mem_diff_ops by blast
  moreover have "have' \<in> set recorded" "RecordKey have' = k"
    using go_index_SomeD [OF h(1)] by simp_all
  ultimately show ?thesis by (simp add: go_index_None_iff)
qed

text \<open>
  C1. No data means no change. A deletion is planned only for a record that is recorded, that
  no source desires, and whose owning source is marked as read cleanly in this pass.
\<close>

theorem diff_deletes_scoped:
  assumes "op \<in> set (plan_ops (diff ord desired recorded snap ver))" "Kind op = OpDelete"
  shows "opRecord op \<in> set recorded \<and> RecordKey (opRecord op) \<notin> RecordKey ` set desired \<and>
    go_get False snap (SourceName (opRecord op)) \<and> DriftReason op = ''''"
  using assms by (rule planned_delete)

definition sample_record :: Record where
  [go_eval]: "sample_record = zero_record\<lparr>ID := ''web'', SourceID := ''c1'', SourceName := ''d'',
     Upstream := ''pi'', Type := ''A'', Name := ''h'', Value := ''10.0.0.1''\<rparr>"

definition no_verification :: upstreamVerification where
  [go_eval]: "no_verification = \<lparr>Actual = [], Fetched = [], Compare = []\<rparr>"

definition plain_orders :: diff_orders where
  [go_eval]: "plain_orders = \<lparr>ordActual = in_order, ordDesired = in_order, ordRecorded = in_order\<rparr>"

theorem diff_deletes_scoped_witness:
  "let op = simple_op OpDelete sample_record
   in op \<in> set (plan_ops (diff plain_orders [] [sample_record] [(''d'', True)] no_verification)) \<and>
      Kind op = OpDelete \<and> opRecord op \<in> set [sample_record] \<and>
      go_get False [(''d'', True)] (SourceName (opRecord op))"
proof -
  have m: "simple_op OpDelete sample_record
      \<in> set (plan_ops (diff plain_orders [] [sample_record] [(''d'', True)] no_verification))"
    by (simp add: diff_def plan_ops_def plan_add_def go_get_def Let_def plain_orders_def
        sample_record_def)
  from diff_deletes_scoped [OF m] m show ?thesis unfolding Let_def by simp
qed

section \<open>Drift correction\<close>

lemma put_first_lookup:
  "map_of (put_first k r m) j
     = (case map_of m j of Some x \<Rightarrow> Some x | None \<Rightarrow> if j = k then Some r else None)"
  by (auto simp: put_first_def split: option.splits)

lemma index_records_nameType:
  "map_of (byNameType (index_records u rs idx)) k
     = (case map_of (byNameType idx) k of
          Some x \<Rightarrow> Some x
        | None \<Rightarrow> find (\<lambda>r. nameTypeKey u (Type r) (Name r) = k) rs)"
  by (induction u rs idx rule: index_records.induct)
    (auto simp: put_first_lookup split: option.splits)

lemma index_records_exact:
  "map_of (exact (index_records u rs idx)) k
     = (case map_of (exact idx) k of
          Some x \<Rightarrow> Some x
        | None \<Rightarrow> find (\<lambda>r. naturalKey u (Type r) (Name r) (Value r) = k) rs)"
  by (induction u rs idx rule: index_records.induct)
    (auto simp: put_first_lookup split: option.splits)

text \<open>The parts of the index keys that must be free of the separator: upstream, type, name.\<close>

definition no_slash :: "string \<Rightarrow> bool" where
  "no_slash s \<longleftrightarrow> CHR ''/'' \<notin> set s"

lemma first_sep_inj:
  fixes c :: char
  shows "a @ c # b = a' @ c # b' \<Longrightarrow> c \<notin> set a \<Longrightarrow> c \<notin> set a' \<Longrightarrow> a = a' \<and> b = b'"
proof -
  assume e: "a @ c # b = a' @ c # b'" and n: "c \<notin> set a" "c \<notin> set a'"
  have "Some (a, b) = cut (a @ c # b) [c]" by (rule cut_append [OF n(1), symmetric])
  also have "\<dots> = cut (a' @ c # b') [c]" by (simp only: e)
  also have "\<dots> = Some (a', b')" by (rule cut_append [OF n(2)])
  finally show ?thesis by simp
qed

lemma nameTypeKey_inj:
  assumes "nameTypeKey u t n = nameTypeKey u' t' n'"
    "no_slash u" "no_slash u'" "no_slash t" "no_slash t'"
  shows "u = u' \<and> t = t' \<and> n = n'"
proof -
  have e: "u @ CHR ''/'' # t @ CHR ''/'' # n = u' @ CHR ''/'' # t' @ CHR ''/'' # n'"
    using assms(1) by (simp add: nameTypeKey_def)
  note s = assms(2-) [unfolded no_slash_def]
  from first_sep_inj [OF e s(1,2)] have u: "u = u'"
    and e2: "t @ CHR ''/'' # n = t' @ CHR ''/'' # n'" by simp_all
  from first_sep_inj [OF e2 s(3,4)] u show ?thesis by simp
qed

lemma naturalKey_inj:
  assumes "naturalKey u t n v = naturalKey u' t' n' v'"
    "no_slash u" "no_slash u'" "no_slash t" "no_slash t'" "no_slash n" "no_slash n'"
  shows "u = u' \<and> t = t' \<and> n = n' \<and> v = v'"
proof -
  have e: "u @ CHR ''/'' # t @ CHR ''/'' # n @ CHR ''/'' # v
      = u' @ CHR ''/'' # t' @ CHR ''/'' # n' @ CHR ''/'' # v'"
    using assms(1) by (simp add: naturalKey_def)
  note s = assms(2-) [unfolded no_slash_def]
  from first_sep_inj [OF e s(1,2)] have u: "u = u'"
    and e2: "t @ CHR ''/'' # n @ CHR ''/'' # v = t' @ CHR ''/'' # n' @ CHR ''/'' # v'" by simp_all
  from first_sep_inj [OF e2 s(3,4)] have t: "t = t'"
    and e3: "n @ CHR ''/'' # v = n' @ CHR ''/'' # v'" by simp_all
  from first_sep_inj [OF e3 s(5,6)] u t show ?thesis by simp
qed

text \<open>What a pass fetched, free of the separator where the index keys need it.\<close>

definition slash_free :: "(string, Record list) go_map \<Rightarrow> bool" where
  "slash_free act \<longleftrightarrow>
     (\<forall>(u, rs) \<in> set act. no_slash u \<and> (\<forall>r \<in> set rs. no_slash (Type r) \<and> no_slash (Name r)))"

definition same_name_type :: "Record \<Rightarrow> Record \<Rightarrow> bool" where
  "same_name_type w r \<longleftrightarrow> Type r = Type w \<and> Name r = Name w"

definition same_content :: "Record \<Rightarrow> Record \<Rightarrow> bool" where
  "same_content w r \<longleftrightarrow> Type r = Type w \<and> Name r = Name w \<and> Value r = Value w"

definition safe_want :: "Record \<Rightarrow> bool" where
  "safe_want w \<longleftrightarrow> no_slash (Upstream w) \<and> no_slash (Type w) \<and> no_slash (Name w)"

lemma find_key:
  assumes "no_slash u" "\<forall>r \<in> set rs. no_slash (Type r) \<and> no_slash (Name r)" "safe_want w"
  shows "find (\<lambda>r. nameTypeKey u (Type r) (Name r) = nameTypeKey (Upstream w) (Type w) (Name w)) rs
      = (if u = Upstream w then find (same_name_type w) rs else None)"
    and "find (\<lambda>r. naturalKey u (Type r) (Name r) (Value r)
                 = naturalKey (Upstream w) (Type w) (Name w) (Value w)) rs
      = (if u = Upstream w then find (same_content w) rs else None)"
proof -
  have "nameTypeKey u (Type r) (Name r) = nameTypeKey (Upstream w) (Type w) (Name w)
      \<longleftrightarrow> u = Upstream w \<and> same_name_type w r"
    "naturalKey u (Type r) (Name r) (Value r) = naturalKey (Upstream w) (Type w) (Name w) (Value w)
      \<longleftrightarrow> u = Upstream w \<and> same_content w r" if "r \<in> set rs" for r
    using that assms nameTypeKey_inj [of u "Type r" "Name r"]
      naturalKey_inj [of u "Type r" "Name r" "Value r"]
    unfolding safe_want_def same_name_type_def same_content_def by metis+
  then show "find (\<lambda>r. nameTypeKey u (Type r) (Name r) = nameTypeKey (Upstream w) (Type w) (Name w)) rs
      = (if u = Upstream w then find (same_name_type w) rs else None)"
    "find (\<lambda>r. naturalKey u (Type r) (Name r) (Value r)
                 = naturalKey (Upstream w) (Type w) (Name w) (Value w)) rs
      = (if u = Upstream w then find (same_content w) rs else None)"
    by (simp_all cong: find_cong add: find_None_iff)
qed

lemma go_get_notin: "k \<notin> fst ` set m \<Longrightarrow> go_get z m k = z"
  by (simp add: go_get_def map_of_eq_None_iff [THEN iffD2])

lemma index_upstreams_find:
  assumes "go_map_wf us" "slash_free us" "safe_want w"
  shows "map_of (byNameType (index_upstreams us idx)) (nameTypeKey (Upstream w) (Type w) (Name w))
      = (case map_of (byNameType idx) (nameTypeKey (Upstream w) (Type w) (Name w)) of
           Some x \<Rightarrow> Some x | None \<Rightarrow> find (same_name_type w) (go_get [] us (Upstream w)))"
    and "map_of (exact (index_upstreams us idx))
          (naturalKey (Upstream w) (Type w) (Name w) (Value w))
      = (case map_of (exact idx) (naturalKey (Upstream w) (Type w) (Name w) (Value w)) of
           Some x \<Rightarrow> Some x | None \<Rightarrow> find (same_content w) (go_get [] us (Upstream w)))"
proof -
  have "map_of (byNameType (index_upstreams us idx)) (nameTypeKey (Upstream w) (Type w) (Name w))
      = (case map_of (byNameType idx) (nameTypeKey (Upstream w) (Type w) (Name w)) of
           Some x \<Rightarrow> Some x | None \<Rightarrow> find (same_name_type w) (go_get [] us (Upstream w))) \<and>
    map_of (exact (index_upstreams us idx)) (naturalKey (Upstream w) (Type w) (Name w) (Value w))
      = (case map_of (exact idx) (naturalKey (Upstream w) (Type w) (Name w) (Value w)) of
           Some x \<Rightarrow> Some x | None \<Rightarrow> find (same_content w) (go_get [] us (Upstream w)))"
    using assms(1,2)
  proof (induction us idx rule: index_upstreams.induct)
    case (1 idx)
    then show ?case by (simp add: go_get_def split: option.split)
  next
    case (2 u rs us idx)
    then have w: "go_map_wf us" "slash_free us" "no_slash u" "u \<notin> fst ` set us"
      "\<forall>r \<in> set rs. no_slash (Type r) \<and> no_slash (Name r)"
      by (auto simp: slash_free_def)
    have g: "go_get [] ((u, rs) # us) (Upstream w)
        = (if u = Upstream w then rs else go_get [] us (Upstream w))"
      by (simp add: go_get_def)
    have n: "u = Upstream w \<Longrightarrow> go_get [] us (Upstream w) = []"
      using go_get_notin [OF w(4)] by simp
    note ih = "2.IH" [OF w(1,2), unfolded index_records_nameType index_records_exact
        find_key [OF w(3,5) assms(3)]]
    show ?case
      unfolding index_upstreams.simps g using ih n
      by (cases "u = Upstream w") (simp_all split: option.splits)
  qed
  then show "map_of (byNameType (index_upstreams us idx)) (nameTypeKey (Upstream w) (Type w) (Name w))
      = (case map_of (byNameType idx) (nameTypeKey (Upstream w) (Type w) (Name w)) of
           Some x \<Rightarrow> Some x | None \<Rightarrow> find (same_name_type w) (go_get [] us (Upstream w)))"
    and "map_of (exact (index_upstreams us idx))
          (naturalKey (Upstream w) (Type w) (Name w) (Value w))
      = (case map_of (exact idx) (naturalKey (Upstream w) (Type w) (Name w) (Value w)) of
           Some x \<Rightarrow> Some x | None \<Rightarrow> find (same_content w) (go_get [] us (Upstream w)))"
    by blast+
qed

lemma go_get_iterate: "go_map_wf m \<Longrightarrow> go_get z (iterate it m) k = go_get z m k"
  by (simp add: go_get_def)

lemma actual_index_find:
  assumes "go_map_wf act" "slash_free act" "safe_want w"
  shows "map_of (byNameType (buildActualIndex it act)) (nameTypeKey (Upstream w) (Type w) (Name w))
      = find (same_name_type w) (go_get [] act (Upstream w))"
    and "map_of (exact (buildActualIndex it act))
          (naturalKey (Upstream w) (Type w) (Name w) (Value w))
      = find (same_content w) (go_get [] act (Upstream w))"
  using assms index_upstreams_find [of "iterate it act" w "\<lparr>exact = [], byNameType = []\<rparr>"]
  by (simp_all add: buildActualIndex_def slash_free_def go_get_iterate)

text \<open>
  C5. Drift correction, by what the upstream lists rather than by the index: with the fetched
  records \<open>L\<close> of the record's upstream, nothing is corrected when the upstream was not fetched
  or when the first record with the same type, name and value passes the upstream's
  comparison; a record that fails it, or a different value under the same type and name, is
  updated with reason \<open>changed\<close>; and a record that is not there is created with reason
  \<open>missing\<close>. Upstream names, types and names must not contain the separator of the index keys.
\<close>

theorem drift_correction_exact:
  assumes "go_map_wf (Actual ver)" "slash_free (Actual ver)" "safe_want w"
  shows "driftCorrection (buildActualIndex it (Actual ver)) ver w =
    (let L = go_get [] (Actual ver) (Upstream w);
         cmp = go_get appliedEqual (Compare ver) (Upstream w)
     in if \<not> go_get False (Fetched ver) (Upstream w) then None
        else case find (same_content w) L of
          Some got \<Rightarrow> if cmp w got then None
            else Some \<lparr>Kind = OpUpdate, opRecord = w, DriftReason = DriftChanged,
                   DriftDetail = driftDetail w got True\<rparr>
        | None \<Rightarrow> (case find (same_name_type w) L of
            Some got \<Rightarrow> Some \<lparr>Kind = OpUpdate, opRecord = w, DriftReason = DriftChanged,
                   DriftDetail = driftDetail w got True\<rparr>
          | None \<Rightarrow> Some \<lparr>Kind = OpCreate, opRecord = w, DriftReason = DriftMissing,
                   DriftDetail = driftDetail w zero_record False\<rparr>))"
  unfolding driftCorrection_def Let_def actual_index_find [OF assms] by simp

definition drifted_verification :: upstreamVerification where
  [go_eval]: "drifted_verification =
     \<lparr>Actual = [(''pi'', [sample_record\<lparr>Value := ''10.0.0.9''\<rparr>])], Fetched = [(''pi'', True)],
      Compare = []\<rparr>"

theorem drift_correction_exact_witness:
  "go_map_wf (Actual drifted_verification) \<and> slash_free (Actual drifted_verification) \<and>
   safe_want sample_record \<and>
   map_option (\<lambda>op. (Kind op, DriftReason op))
     (driftCorrection (buildActualIndex in_order (Actual drifted_verification))
        drifted_verification sample_record)
     = Some (OpUpdate, ''changed'')"
proof -
  have h: "go_map_wf (Actual drifted_verification)" "slash_free (Actual drifted_verification)"
    "safe_want sample_record"
    by (simp_all add: drifted_verification_def slash_free_def no_slash_def sample_record_def
        zero_record_def safe_want_def)
  show ?thesis
    unfolding drift_correction_exact [OF h]
    using h by (simp add: drifted_verification_def same_content_def same_name_type_def
        sample_record_def zero_record_def go_get_def DriftChanged_def)
qed

lemma driftCorrection_not_fetched:
  "\<not> go_get False (Fetched ver) (Upstream w) \<Longrightarrow> driftCorrection idx ver w = None"
  by (simp add: driftCorrection_def)

text \<open>
  A converged state plans nothing. When every desired record is recorded with equal applied
  fields and has not failed, every other record belongs to a source that was not read, and no
  upstream concerned was fetched for verification, all operations of the pass are no-ops.
\<close>

theorem diff_converged_noop:
  assumes "\<And>w. w \<in> set desired \<Longrightarrow> \<exists>h. map_of (go_index RecordKey recorded) (RecordKey w) = Some h \<and>
      Status h \<noteq> RecordStatusFailed \<and> appliedEqual w h"
    and "\<And>h. h \<in> set recorded \<Longrightarrow>
      RecordKey h \<in> RecordKey ` set desired \<or> \<not> go_get False snap (SourceName h)"
    and "\<And>w. w \<in> set desired \<Longrightarrow> \<not> go_get False (Fetched ver) (Upstream w)"
    and "op \<in> set (plan_ops (diff ord desired recorded snap ver))"
  shows "Kind op = OpNoop \<and> opRecord op \<in> set desired"
proof -
  from assms(4) consider
      (want) k w where "map_of (go_index RecordKey desired) k = Some w"
        "op = desired_op (buildActualIndex (ordActual ord) (Actual ver)) ver
           (go_index RecordKey recorded) k w"
    | (del) k h where "map_of (go_index RecordKey recorded) k = Some h"
        "map_of (go_index RecordKey desired) k = None" "go_get False snap (SourceName h)"
    unfolding set_plan_ops_diff mem_diff_ops by blast
  then show ?thesis
  proof cases
    case want
    then have w: "w \<in> set desired" "RecordKey w = k" using go_index_SomeD by metis+
    with assms(1) [OF w(1)] obtain h where
      h: "map_of (go_index RecordKey recorded) k = Some h" "Status h \<noteq> RecordStatusFailed"
         "appliedEqual w h" by auto
    with want(2) w(1) show ?thesis
      by (simp add: desired_op_def driftCorrection_not_fetched [OF assms(3) [OF w(1)]])
  next
    case del
    then have "h \<in> set recorded" "RecordKey h = k" using go_index_SomeD by metis+
    with assms(2) [of h] del(2,3) show ?thesis by (auto simp: go_index_None_iff)
  qed
qed

theorem diff_converged_noop_witness:
  "let h = sample_record\<lparr>Status := RecordStatusSynced\<rparr>; op = simple_op OpNoop sample_record
   in op \<in> set (plan_ops (diff plain_orders [sample_record] [h] [(''d'', True)] no_verification)) \<and>
      Kind op = OpNoop \<and> opRecord op \<in> set [sample_record]"
proof -
  let ?h = "sample_record\<lparr>Status := RecordStatusSynced\<rparr>"
  have k: "RecordKey ?h = RecordKey sample_record" by simp
  have m: "simple_op OpNoop sample_record
      \<in> set (plan_ops (diff plain_orders [sample_record] [?h] [(''d'', True)] no_verification))"
    by (simp add: diff_def plan_ops_def plan_add_def go_get_def Let_def plain_orders_def
        desired_op_def appliedEqual_def driftCorrection_def no_verification_def
        set_plan_ops_diff)
  have "Kind (simple_op OpNoop sample_record) = OpNoop \<and>
      opRecord (simple_op OpNoop sample_record) \<in> set [sample_record]"
    by (rule diff_converged_noop [OF _ _ _ m])
      (auto simp: appliedEqual_def no_verification_def go_get_def)
  with m show ?thesis unfolding Let_def by blast
qed

text \<open>
  A desired key is never cleaned up: the only operation for the key of a record that is still
  desired carries the desired record. When the desired name differs from the recorded one, no
  operation of the plan names the record that exists upstream under the old name, although
  \<open>Name\<close> is compared so that "a changed record name must propagate to the upstream".
\<close>

lemma diff_rename_leaves_old:
  assumes "op \<in> set (plan_ops (diff ord desired recorded snap ver))"
    and "RecordKey (opRecord op) = RecordKey h" "RecordKey h \<in> RecordKey ` set desired"
  shows "Kind op \<noteq> OpDelete \<and> opRecord op \<in> set desired"
proof -
  have "\<not> Kind op = OpDelete"
    using diff_deletes_scoped [OF assms(1)] assms(2,3) by metis
  moreover have "opRecord op \<in> set desired \<or> Kind op = OpDelete"
    using assms(1) unfolding set_plan_ops_diff mem_diff_ops
    by (auto dest: go_index_SomeD simp del: map_of_eq_Some_iff)
  ultimately show ?thesis by blast
qed

end
