(* ===== verification/Upstreams.thy ===== *)
theory Upstreams
  imports Model
begin

text \<open>
  \<open>pkg/upstream/upstream.go\<close>: the interface of a DNS provider adapter, with its optional
  extensions \<open>Lister\<close> and \<open>DriftComparer\<close> as optional fields, and the two wrappers \<open>Disabled\<close>
  and \<open>DryRun\<close>. A call changes the outside world, of type \<open>'w\<close>: the providers, the clock and the
  cancellation of the context; it returns an error or nil, or panics.
\<close>

record 'w upstream =
  upName :: string
  upUpsert :: "Record \<Rightarrow> 'w \<Rightarrow> error option outcome \<times> 'w"
  upDelete :: "Record \<Rightarrow> 'w \<Rightarrow> error option outcome \<times> 'w"
  upList :: "('w \<Rightarrow> (error + Record list) outcome \<times> 'w) option"
  upDriftEqual :: "(Record \<Rightarrow> Record \<Rightarrow> bool) option"

text \<open>An adapter that failed to initialise: every operation returns the original error.\<close>

definition NewDisabled :: "string \<Rightarrow> error \<Rightarrow> 'w upstream" where
  [go_eval]: "NewDisabled name err = \<lparr>upName = name,
     upUpsert = (\<lambda>r w. (Returned (Some err), w)),
     upDelete = (\<lambda>r w. (Returned (Some err), w)),
     upList = None, upDriftEqual = None\<rparr>"

text \<open>
  The dry-run wrapper holds the wrapped adapter in a named field, so neither \<open>List\<close> nor
  \<open>DriftEqual\<close> is promoted.
\<close>

definition NewDryRun :: "'w upstream \<Rightarrow> 'w upstream" where
  [go_eval]: "NewDryRun u = \<lparr>upName = upName u,
     upUpsert = (\<lambda>r w. (Returned None, w)),
     upDelete = (\<lambda>r w. (Returned None, w)),
     upList = None, upDriftEqual = None\<rparr>"

lemma dry_run_touches_nothing:
  "upUpsert (NewDryRun u) r w = (Returned None, w)" "upDelete (NewDryRun u) r w = (Returned None, w)"
  "upList (NewDryRun u) = None"
  by (simp_all add: NewDryRun_def)

text \<open>The outside world as the reconciler reads it: the clock and the state of the context.\<close>

record 'w env =
  envNow :: "'w \<Rightarrow> int"
  envCtxErr :: "'w \<Rightarrow> bool"

text \<open>Durations in nanoseconds.\<close>

definition second_ns :: int where "second_ns = 1000000000"
definition millisecond_ns :: int where "millisecond_ns = 1000000"

text \<open>
  The two backoff functions of the reconciler (\<open>defaultBackoff\<close>, \<open>storeReadBackoff\<close>) share this
  body: \<open>d := base << uint(min(failures-1, 20))\<close> on a 64-bit duration, with the overflow guard
  \<open>d <= 0\<close> and the cap.
\<close>

definition shifted_backoff :: "int \<Rightarrow> int \<Rightarrow> int \<Rightarrow> int" where
  "shifted_backoff base maxDelay failures =
     (if failures \<le> 0 then 0
      else let d = wrap64 (base * 2 ^ nat (min (failures - 1) 20))
           in if d \<le> 0 \<or> maxDelay < d then maxDelay else d)"

text \<open>With a base whose 20-fold doubling fits into 64 bits the guard never fires.\<close>

lemma shifted_backoff_eq:
  assumes "0 < base" "base * 2 ^ 20 \<le> max_int64" "1 \<le> failures"
  shows "shifted_backoff base maxDelay failures
    = min maxDelay (base * 2 ^ nat (min (failures - 1) 20))"
proof -
  have "base * 2 ^ nat (min (failures - 1) 20) \<le> base * 2 ^ 20"
    using assms by (intro mult_left_mono power_increasing) auto
  moreover have "0 < base * 2 ^ nat (min (failures - 1) 20)" using assms by simp
  ultimately have "in_int64 (base * 2 ^ nat (min (failures - 1) 20))"
    using assms(2) by (simp add: in_int64_def min_int64_def)
  with assms(3) \<open>0 < base * _\<close> show ?thesis
    by (simp add: shifted_backoff_def wrap64_id Let_def)
qed

lemma shifted_backoff_bounds:
  "0 \<le> maxDelay \<Longrightarrow> 0 \<le> shifted_backoff base maxDelay n \<and> shifted_backoff base maxDelay n \<le> maxDelay"
  by (simp add: shifted_backoff_def Let_def)

lemma shifted_backoff_mono:
  assumes "0 < base" "base * 2 ^ 20 \<le> max_int64" "0 \<le> maxDelay" "m \<le> n"
  shows "shifted_backoff base maxDelay m \<le> shifted_backoff base maxDelay n"
proof (cases "m \<le> 0")
  case True
  then show ?thesis using shifted_backoff_bounds [OF assms(3)] by (simp add: shifted_backoff_def)
next
  case False
  have "base * 2 ^ nat (min (m - 1) 20) \<le> base * 2 ^ nat (min (n - 1) 20)"
    using assms by (intro mult_left_mono power_increasing) auto
  then show ?thesis
    using False assms by (simp add: shifted_backoff_eq min.coboundedI2)
qed

end
