(* ===== verification/Executor.thy ===== *)
theory Executor
  imports Diff Upstreams
begin

text \<open>
  \<open>internal/reconcile/executor.go\<close>: applying a plan. Operations of one upstream run on a pool of
  at most \<open>maxConc\<close> workers (\<open>run_pool\<close>; which worker finishes next is an argument), a panic of
  an adapter becomes a failed result, and the results are written to the store one after the
  other (\<open>persist\<close>), with an in-memory gate per failing record. Logging and metrics are left
  out: they do not influence the result. Proved here, over any store that meets the contract
  \<open>record_store\<close>: the store's content after a pass, operation by operation; what gated and
  no-op operations leave alone; bounds and growth of the backoff.
\<close>

section \<open>Executor\<close>

record ('s, 'w) executor =
  exOps :: "'s store_ops"
  exUpstreams :: "(string, 'w upstream) go_map"
  exMaxConc :: nat
  exBackoff :: "int \<Rightarrow> int"
  exEnv :: "'w env"

record ('s, 'w) exec_state =
  xsStore :: 's
  xsNextRetry :: "(string, int) go_map"
  xsWorld :: 'w

definition defaultBackoff :: "int \<Rightarrow> int" where
  "defaultBackoff failures = shifted_backoff (30 * second_ns) (3600 * second_ns) failures"

text \<open>\<open>NewExecutor\<close>: a missing backoff is \<open>defaultBackoff\<close>, fewer than one worker means one.\<close>

definition NewExecutor ::
  "'s store_ops \<Rightarrow> (string, 'w upstream) go_map \<Rightarrow> int \<Rightarrow> (int \<Rightarrow> int) option \<Rightarrow> 'w env
     \<Rightarrow> ('s, 'w) executor" where
  "NewExecutor ops ups maxConcurrency backoff env =
     \<lparr>exOps = ops, exUpstreams = ups,
      exMaxConc = (if maxConcurrency < 1 then 1 else nat maxConcurrency),
      exBackoff = (case backoff of None \<Rightarrow> defaultBackoff | Some b \<Rightarrow> b),
      exEnv = env\<rparr>"

record applyResult =
  resRecord :: Record
  resDeleted :: bool
  resErr :: "error option"
  resSkip :: bool

definition skip_result :: applyResult where
  [go_eval]: "skip_result = \<lparr>resRecord = zero_record, resDeleted = False, resErr = None, resSkip = True\<rparr>"

definition failed_result :: "Record \<Rightarrow> error \<Rightarrow> applyResult" where
  [go_eval]: "failed_result r e = \<lparr>resRecord = r, resDeleted = False, resErr = Some e, resSkip = False\<rparr>"

definition done_result :: "Record \<Rightarrow> bool \<Rightarrow> applyResult" where
  [go_eval]: "done_result r deleted = \<lparr>resRecord = r, resDeleted = deleted, resErr = None, resSkip = False\<rparr>"

lemma result_simps [simp]:
  "resSkip skip_result" "\<not> resSkip (failed_result r e)" "\<not> resSkip (done_result r d)"
  "resRecord (failed_result r e) = r" "resRecord (done_result r d) = r"
  "resErr (failed_result r e) = Some e" "resErr (done_result r d) = None"
  "\<not> resDeleted (failed_result r e)" "resDeleted (done_result r d) = d"
  by (simp_all add: skip_result_def failed_result_def done_result_def)

text \<open>\<open>do\<close>: one call of the adapter and the record with its new sync status.\<close>

definition do_op ::
  "'w env \<Rightarrow> 'w upstream \<Rightarrow> Op \<Rightarrow> Record \<Rightarrow> 'w \<Rightarrow> applyResult outcome \<times> 'w" where
  "do_op env u op prior w =
     (case Kind op of
        OpDelete \<Rightarrow>
          (let r = opRecord op in
           case upDelete u r w of
             (Panicked m, w1) \<Rightarrow> (Panicked m, w1)
           | (Returned (Some err), w1) \<Rightarrow>
               if envCtxErr env w1 then (Returned skip_result, w1)
               else (Returned (failed_result (r\<lparr>Failures := wrap64 (Failures r + 1),
                       Status := RecordStatusPendingDelete, SyncError := error_text err\<rparr>) err), w1)
           | (Returned None, w1) \<Rightarrow> (Returned (done_result r True), w1))
      | OpNoop \<Rightarrow> (Returned skip_result, w)
      | _ \<Rightarrow>
          (let r = (opRecord op)\<lparr>Failures := Failures prior\<rparr> in
           case upUpsert u r w of
             (Panicked m, w1) \<Rightarrow> (Panicked m, w1)
           | (Returned (Some err), w1) \<Rightarrow>
               if envCtxErr env w1 then (Returned skip_result, w1)
               else (Returned (failed_result (r\<lparr>Failures := wrap64 (Failures r + 1),
                       Status := RecordStatusFailed, SyncError := error_text err\<rparr>) err), w1)
           | (Returned None, w1) \<Rightarrow>
               (Returned (done_result (r\<lparr>Failures := 0, Status := RecordStatusSynced,
                       SyncedAt := envNow env w1, SyncError := ''''\<rparr>) False), w1)))"

text \<open>The worker goroutine: \<open>do\<close> under a \<open>recover\<close> that turns a panic into a failed result.\<close>

definition panic_result :: "Op \<Rightarrow> string \<Rightarrow> applyResult" where
  "panic_result op m = failed_result
     ((opRecord op)\<lparr>Failures := wrap64 (Failures (opRecord op) + 1), Status := RecordStatusFailed,
        SyncError := ''panic: '' @ m\<rparr>)
     (OtherError (''panic applying op: '' @ m))"

definition worker ::
  "'w env \<Rightarrow> 'w upstream \<Rightarrow> (string, Record) go_map \<Rightarrow> Op \<Rightarrow> 'w \<Rightarrow> applyResult \<times> 'w" where
  "worker env u recordedByKey op w =
     (let prior = go_get zero_record recordedByKey (RecordKey (opRecord op)) in
      case do_op env u op prior w of
        (Returned res, w1) \<Rightarrow> (res, w1)
      | (Panicked m, w1) \<Rightarrow> (panic_result op m, w1))"

definition gated :: "(string, int) go_map \<Rightarrow> int \<Rightarrow> Op \<Rightarrow> bool" where
  "gated nextRetry now op =
     (case map_of nextRetry (RecordKey (opRecord op)) of None \<Rightarrow> False | Some t \<Rightarrow> now < t)"

text \<open>
  The pool. Workers are admitted in the order of the operations and at most \<open>k\<close> run at a time,
  so the ones in flight are always among the first \<open>k\<close> that have not finished; \<open>choices\<close> says
  which of these completes next (modulo their number). Each writes its own slot of the results.
\<close>

function run_pool ::
  "('t \<Rightarrow> 'w \<Rightarrow> 'r \<times> 'w) \<Rightarrow> nat \<Rightarrow> nat list \<Rightarrow> (nat \<times> 't) list \<Rightarrow> 'r list \<Rightarrow> 'w \<Rightarrow> 'r list \<times> 'w" where
  "run_pool f k choices [] res w = (res, w)"
| "run_pool f k choices (t # ts) res w =
     (let c = (case choices of [] \<Rightarrow> 0 | x # _ \<Rightarrow> x mod min (max 1 k) (length (t # ts)));
          (i, x) = (t # ts) ! c;
          (r, w1) = f x w
      in run_pool f k (tl choices) (take c (t # ts) @ drop (Suc c) (t # ts)) (res[i := r]) w1)"
  by pat_completeness auto

lemma pool_choice_less:
  "(case choices of [] \<Rightarrow> 0 | x # _ \<Rightarrow> x mod min (max 1 k) (length (t # ts))) < length (t # ts)"
proof (cases choices)
  case (Cons x xs)
  have "x mod min (max 1 k) (length (t # ts)) < min (max 1 k) (length (t # ts))"
    by (rule mod_less_divisor) simp
  with Cons show ?thesis by simp
qed simp

termination run_pool
proof (relation "measure (\<lambda>(f, k, choices, ts, res, w). length ts)")
  fix f :: "'t \<Rightarrow> 'w \<Rightarrow> 'r \<times> 'w" and k choices t ts res w c p i x q r w1
  assume "c = (case choices of [] \<Rightarrow> 0 | x # _ \<Rightarrow> x mod min (max 1 k) (length (t # ts)))"
  then have "c < length (t # ts)" using pool_choice_less by metis
  then show "((f, k, tl choices, take c (t # ts) @ drop (Suc c) (t # ts), (res :: 'r list)[i := r], w1),
      f, k, choices, t # ts, res, w) \<in> measure (\<lambda>(f, k, choices, ts, res, w). length ts)"
    by simp
qed simp

definition applyUpstream ::
  "('s, 'w) executor \<Rightarrow> nat list \<Rightarrow> 'w upstream \<Rightarrow> Op list \<Rightarrow> (string, Record) go_map \<Rightarrow> int
     \<Rightarrow> (string, int) go_map \<Rightarrow> 'w \<Rightarrow> applyResult list \<times> 'w" where
  "applyUpstream ex choices u ops recordedByKey now nextRetry w =
     (let tasks = filter (\<lambda>(i, op). Kind op \<noteq> OpNoop \<and> \<not> gated nextRetry now op) (enumerate 0 ops)
      in run_pool (worker (exEnv ex) u recordedByKey) (exMaxConc ex) choices tasks
           (replicate (length ops) skip_result) w)"

fun persist ::
  "('s, 'w) executor \<Rightarrow> applyResult list \<Rightarrow> int \<Rightarrow> 's \<Rightarrow> (string, int) go_map
     \<Rightarrow> 's \<times> (string, int) go_map" where
  "persist ex [] now s nr = (s, nr)"
| "persist ex (res # rest) now s nr =
     (if resSkip res then persist ex rest now s nr
      else
        (let key = RecordKey (resRecord res) in
         if resErr res \<noteq> None then
           persist ex rest now (snd (stUpsert (exOps ex) (resRecord res) s))
             (go_put key (now + exBackoff ex (Failures (resRecord res))) nr)
         else if resDeleted res then
           persist ex rest now (snd (stDeleteRecord (exOps ex) (resRecord res) s)) (go_del key nr)
         else
           persist ex rest now (snd (stUpsert (exOps ex) (resRecord res) s)) (go_del key nr)))"

fun applyUnknownUpstream :: "('s, 'w) executor \<Rightarrow> Op list \<Rightarrow> 's \<Rightarrow> 's" where
  "applyUnknownUpstream ex [] s = s"
| "applyUnknownUpstream ex (op # ops) s =
     (case Kind op of
        OpDelete \<Rightarrow> applyUnknownUpstream ex ops (snd (stDeleteRecord (exOps ex) (opRecord op) s))
      | _ \<Rightarrow> applyUnknownUpstream ex ops s)"

fun apply_groups ::
  "('s, 'w) executor \<Rightarrow> (string \<Rightarrow> nat list) \<Rightarrow> (string, Record) go_map \<Rightarrow> int
     \<Rightarrow> (string \<times> Op list) list \<Rightarrow> ('s, 'w) exec_state \<Rightarrow> ('s, 'w) exec_state" where
  "apply_groups ex sched recordedByKey now [] st = st"
| "apply_groups ex sched recordedByKey now ((name, ops) # rest) st =
     apply_groups ex sched recordedByKey now rest
       (case map_of (exUpstreams ex) name of
          None \<Rightarrow> st\<lparr>xsStore := applyUnknownUpstream ex ops (xsStore st)\<rparr>
        | Some u \<Rightarrow>
            (let (results, w) = applyUpstream ex (sched name) u ops recordedByKey now
                                  (xsNextRetry st) (xsWorld st);
                 (s, nr) = persist ex results now (xsStore st) (xsNextRetry st)
             in \<lparr>xsStore = s, xsNextRetry = nr, xsWorld = w\<rparr>))"

definition apply_plan ::
  "('s, 'w) executor \<Rightarrow> (string \<Rightarrow> nat list) \<Rightarrow> (string \<times> Op list) iteration \<Rightarrow> Plan \<Rightarrow> Record list
     \<Rightarrow> ('s, 'w) exec_state \<Rightarrow> ('s, 'w) exec_state" where
  "apply_plan ex sched it plan recorded st =
     apply_groups ex sched (go_index RecordKey recorded) (envNow (exEnv ex) (xsWorld st))
       (iterate it plan) st"

text \<open>\<open>Apply\<close>: the whole pass inside one \<open>Batch\<close> when the store has it; its error is dropped.\<close>

definition Apply ::
  "('s, 'w) executor \<Rightarrow> (string \<Rightarrow> nat list) \<Rightarrow> (string \<times> Op list) iteration \<Rightarrow> Plan \<Rightarrow> Record list
     \<Rightarrow> ('s, 'w) exec_state \<Rightarrow> ('s, 'w) exec_state" where
  "Apply ex sched it plan recorded st =
     (case stBatch (exOps ex) of
        None \<Rightarrow> apply_plan ex sched it plan recorded st
      | Some b \<Rightarrow>
          (let (err, s, nr, w) = run_batch b
             (\<lambda>(s, nr, w).
                let st1 = apply_plan ex sched it plan recorded
                            \<lparr>xsStore = s, xsNextRetry = nr, xsWorld = w\<rparr>
                in (None, xsStore st1, xsNextRetry st1, xsWorld st1))
             (xsStore st, xsNextRetry st, xsWorld st)
           in \<lparr>xsStore = s, xsNextRetry = nr, xsWorld = w\<rparr>))"

section \<open>The worker pool\<close>

declare run_pool.simps(2) [simp del]

lemma drop_nth_mset: "c < length ts \<Longrightarrow> mset ts = add_mset (ts ! c) (mset (take c ts @ drop (Suc c) ts))"
  by (metis add_mset_add_single id_take_nth_drop mset.simps(2) mset_append union_mset_add_mset_right)

lemma run_pool_step:
  obtains c where "c < length (t # ts)"
    "run_pool f k choices (t # ts) res w
       = run_pool f k (tl choices) (take c (t # ts) @ drop (Suc c) (t # ts))
           (res[fst ((t # ts) ! c) := fst (f (snd ((t # ts) ! c)) w)])
           (snd (f (snd ((t # ts) ! c)) w))"
proof (rule that [OF pool_choice_less])
  show "run_pool f k choices (t # ts) res w
    = run_pool f k (tl choices)
        (take (case choices of [] \<Rightarrow> 0 | x # _ \<Rightarrow> x mod min (max 1 k) (length (t # ts))) (t # ts) @
         drop (Suc (case choices of [] \<Rightarrow> 0 | x # _ \<Rightarrow> x mod min (max 1 k) (length (t # ts)))) (t # ts))
        (res[fst ((t # ts) ! (case choices of [] \<Rightarrow> 0 | x # _ \<Rightarrow> x mod min (max 1 k) (length (t # ts))))
           := fst (f (snd ((t # ts) ! (case choices of [] \<Rightarrow> 0 | x # _ \<Rightarrow> x mod min (max 1 k) (length (t # ts))))) w)])
        (snd (f (snd ((t # ts) ! (case choices of [] \<Rightarrow> 0 | x # _ \<Rightarrow> x mod min (max 1 k) (length (t # ts))))) w))"
    by (simp add: run_pool.simps(2) [of f k choices t ts] Let_def split_def)
qed

text \<open>
  Every task runs exactly once, in some world, and fills its own slot; other slots keep their
  content. This holds for every order of completion.
\<close>

lemma run_pool_slots:
  assumes "distinct (map fst tasks)" "\<forall>(i, x) \<in> set tasks. i < length res"
  shows "length (fst (run_pool f k choices tasks res w)) = length res"
    and "(i, x) \<in> set tasks \<Longrightarrow> \<exists>w1. fst (run_pool f k choices tasks res w) ! i = fst (f x w1)"
    and "i \<notin> fst ` set tasks \<Longrightarrow> fst (run_pool f k choices tasks res w) ! i = res ! i"
proof -
  have "length (fst (run_pool f k choices tasks res w)) = length res \<and>
    (\<forall>i x. (i, x) \<in> set tasks \<longrightarrow>
        (\<exists>w1. fst (run_pool f k choices tasks res w) ! i = fst (f x w1))) \<and>
    (\<forall>i. i \<notin> fst ` set tasks \<longrightarrow> fst (run_pool f k choices tasks res w) ! i = res ! i)"
    using assms
  proof (induction "length tasks" arbitrary: tasks choices res w)
    case 0
    then show ?case by simp
  next
    case (Suc n)
    then obtain t ts where tasks: "tasks = t # ts" by (cases tasks) auto
    obtain c where c: "c < length tasks"
      and r: "run_pool f k choices tasks res w
        = run_pool f k (tl choices) (take c tasks @ drop (Suc c) tasks)
            (res[fst (tasks ! c) := fst (f (snd (tasks ! c)) w)]) (snd (f (snd (tasks ! c)) w))"
      using run_pool_step [where f = f and k = k and t = t and ts = ts and w = w] tasks by metis
    let ?rest = "take c tasks @ drop (Suc c) tasks"
    let ?res = "res[fst (tasks ! c) := fst (f (snd (tasks ! c)) w)]"
    have m: "mset tasks = add_mset (tasks ! c) (mset ?rest)" using c by (rule drop_nth_mset)
    then have s: "set tasks = insert (tasks ! c) (set ?rest)"
      by (metis set_mset_add_mset_insert set_mset_mset)
    have "mset (map fst tasks) = add_mset (fst (tasks ! c)) (mset (map fst ?rest))"
      using m by (metis image_mset_add_mset mset_map)
    then have d: "distinct (map fst ?rest)" "fst (tasks ! c) \<notin> fst ` set ?rest"
      using Suc.prems(1)
      by (metis distinct.simps(2) mset.simps(2) mset_eq_imp_distinct_iff,
          metis Suc.prems(1) distinct.simps(2) mset.simps(2) mset_eq_imp_distinct_iff set_map)
    have l: "n = length ?rest" using Suc.hyps(2) c by simp
    have b: "\<forall>(i, x) \<in> set ?rest. i < length ?res"
      using Suc.prems(2) s by auto
    note ih = Suc.hyps(1) [OF l d(1) b, of "tl choices" "snd (f (snd (tasks ! c)) w)", folded r]
    have lt: "fst (tasks ! c) < length res"
      using Suc.prems(2) c nth_mem [OF c] by (auto simp: split_def)
    show ?case
    proof (intro conjI allI impI)
      show "length (fst (run_pool f k choices tasks res w)) = length res" using ih by simp
      fix i
      show "fst (run_pool f k choices tasks res w) ! i = res ! i" if "i \<notin> fst ` set tasks"
        using that s ih by simp
      fix x
      show "\<exists>w1. fst (run_pool f k choices tasks res w) ! i = fst (f x w1)" if "(i, x) \<in> set tasks"
      proof (cases "(i, x) = tasks ! c")
        case True
        then have "i = fst (tasks ! c)" "x = snd (tasks ! c)" by (metis fst_conv, metis snd_conv)
        then have "fst (run_pool f k choices tasks res w) ! i = fst (f x w)"
          using ih d(2) lt by simp
        then show ?thesis by blast
      next
        case False
        with that s ih show ?thesis by blast
      qed
    qed
  qed
  then show "length (fst (run_pool f k choices tasks res w)) = length res"
    "(i, x) \<in> set tasks \<Longrightarrow> \<exists>w1. fst (run_pool f k choices tasks res w) ! i = fst (f x w1)"
    "i \<notin> fst ` set tasks \<Longrightarrow> fst (run_pool f k choices tasks res w) ! i = res ! i"
    by blast+
qed

lemma enumerate_filter_mem:
  "(i, op) \<in> set (filter P (enumerate 0 ops)) \<longleftrightarrow> i < length ops \<and> op = ops ! i \<and> P (i, op)"
  by (auto simp: in_set_enumerate_eq)

lemma distinct_fst_filter_enumerate: "distinct (map fst (filter P (enumerate n ops)))"
  by (metis distinct_enumerate distinct_map_filter map_fst_enumerate distinct_upt)

text \<open>The worker leaves the world as the call of the adapter does.\<close>

lemma worker_world:
  "snd (worker env u rec op w)
     = (case Kind op of
          OpNoop \<Rightarrow> w
        | OpDelete \<Rightarrow> snd (upDelete u (opRecord op) w)
        | _ \<Rightarrow> snd (upUpsert u ((opRecord op)\<lparr>Failures := Failures (go_get zero_record rec (RecordKey (opRecord op)))\<rparr>) w))"
  by (auto simp: worker_def do_op_def Let_def split: prod.splits outcome.splits option.splits OpKind.splits)

text \<open>What the executor skips without a call, and what it attempts.\<close>

definition attempted :: "(string, int) go_map \<Rightarrow> int \<Rightarrow> Op \<Rightarrow> bool" where
  "attempted nr now op \<longleftrightarrow> Kind op \<noteq> OpNoop \<and> \<not> gated nr now op"

lemma applyUpstream_results:
  fixes ex :: "('s, 'w) executor" and choices :: "nat list" and u :: "'w upstream"
    and ops :: "Op list" and rec :: "(string, Record) go_map" and now :: int
    and nr :: "(string, int) go_map" and w :: 'w
  defines "R \<equiv> fst (applyUpstream ex choices u ops rec now nr w)"
  shows "length R = length ops"
    and "i < length ops \<Longrightarrow> \<not> attempted nr now (ops ! i) \<Longrightarrow> R ! i = skip_result"
    and "i < length ops \<Longrightarrow> attempted nr now (ops ! i) \<Longrightarrow>
      \<exists>w1. R ! i = fst (worker (exEnv ex) u rec (ops ! i) w1)"
proof -
  let ?tasks = "filter (\<lambda>(i, op). Kind op \<noteq> OpNoop \<and> \<not> gated nr now op) (enumerate 0 ops)"
  let ?res = "replicate (length ops) skip_result"
  have d: "distinct (map fst ?tasks)" by (rule distinct_fst_filter_enumerate)
  have b: "\<forall>(i, x) \<in> set ?tasks. i < length ?res" by (auto simp: in_set_enumerate_eq)
  note p = run_pool_slots [OF d b, where f = "worker (exEnv ex) u rec" and k = "exMaxConc ex"
    and choices = choices and w = w]
  have R: "R = fst (run_pool (worker (exEnv ex) u rec) (exMaxConc ex) choices ?tasks ?res w)"
    by (simp add: R_def applyUpstream_def Let_def)
  show "length R = length ops" using p(1) R by simp
  show "R ! i = skip_result" if "i < length ops" "\<not> attempted nr now (ops ! i)"
  proof -
    have "i \<notin> fst ` set ?tasks"
      using that by (auto simp: in_set_enumerate_eq attempted_def)
    from p(3) [OF this] R that(1) show ?thesis by simp
  qed
  show "\<exists>w1. R ! i = fst (worker (exEnv ex) u rec (ops ! i) w1)"
    if "i < length ops" "attempted nr now (ops ! i)"
  proof -
    have "(i, ops ! i) \<in> set ?tasks"
      using that by (auto simp: in_set_enumerate_eq attempted_def)
    from p(2) [OF this] R show ?thesis by simp
  qed
qed

lemma applyUpstream_idle:
  assumes "\<forall>op \<in> set ops. \<not> attempted nr now op"
  shows "applyUpstream ex choices u ops rec now nr w = (replicate (length ops) skip_result, w)"
proof -
  have "filter (\<lambda>(i, op). Kind op \<noteq> OpNoop \<and> \<not> gated nr now op) (enumerate 0 ops) = []"
    using assms by (auto simp: filter_empty_conv in_set_enumerate_eq attempted_def)
  then show ?thesis by (simp add: applyUpstream_def Let_def)
qed

section \<open>What a pass writes to the store\<close>

text \<open>The entry a result leaves under its key, given the entry before.\<close>

definition result_write :: "applyResult \<Rightarrow> Record option \<Rightarrow> Record option" where
  "result_write res before =
     (if resSkip res then before
      else if resErr res = None \<and> resDeleted res then None else Some (resRecord res))"

text \<open>The retry gate a result leaves: kept, set anew by a failure, cleared by a success.\<close>

definition result_gate :: "(int \<Rightarrow> int) \<Rightarrow> int \<Rightarrow> applyResult \<Rightarrow> int option \<Rightarrow> int option" where
  "result_gate backoff now res before =
     (if resSkip res then before
      else if resErr res \<noteq> None then Some (now + backoff (Failures (resRecord res))) else None)"

definition result_for :: "string \<Rightarrow> applyResult \<Rightarrow> bool" where
  "result_for k res \<longleftrightarrow> resSkip res \<or> RecordKey (resRecord res) = k"

lemma worker_result_for: "result_for (RecordKey (opRecord op)) (fst (worker env u rec op w))"
  by (auto simp: worker_def do_op_def result_for_def panic_result_def Let_def
      split: outcome.splits option.splits OpKind.splits prod.splits)

context record_store
begin

lemma persist_step:
  assumes "exOps ex = ops" "inv s"
  obtains s1 nr1 where "persist ex (res # rest) now s nr = persist ex rest now s1 nr1"
    "inv s1"
    "map_of (recs s1) = (if resSkip res then map_of (recs s)
       else (map_of (recs s))(RecordKey (resRecord res) :=
               result_write res (map_of (recs s) (RecordKey (resRecord res)))))"
    "map_of nr1 = (if resSkip res then map_of nr
       else (map_of nr)(RecordKey (resRecord res) :=
               result_gate (exBackoff ex) now res (map_of nr (RecordKey (resRecord res)))))"
  using assms
  by (cases "resSkip res"; cases "resErr res"; cases "resDeleted res")
    (auto intro!: that simp: Let_def result_write_def result_gate_def
       upsert_inv upsert_recs delete_record_inv delete_record_recs)

lemma persist_lookup:
  assumes "exOps ex = ops" "inv s" "list_all2 result_for ks results" "distinct ks"
  shows "inv (fst (persist ex results now s nr)) \<and>
    (\<forall>(k, res) \<in> set (zip ks results).
       map_of (recs (fst (persist ex results now s nr))) k = result_write res (map_of (recs s) k) \<and>
       map_of (snd (persist ex results now s nr)) k = result_gate (exBackoff ex) now res (map_of nr k)) \<and>
    (\<forall>k. k \<notin> set ks \<longrightarrow>
       map_of (recs (fst (persist ex results now s nr))) k = map_of (recs s) k \<and>
       map_of (snd (persist ex results now s nr)) k = map_of nr k)"
  using assms(2-)
proof (induction results arbitrary: ks s nr)
  case Nil
  then show ?case by simp
next
  case (Cons res rest)
  then obtain k ks' where ks: "ks = k # ks'" "result_for k res" "list_all2 result_for ks' rest"
    by (cases ks) auto
  obtain s1 nr1 where p: "persist ex (res # rest) now s nr = persist ex rest now s1 nr1"
    and i: "inv s1"
    and m: "map_of (recs s1) = (if resSkip res then map_of (recs s)
       else (map_of (recs s))(RecordKey (resRecord res) :=
               result_write res (map_of (recs s) (RecordKey (resRecord res)))))"
    and n: "map_of nr1 = (if resSkip res then map_of nr
       else (map_of nr)(RecordKey (resRecord res) :=
               result_gate (exBackoff ex) now res (map_of nr (RecordKey (resRecord res)))))"
    by (rule persist_step [OF assms(1) Cons.prems(1)])
  have d: "distinct ks'" "k \<notin> set ks'" using Cons.prems(3) ks(1) by simp_all
  have z: "k' \<noteq> k" if "(k', r') \<in> set (zip ks' rest)" for k' r'
    using d(2) set_zip_leftD [OF that] by blast
  have at_k: "map_of (recs s1) k = result_write res (map_of (recs s) k)"
    "map_of nr1 k = result_gate (exBackoff ex) now res (map_of nr k)"
    using ks(2) by (auto simp: m n result_for_def result_write_def result_gate_def)
  have off_k: "map_of (recs s1) k' = map_of (recs s) k'" "map_of nr1 k' = map_of nr k'"
    if "k' \<noteq> k" for k'
    using ks(2) that by (auto simp: m n result_for_def)
  note ih = Cons.IH [OF i ks(3) d(1), of nr1]
  show ?case
    unfolding p ks(1)
  proof (intro conjI ballI)
    let ?P = "persist ex rest now s1 nr1"
    show "inv (fst ?P)" using ih by (rule conjunct1)
    show "\<forall>k'. k' \<notin> set (k # ks') \<longrightarrow> map_of (recs (fst ?P)) k' = map_of (recs s) k' \<and>
        map_of (snd ?P) k' = map_of nr k'"
      using ih off_k by simp
    fix kr
    assume kr: "kr \<in> set (zip (k # ks') (res # rest))"
    show "case kr of (k, res) \<Rightarrow>
        map_of (recs (fst ?P)) k = result_write res (map_of (recs s) k) \<and>
        map_of (snd ?P) k = result_gate (exBackoff ex) now res (map_of nr k)"
    proof (cases "kr = (k, res)")
      case True
      with ih at_k d(2) show ?thesis by simp
    next
      case False
      obtain k' r' where e: "kr = (k', r')" by (cases kr)
      with False kr have mem: "(k', r') \<in> set (zip ks' rest)" by auto
      from bspec [OF conjunct1 [OF conjunct2 [OF ih]] mem] z [OF mem] e
      show ?thesis by (simp only: case_prod_conv off_k simp_thms)
    qed
  qed
qed

lemma unknown_lookup:
  assumes "exOps ex = ops" "inv s"
  shows "inv (applyUnknownUpstream ex os s) \<and>
    map_of (recs (applyUnknownUpstream ex os s)) k
      = (if \<exists>op \<in> set os. Kind op = OpDelete \<and> RecordKey (opRecord op) = k then None
         else map_of (recs s) k)"
  using assms(2)
  by (induction os arbitrary: s)
    (auto simp: assms(1) delete_record_inv delete_record_recs split: OpKind.splits)

end

section \<open>What a pass does, operation by operation\<close>

abbreviation op_key :: "Op \<Rightarrow> string" where
  "op_key op \<equiv> RecordKey (opRecord op)"

definition gate_open :: "int \<Rightarrow> int option \<Rightarrow> bool" where
  "gate_open now g = (case g of None \<Rightarrow> True | Some t \<Rightarrow> t \<le> now)"

lemma attempted_iff: "attempted nr now op \<longleftrightarrow> Kind op \<noteq> OpNoop \<and> gate_open now (map_of nr (op_key op))"
  by (auto simp: attempted_def gated_def gate_open_def split: option.splits)

text \<open>
  The specification of one operation filed under the upstream \<open>name\<close>: how the store entry and
  the retry gate of its key may change. The call happens in some world \<open>w\<close>, reached by the
  other operations of the pass.
\<close>

definition op_after ::
  "('s, 'w) executor \<Rightarrow> (string, Record) go_map \<Rightarrow> int \<Rightarrow> string \<Rightarrow> Op
     \<Rightarrow> Record option \<times> int option \<Rightarrow> Record option \<times> int option \<Rightarrow> bool" where
  "op_after ex rec now name op before after =
     (case map_of (exUpstreams ex) name of
        None \<Rightarrow> after = (if Kind op = OpDelete then None else fst before, snd before)
      | Some u \<Rightarrow>
          if Kind op \<noteq> OpNoop \<and> gate_open now (snd before) then
            \<exists>w. after = (result_write (fst (worker (exEnv ex) u rec op w)) (fst before),
                         result_gate (exBackoff ex) now (fst (worker (exEnv ex) u rec op w)) (snd before))
          else after = before)"

definition apply_group ::
  "('s, 'w) executor \<Rightarrow> (string \<Rightarrow> nat list) \<Rightarrow> (string, Record) go_map \<Rightarrow> int
     \<Rightarrow> string \<Rightarrow> Op list \<Rightarrow> ('s, 'w) exec_state \<Rightarrow> ('s, 'w) exec_state" where
  "apply_group ex sched rec now name os st =
     (case map_of (exUpstreams ex) name of
        None \<Rightarrow> st\<lparr>xsStore := applyUnknownUpstream ex os (xsStore st)\<rparr>
      | Some u \<Rightarrow>
          (let (results, w) = applyUpstream ex (sched name) u os rec now (xsNextRetry st) (xsWorld st);
               (s, nr) = persist ex results now (xsStore st) (xsNextRetry st)
           in \<lparr>xsStore = s, xsNextRetry = nr, xsWorld = w\<rparr>))"

lemma apply_groups_Cons:
  "apply_groups ex sched rec now ((name, os) # rest) st
     = apply_groups ex sched rec now rest (apply_group ex sched rec now name os st)"
  by (simp add: apply_group_def)

declare apply_groups.simps(2) [simp del]

lemma op_keys_distinct_nth:
  assumes "distinct (map op_key os)" "op \<in> set os"
  obtains i where "i < length os" "os ! i = op"
  using assms(2) by (metis in_set_conv_nth)

context record_store
begin

abbreviation entry :: "('s, 'w) exec_state \<Rightarrow> string \<Rightarrow> Record option \<times> int option" where
  "entry st k \<equiv> (map_of (recs (xsStore st)) k, map_of (xsNextRetry st) k)"

lemma known_group:
  assumes e: "exOps ex = ops" and i: "inv (xsStore st)" and d: "distinct (map op_key os)"
    and u: "map_of (exUpstreams ex) name = Some u"
  shows "inv (xsStore (apply_group ex sched rec now name os st))"
    and "op \<in> set os \<Longrightarrow> op_after ex rec now name op (entry st (op_key op))
           (entry (apply_group ex sched rec now name os st) (op_key op))"
    and "k \<notin> op_key ` set os \<Longrightarrow> entry (apply_group ex sched rec now name os st) k = entry st k"
proof -
  let ?nr = "xsNextRetry st"
  let ?R = "fst (applyUpstream ex (sched name) u os rec now ?nr (xsWorld st))"
  let ?P = "persist ex ?R now (xsStore st) ?nr"
  note len = applyUpstream_results(1) [of ex "sched name" u os rec now ?nr "xsWorld st"]
  note off = applyUpstream_results(2) [where ex = ex and choices = "sched name" and u = u
    and ops = os and rec = rec and now = now and nr = ?nr and w = "xsWorld st"]
  note on = applyUpstream_results(3) [where ex = ex and choices = "sched name" and u = u
    and ops = os and rec = rec and now = now and nr = ?nr and w = "xsWorld st"]
  have for_all: "list_all2 result_for (map op_key os) ?R"
    unfolding list_all2_conv_all_nth
  proof (intro conjI allI impI)
    show "length (map op_key os) = length ?R" using len by simp
    fix j assume "j < length (map op_key os)"
    then have j: "j < length os" by simp
    show "result_for (map op_key os ! j) (?R ! j)"
    proof (cases "attempted ?nr now (os ! j)")
      case True
      from on [OF j this] obtain w1 where
        "?R ! j = fst (worker (exEnv ex) u rec (os ! j) w1)" by blast
      with worker_result_for j show ?thesis by simp
    next
      case False
      with off [OF j] show ?thesis by (simp add: result_for_def)
    qed
  qed
  have g: "xsStore (apply_group ex sched rec now name os st) = fst ?P"
    "xsNextRetry (apply_group ex sched rec now name os st) = snd ?P"
    by (simp_all add: apply_group_def u split_def Let_def)
  note p = persist_lookup [OF e i for_all d, of now ?nr]
  show "inv (xsStore (apply_group ex sched rec now name os st))" unfolding g using p by blast
  show "entry (apply_group ex sched rec now name os st) k = entry st k" if "k \<notin> op_key ` set os"
  proof -
    have "k \<notin> set (map op_key os)" using that by simp
    with p show ?thesis unfolding g by blast
  qed
  show "op_after ex rec now name op (entry st (op_key op))
      (entry (apply_group ex sched rec now name os st) (op_key op))" if mem: "op \<in> set os"
  proof -
    obtain j where j: "j < length os" "os ! j = op" using mem by (metis in_set_conv_nth)
    have "zip (map op_key os) ?R ! j = (op_key op, ?R ! j)"
      using j len by simp
    moreover have "j < length (zip (map op_key os) ?R)" using j len by simp
    ultimately have "(op_key op, ?R ! j) \<in> set (zip (map op_key os) ?R)"
      by (metis nth_mem)
    from bspec [OF conjunct1 [OF conjunct2 [OF p]] this]
    have eff: "map_of (recs (fst ?P)) (op_key op) = result_write (?R ! j) (map_of (recs (xsStore st)) (op_key op))"
      "map_of (snd ?P) (op_key op) = result_gate (exBackoff ex) now (?R ! j) (map_of ?nr (op_key op))"
      by simp_all
    show ?thesis
    proof (cases "attempted ?nr now op")
      case True
      from on [OF j(1), unfolded j(2), OF this] obtain w1 where
        "?R ! j = fst (worker (exEnv ex) u rec op w1)" by blast
      with eff True show ?thesis
        unfolding g op_after_def u attempted_iff by auto
    next
      case False
      from off [OF j(1), unfolded j(2), OF this] eff False show ?thesis
        unfolding g op_after_def u attempted_iff
        by (auto simp: result_write_def result_gate_def)
    qed
  qed
qed

lemma unknown_group:
  assumes e: "exOps ex = ops" and i: "inv (xsStore st)" and d: "distinct (map op_key os)"
    and u: "map_of (exUpstreams ex) name = None"
  shows "inv (xsStore (apply_group ex sched rec now name os st))"
    and "op \<in> set os \<Longrightarrow> op_after ex rec now name op (entry st (op_key op))
           (entry (apply_group ex sched rec now name os st) (op_key op))"
    and "k \<notin> op_key ` set os \<Longrightarrow> entry (apply_group ex sched rec now name os st) k = entry st k"
proof -
  note l = unknown_lookup [OF e i, of os]
  have g: "apply_group ex sched rec now name os st
      = st\<lparr>xsStore := applyUnknownUpstream ex os (xsStore st)\<rparr>"
    by (simp add: apply_group_def u)
  show "inv (xsStore (apply_group ex sched rec now name os st))" using l by (simp add: g)
  show "entry (apply_group ex sched rec now name os st) k = entry st k" if "k \<notin> op_key ` set os"
    using l [of k] that by (auto simp: g)
  show "op_after ex rec now name op (entry st (op_key op))
      (entry (apply_group ex sched rec now name os st) (op_key op))" if "op \<in> set os"
  proof -
    have "(\<exists>op' \<in> set os. Kind op' = OpDelete \<and> op_key op' = op_key op) \<longleftrightarrow> Kind op = OpDelete"
      using d that by (metis distinct_map inj_onD)
    with l [of "op_key op"] show ?thesis by (simp add: g op_after_def u)
  qed
qed

lemma group_effect:
  assumes "exOps ex = ops" "inv (xsStore st)" "distinct (map op_key os)"
  shows "inv (xsStore (apply_group ex sched rec now name os st)) \<and>
    (\<forall>op \<in> set os. op_after ex rec now name op (entry st (op_key op))
       (entry (apply_group ex sched rec now name os st) (op_key op))) \<and>
    (\<forall>k. k \<notin> op_key ` set os \<longrightarrow> entry (apply_group ex sched rec now name os st) k = entry st k)"
proof (cases "map_of (exUpstreams ex) name")
  case None
  show ?thesis
    by (intro conjI ballI allI impI unknown_group [OF assms None])
next
  case (Some u)
  show ?thesis
    by (intro conjI ballI allI impI known_group [OF assms Some])
qed

text \<open>
  The groups of a plan one after the other: with distinct keys every group sees the entries of
  its own keys as they were at the start.
\<close>

lemma apply_groups_effect:
  assumes "exOps ex = ops" "inv (xsStore st)" "distinct (map op_key (plan_ops gs))"
  shows "inv (xsStore (apply_groups ex sched rec now gs st)) \<and>
    (\<forall>(name, os) \<in> set gs. \<forall>op \<in> set os. op_after ex rec now name op (entry st (op_key op))
       (entry (apply_groups ex sched rec now gs st) (op_key op))) \<and>
    (\<forall>k. k \<notin> op_key ` set (plan_ops gs) \<longrightarrow>
       entry (apply_groups ex sched rec now gs st) k = entry st k)"
  using assms(2-)
proof (induction gs arbitrary: st)
  case Nil
  then show ?case by simp
next
  case (Cons g gs)
  obtain name os where g: "g = (name, os)" by (cases g)
  let ?st1 = "apply_group ex sched rec now name os st"
  let ?st2 = "apply_groups ex sched rec now gs ?st1"
  have split: "plan_ops (g # gs) = os @ plan_ops gs" by (simp add: plan_ops_def g)
  then have d: "distinct (map op_key os)" "distinct (map op_key (plan_ops gs))"
    and disj: "op_key ` set os \<inter> op_key ` set (plan_ops gs) = {}"
    using Cons.prems(2) by auto
  note e1 = group_effect [OF assms(1) Cons.prems(1) d(1), where sched = sched and rec = rec
    and now = now and name = name]
  note e2 = Cons.IH [OF conjunct1 [OF e1] d(2)]
  have r: "apply_groups ex sched rec now (g # gs) st = ?st2"
    by (simp add: g apply_groups_Cons)
  have in_plan: "op \<in> set (plan_ops gs)" if "(n, os') \<in> set gs" "op \<in> set os'" for n os' op
    using that unfolding plan_ops_def by force
  show ?case
    unfolding r
  proof (intro conjI ballI allI impI)
    show "inv (xsStore ?st2)" using e2 by blast
    show "entry ?st2 k = entry st k" if "k \<notin> op_key ` set (plan_ops (g # gs))" for k
    proof -
      have "k \<notin> op_key ` set os" "k \<notin> op_key ` set (plan_ops gs)"
        using that by (auto simp: split)
      from e1 this(1) have "entry ?st1 k = entry st k" by blast
      moreover from e2 \<open>k \<notin> op_key ` set (plan_ops gs)\<close> have "entry ?st2 k = entry ?st1 k" by blast
      ultimately show ?thesis by (rule trans [rotated])
    qed
    fix h assume h: "h \<in> set (g # gs)"
    obtain n os' where n: "h = (n, os')" by (cases h)
    have "op_after ex rec now n op (entry st (op_key op)) (entry ?st2 (op_key op))"
      if op: "op \<in> set os'" for op
    proof (cases "h = g")
      case True
      then have o: "op \<in> set os" "n = name" using n g op by simp_all
      then have "op_key op \<notin> op_key ` set (plan_ops gs)" using disj by blast
      then have "entry ?st2 (op_key op) = entry ?st1 (op_key op)" using e2 by blast
      moreover have "op_after ex rec now name op (entry st (op_key op)) (entry ?st1 (op_key op))"
        using e1 o(1) by blast
      ultimately show ?thesis using o(2) by simp
    next
      case False
      then have m: "(n, os') \<in> set gs" using h n by simp
      then have "op_key op \<notin> op_key ` set os" using in_plan [OF m op] disj by blast
      then have "entry ?st1 (op_key op) = entry st (op_key op)" using e1 by blast
      moreover have "op_after ex rec now n op (entry ?st1 (op_key op)) (entry ?st2 (op_key op))"
        using bspec [OF conjunct1 [OF conjunct2 [OF e2]] m] op by simp
      ultimately show ?thesis by simp
    qed
    then show "case h of (name, os) \<Rightarrow> \<forall>op \<in> set os.
        op_after ex rec now name op (entry st (op_key op)) (entry ?st2 (op_key op))"
      by (simp add: n)
  qed
qed

lemma apply_plan_effect:
  assumes "exOps ex = ops" "inv (xsStore st)" "go_map_wf plan" "distinct (map op_key (plan_ops plan))"
  shows "inv (xsStore (apply_plan ex sched it plan recorded st)) \<and>
    (\<forall>name. \<forall>op \<in> set (go_get [] plan name).
       op_after ex (go_index RecordKey recorded) (envNow (exEnv ex) (xsWorld st)) name op
         (entry st (op_key op)) (entry (apply_plan ex sched it plan recorded st) (op_key op))) \<and>
    (\<forall>k. k \<notin> op_key ` set (plan_ops plan) \<longrightarrow>
       entry (apply_plan ex sched it plan recorded st) k = entry st k)"
proof -
  let ?rec = "go_index RecordKey recorded"
  let ?now = "envNow (exEnv ex) (xsWorld st)"
  have m: "mset (plan_ops (iterate it plan)) = mset (plan_ops plan)"
    by (rule plan_ops_mset_iterate)
  then have d: "distinct (map op_key (plan_ops (iterate it plan)))"
    by (metis assms(4) mset_map mset_eq_imp_distinct_iff)
  have s: "set (plan_ops (iterate it plan)) = set (plan_ops plan)"
    using m by (metis set_mset_mset)
  note e = apply_groups_effect [OF assms(1,2) d, of sched ?rec ?now, folded apply_plan_def, unfolded s]
  have "op_after ex ?rec ?now name op (entry st (op_key op))
      (entry (apply_plan ex sched it plan recorded st) (op_key op))"
    if "op \<in> set (go_get [] plan name)" for name op
  proof -
    from that obtain os where os: "map_of plan name = Some os" "op \<in> set os"
      by (cases "map_of plan name") (auto simp: go_get_def)
    from map_of_SomeD [OF os(1)] have "(name, os) \<in> set (iterate it plan)" by simp
    from bspec [OF conjunct1 [OF conjunct2 [OF e]] this] os(2) show ?thesis
      by (simp add: apply_plan_def)
  qed
  with e show ?thesis by (simp add: apply_plan_def)
qed

text \<open>\<open>Apply\<close>, with or without a batch: the same effect on the entries and the gates.\<close>

lemma Apply_effect:
  assumes "exOps ex = ops" "inv (xsStore st)" "go_map_wf plan" "distinct (map op_key (plan_ops plan))"
  shows "inv (xsStore (Apply ex sched it plan recorded st)) \<and>
    (\<forall>name. \<forall>op \<in> set (go_get [] plan name).
       op_after ex (go_index RecordKey recorded) (envNow (exEnv ex) (xsWorld st)) name op
         (entry st (op_key op)) (entry (Apply ex sched it plan recorded st) (op_key op))) \<and>
    (\<forall>k. k \<notin> op_key ` set (plan_ops plan) \<longrightarrow>
       entry (Apply ex sched it plan recorded st) k = entry st k)"
proof (cases "stBatch ops")
  case None
  then show ?thesis
    using apply_plan_effect [OF assms] by (simp add: Apply_def assms(1))
next
  case (Some b)
  let ?s = "snd (fst b (xsStore st))"
  let ?st = "\<lparr>xsStore = ?s, xsNextRetry = xsNextRetry st, xsWorld = xsWorld st\<rparr>"
  let ?st1 = "apply_plan ex sched it plan recorded ?st"
  let ?st2 = "Apply ex sched it plan recorded st"
  have b: "inv ?s" "recs ?s = recs (xsStore st)"
    using batch_begin [OF assms(2) Some] by simp_all
  have a: "?st2 = \<lparr>xsStore = snd (snd b (fst (fst b (xsStore st))) None (xsStore ?st1)),
      xsNextRetry = xsNextRetry ?st1, xsWorld = xsWorld ?st1\<rparr>"
    by (simp add: Apply_def assms(1) Some run_batch_def split_def Let_def)
  have "inv (xsStore ?st)" using b by simp
  note p = apply_plan_effect [OF assms(1) this assms(3,4), where sched = sched and it = it
    and recorded = recorded]
  have f: "inv (xsStore ?st2)" "recs (xsStore ?st2) = recs (xsStore ?st1)"
    using batch_finish [OF conjunct1 [OF p] Some] by (simp_all add: a)
  have nr: "xsNextRetry ?st2 = xsNextRetry ?st1" by (simp add: a)
  from p f(1) show ?thesis unfolding f(2) nr by (simp add: b)
qed

end

section \<open>Correctness of Apply on the production store\<close>

abbreviation file_entry :: "(file_store, 'w) exec_state \<Rightarrow> string \<Rightarrow> Record option" where
  "file_entry st k \<equiv> map_of (fsRecords (xsStore st)) k"

abbreviation retry_gate :: "('s, 'w) exec_state \<Rightarrow> string \<Rightarrow> int option" where
  "retry_gate st k \<equiv> map_of (xsNextRetry st) k"

lemma result_write_None:
  assumes "result_write res (Some r) = None"
  shows "\<not> resSkip res \<and> resErr res = None \<and> resDeleted res"
  using assms by (auto simp: result_write_def split: if_splits)

lemma worker_deleted:
  assumes "\<not> resSkip (fst (worker env u rec op w))" "resErr (fst (worker env u rec op w)) = None"
    "resDeleted (fst (worker env u rec op w))"
  shows "Kind op = OpDelete \<and> (\<exists>w'. upDelete u (opRecord op) w = (Returned None, w'))"
  using assms
  by (auto simp: worker_def do_op_def panic_result_def Let_def
      split: outcome.splits option.splits OpKind.splits prod.splits if_splits)

lemma Apply_forgets:
  fixes enc :: "(string, Record) go_map \<Rightarrow> error + string"
  assumes "exOps ex = file_ops enc" "keyed (fsRecords (xsStore st))"
    and "go_map_wf plan" "distinct (map op_key (plan_ops plan))"
    and "file_entry st k = Some r" "file_entry (Apply ex sched it plan recorded st) k = None"
  shows "\<exists>name op. op \<in> set (go_get [] plan name) \<and> Kind op = OpDelete \<and> op_key op = k \<and>
    (case map_of (exUpstreams ex) name of
       None \<Rightarrow> True
     | Some u \<Rightarrow> \<exists>w w'. upDelete u (opRecord op) w = (Returned None, w'))"
proof -
  note eff = fstore.Apply_effect [OF assms(1-4), of sched it recorded]
  let ?st' = "Apply ex sched it plan recorded st"
  have "k \<in> op_key ` set (plan_ops plan)" using eff assms(5,6) by force
  then obtain op where op: "op \<in> set (plan_ops plan)" "op_key op = k" by blast
  from op(1) assms(3) obtain name where n: "op \<in> set (go_get [] plan name)" by (rule mem_plan_opsE)
  have a: "op_after ex (go_index RecordKey recorded) (envNow (exEnv ex) (xsWorld st)) name op
      (Some r, retry_gate st k) (None, retry_gate ?st' k)"
    using eff n op(2) assms(5,6) by fastforce
  show ?thesis
  proof (cases "map_of (exUpstreams ex) name")
    case None
    with a have "Kind op = OpDelete" by (auto simp: op_after_def split: if_splits)
    with n op(2) None show ?thesis by (intro exI [of _ name] exI [of _ op]) simp
  next
    case (Some u)
    with a obtain w where "None = result_write (fst (worker (exEnv ex) u (go_index RecordKey recorded) op w)) (Some r)"
      by (auto simp: op_after_def split: if_splits)
    from this [symmetric] have "result_write (fst (worker (exEnv ex) u (go_index RecordKey recorded) op w)) (Some r) = None" .
    from result_write_None [OF this]
    have "Kind op = OpDelete \<and> (\<exists>w'. upDelete u (opRecord op) w = (Returned None, w'))"
      by (intro worker_deleted) blast+
    with n op(2) Some show ?thesis by (intro exI [of _ name] exI [of _ op]) auto
  qed
qed

text \<open>
  C2. The store never forgets a record on its own. If an entry of the store is gone after a
  pass, then the plan had a delete for its key, and the upstream of that delete either is not
  configured any more or has answered the deletion of exactly that record with success. Errors,
  panics, cancellations, gates and the order in which workers finish cannot lose an entry.
\<close>

theorem Apply_forgets_only_confirmed:
  fixes enc :: "(string, Record) go_map \<Rightarrow> error + string"
  assumes "exOps ex = file_ops enc" "keyed (fsRecords (xsStore st))"
    and "go_map_wf plan" "distinct (map op_key (plan_ops plan))"
    and "file_entry st k = Some r" "file_entry (Apply ex sched it plan recorded st) k = None"
  shows "\<exists>name op. op \<in> set (go_get [] plan name) \<and> Kind op = OpDelete \<and> op_key op = k \<and>
    (case map_of (exUpstreams ex) name of
       None \<Rightarrow> True
     | Some u \<Rightarrow> \<exists>w w'. upDelete u (opRecord op) w = (Returned None, w'))"
  using assms by (rule Apply_forgets)

text \<open>A concrete executor: one upstream \<open>pi\<close> that always succeeds, on a world that is a clock.\<close>

definition ok_upstream :: "string \<Rightarrow> int upstream" where
  [go_eval]: "ok_upstream name = \<lparr>upName = name, upUpsert = (\<lambda>r w. (Returned None, w + 1)),
     upDelete = (\<lambda>r w. (Returned None, w + 1)), upList = None, upDriftEqual = None\<rparr>"

definition bad_upstream :: "string \<Rightarrow> int upstream" where
  [go_eval]: "bad_upstream name = \<lparr>upName = name,
     upUpsert = (\<lambda>r w. (Returned (Some (OtherError ''refused'')), w + 1)),
     upDelete = (\<lambda>r w. (Returned (Some (OtherError ''refused'')), w + 1)),
     upList = None, upDriftEqual = None\<rparr>"

definition sample_enc :: "(string, Record) go_map \<Rightarrow> error + string" where
  [go_eval]: "sample_enc m = Inr (concat (map fst m))"

definition clock_env :: "int env" where
  [go_eval]: "clock_env = \<lparr>envNow = (\<lambda>w. w), envCtxErr = (\<lambda>_. False)\<rparr>"

definition sample_executor :: "int upstream \<Rightarrow> (file_store, int) executor" where
  [go_eval]: "sample_executor u = NewExecutor (file_ops sample_enc) [(''pi'', u)] 4 None clock_env"

definition sample_state :: "Record list \<Rightarrow> (file_store, int) exec_state" where
  [go_eval]: "sample_state rs = \<lparr>xsStore = empty_file_store\<lparr>fsRecords := go_index RecordKey rs\<rparr>,
     xsNextRetry = [], xsWorld = 0\<rparr>"

definition sample_plan :: "OpKind \<Rightarrow> Plan" where
  [go_eval]: "sample_plan k = [(''pi'', [simple_op k sample_record])]"

lemma sample_executor_simps [simp]:
  "exOps (sample_executor u) = file_ops sample_enc" "exUpstreams (sample_executor u) = [(''pi'', u)]"
  "exEnv (sample_executor u) = clock_env" "exBackoff (sample_executor u) = defaultBackoff"
  "exMaxConc (sample_executor u) = 4"
  by (simp_all add: sample_executor_def NewExecutor_def)

lemma sample_state_simps [simp]:
  "fsRecords (xsStore (sample_state rs)) = go_index RecordKey rs"
  "xsNextRetry (sample_state rs) = []" "xsWorld (sample_state rs) = 0"
  by (simp_all add: sample_state_def)

lemma keyed_single [simp]: "keyed [(RecordKey r, r)]"
  by (simp add: keyed_def)

lemma sample_plan_simps [simp]:
  "go_map_wf (sample_plan k)" "plan_ops (sample_plan k) = [simple_op k sample_record]"
  "go_get [] (sample_plan k) ''pi'' = [simple_op k sample_record]"
  by (simp_all add: sample_plan_def plan_ops_def go_get_def)

text \<open>The fate of one operation in a pass, on the file store.\<close>

lemma Apply_op_after:
  fixes enc :: "(string, Record) go_map \<Rightarrow> error + string"
  assumes "exOps ex = file_ops enc" "keyed (fsRecords (xsStore st))"
    and "go_map_wf plan" "distinct (map op_key (plan_ops plan))" "op \<in> set (go_get [] plan name)"
  shows "op_after ex (go_index RecordKey recorded) (envNow (exEnv ex) (xsWorld st)) name op
     (file_entry st (op_key op), retry_gate st (op_key op))
     (file_entry (Apply ex sched it plan recorded st) (op_key op),
      retry_gate (Apply ex sched it plan recorded st) (op_key op))"
  using fstore.Apply_effect [OF assms(1-4), of sched it recorded] assms(5) by blast

text \<open>The record the executor hands to the adapter.\<close>

definition sent_record :: "Record list \<Rightarrow> Op \<Rightarrow> Record" where
  "sent_record recorded op =
     (if Kind op = OpDelete then opRecord op
      else (opRecord op)\<lparr>Failures := Failures (go_get zero_record (go_index RecordKey recorded) (op_key op))\<rparr>)"

definition send :: "'w upstream \<Rightarrow> Op \<Rightarrow> Record \<Rightarrow> 'w \<Rightarrow> error option outcome \<times> 'w" where
  "send u op r w = (if Kind op = OpDelete then upDelete u r w else upUpsert u r w)"

lemma worker_success:
  assumes "Kind op \<noteq> OpNoop" "send u op (sent_record recorded op) w = (Returned None, w1)"
  shows "fst (worker env u (go_index RecordKey recorded) op w) =
    (if Kind op = OpDelete then done_result (opRecord op) True
     else done_result ((opRecord op)\<lparr>Failures := 0, Status := RecordStatusSynced,
            SyncedAt := envNow env w1, SyncError := ''''\<rparr>) False)"
  using assms by (cases "Kind op") (simp_all add: worker_def do_op_def send_def sent_record_def Let_def)

lemma worker_failure:
  assumes "Kind op \<noteq> OpNoop" "send u op (sent_record recorded op) w = (Returned (Some e), w1)"
  shows "fst (worker env u (go_index RecordKey recorded) op w) =
    (if envCtxErr env w1 then skip_result
     else failed_result ((opRecord op)\<lparr>Failures := wrap64 (Failures (sent_record recorded op) + 1),
            Status := (if Kind op = OpDelete then RecordStatusPendingDelete else RecordStatusFailed),
            SyncError := error_text e\<rparr>) e)"
  using assms by (cases "Kind op") (simp_all add: worker_def do_op_def send_def sent_record_def Let_def)

lemma Apply_attempt:
  fixes enc :: "(string, Record) go_map \<Rightarrow> error + string"
  assumes "exOps ex = file_ops enc" "keyed (fsRecords (xsStore st))"
    and "go_map_wf plan" "distinct (map op_key (plan_ops plan))" "op \<in> set (go_get [] plan name)"
    and "map_of (exUpstreams ex) name = Some u" "Kind op \<noteq> OpNoop"
    and "gate_open (envNow (exEnv ex) (xsWorld st)) (retry_gate st (op_key op))"
  obtains w where
    "file_entry (Apply ex sched it plan recorded st) (op_key op)
       = result_write (fst (worker (exEnv ex) u (go_index RecordKey recorded) op w))
           (file_entry st (op_key op))"
    "retry_gate (Apply ex sched it plan recorded st) (op_key op)
       = result_gate (exBackoff ex) (envNow (exEnv ex) (xsWorld st))
           (fst (worker (exEnv ex) u (go_index RecordKey recorded) op w)) (retry_gate st (op_key op))"
  using Apply_op_after [OF assms(1-5), of recorded sched it] assms(6-8)
  by (auto simp: op_after_def)

text \<open>
  C6. A successful call is recorded. For an operation that is not gated and whose upstream
  accepts the call: after a create or update the store holds exactly the desired record, marked
  synced with no failures and no error; after a delete the entry is gone; and the retry gate of
  the key is cleared in both cases.
\<close>

theorem Apply_records_success:
  fixes enc :: "(string, Record) go_map \<Rightarrow> error + string"
  assumes "exOps ex = file_ops enc" "keyed (fsRecords (xsStore st))"
    and "go_map_wf plan" "distinct (map op_key (plan_ops plan))" "op \<in> set (go_get [] plan name)"
    and "map_of (exUpstreams ex) name = Some u" "Kind op \<noteq> OpNoop"
    and "gate_open (envNow (exEnv ex) (xsWorld st)) (retry_gate st (op_key op))"
    and "\<And>w. fst (send u op (sent_record recorded op) w) = Returned None"
  shows "retry_gate (Apply ex sched it plan recorded st) (op_key op) = None \<and>
    (if Kind op = OpDelete
     then file_entry (Apply ex sched it plan recorded st) (op_key op) = None
     else \<exists>t. file_entry (Apply ex sched it plan recorded st) (op_key op)
            = Some ((opRecord op)\<lparr>Failures := 0, Status := RecordStatusSynced,
                      SyncedAt := t, SyncError := ''''\<rparr>))"
proof -
  obtain w where w:
    "file_entry (Apply ex sched it plan recorded st) (op_key op)
       = result_write (fst (worker (exEnv ex) u (go_index RecordKey recorded) op w))
           (file_entry st (op_key op))"
    "retry_gate (Apply ex sched it plan recorded st) (op_key op)
       = result_gate (exBackoff ex) (envNow (exEnv ex) (xsWorld st))
           (fst (worker (exEnv ex) u (go_index RecordKey recorded) op w)) (retry_gate st (op_key op))"
    by (rule Apply_attempt [OF assms(1-8)])
  obtain w1 where "send u op (sent_record recorded op) w = (Returned None, w1)"
    using assms(9) [of w] by (cases "send u op (sent_record recorded op) w") auto
  from worker_success [OF assms(7) this, of "exEnv ex"] w show ?thesis
    by (cases "Kind op = OpDelete") (auto simp: result_write_def result_gate_def)
qed

theorem Apply_records_success_witness:
  "retry_gate (Apply (sample_executor (ok_upstream ''pi'')) (\<lambda>_. []) in_order (sample_plan OpCreate) []
       (sample_state [])) (RecordKey sample_record) = None \<and>
   (\<exists>t. file_entry (Apply (sample_executor (ok_upstream ''pi'')) (\<lambda>_. []) in_order (sample_plan OpCreate)
       [] (sample_state [])) (RecordKey sample_record)
       = Some (sample_record\<lparr>Failures := 0, Status := RecordStatusSynced, SyncedAt := t, SyncError := ''''\<rparr>))"
  using Apply_records_success [of "sample_executor (ok_upstream ''pi'')" sample_enc "sample_state []"
      "sample_plan OpCreate" "simple_op OpCreate sample_record" "''pi''" "ok_upstream ''pi''" "[]"
      "\<lambda>_. []" in_order]
  by (simp add: gate_open_def send_def ok_upstream_def)

lemma Apply_sample_delete:
  "file_entry (Apply (sample_executor (ok_upstream ''pi'')) (\<lambda>_. []) in_order (sample_plan OpDelete)
     [sample_record] (sample_state [sample_record])) (RecordKey sample_record) = None"
proof -
  have "op_after (sample_executor (ok_upstream ''pi'')) (go_index RecordKey [sample_record]) 0 ''pi''
      (simple_op OpDelete sample_record) (Some sample_record, None)
      (file_entry (Apply (sample_executor (ok_upstream ''pi'')) (\<lambda>_. []) in_order (sample_plan OpDelete)
         [sample_record] (sample_state [sample_record])) (RecordKey sample_record),
       retry_gate (Apply (sample_executor (ok_upstream ''pi'')) (\<lambda>_. []) in_order (sample_plan OpDelete)
         [sample_record] (sample_state [sample_record])) (RecordKey sample_record))"
    using Apply_op_after [of "sample_executor (ok_upstream ''pi'')" sample_enc "sample_state [sample_record]"
        "sample_plan OpDelete" "simple_op OpDelete sample_record" "''pi''" "[sample_record]" "\<lambda>_. []" in_order]
    by (simp add: clock_env_def)
  then show ?thesis
    by (auto simp: op_after_def gate_open_def worker_def do_op_def ok_upstream_def result_write_def Let_def)
qed

theorem Apply_forgets_only_confirmed_witness:
  "\<exists>name op. op \<in> set (go_get [] (sample_plan OpDelete) name) \<and> Kind op = OpDelete \<and>
     op_key op = RecordKey sample_record"
proof -
  have "distinct (map op_key (plan_ops (sample_plan OpDelete)))" by simp
  from Apply_forgets_only_confirmed [OF _ _ _ this _ Apply_sample_delete, of sample_enc sample_record]
  show ?thesis by simp blast
qed

text \<open>
  C7. A refused call is recorded and gated. If the upstream answers an operation that is not
  gated with an error, and the context is not cancelled, the entry stays in the store with its
  failure count raised by one and the status to retry it (failed, or pending delete), and the
  next attempt is gated by the backoff of the new count.
\<close>

theorem Apply_records_failure:
  fixes enc :: "(string, Record) go_map \<Rightarrow> error + string"
  assumes "exOps ex = file_ops enc" "keyed (fsRecords (xsStore st))"
    and "go_map_wf plan" "distinct (map op_key (plan_ops plan))" "op \<in> set (go_get [] plan name)"
    and "map_of (exUpstreams ex) name = Some u" "Kind op \<noteq> OpNoop"
    and "gate_open (envNow (exEnv ex) (xsWorld st)) (retry_gate st (op_key op))"
    and "\<And>w. \<exists>e w1. send u op (sent_record recorded op) w = (Returned (Some e), w1) \<and>
               \<not> envCtxErr (exEnv ex) w1"
  shows "\<exists>e. file_entry (Apply ex sched it plan recorded st) (op_key op)
      = Some ((opRecord op)\<lparr>Failures := wrap64 (Failures (sent_record recorded op) + 1),
          Status := (if Kind op = OpDelete then RecordStatusPendingDelete else RecordStatusFailed),
          SyncError := error_text e\<rparr>) \<and>
    retry_gate (Apply ex sched it plan recorded st) (op_key op)
      = Some (envNow (exEnv ex) (xsWorld st)
              + exBackoff ex (wrap64 (Failures (sent_record recorded op) + 1)))"
proof -
  obtain w where w:
    "file_entry (Apply ex sched it plan recorded st) (op_key op)
       = result_write (fst (worker (exEnv ex) u (go_index RecordKey recorded) op w))
           (file_entry st (op_key op))"
    "retry_gate (Apply ex sched it plan recorded st) (op_key op)
       = result_gate (exBackoff ex) (envNow (exEnv ex) (xsWorld st))
           (fst (worker (exEnv ex) u (go_index RecordKey recorded) op w)) (retry_gate st (op_key op))"
    by (rule Apply_attempt [OF assms(1-8)])
  obtain e w1 where "send u op (sent_record recorded op) w = (Returned (Some e), w1)"
    "\<not> envCtxErr (exEnv ex) w1"
    using assms(9) [of w] by blast
  with worker_failure [OF assms(7) this(1), of "exEnv ex"] w show ?thesis
    by (intro exI [of _ e]) (simp add: result_write_def result_gate_def)
qed

theorem Apply_records_failure_witness:
  "\<exists>e. file_entry (Apply (sample_executor (bad_upstream ''pi'')) (\<lambda>_. []) in_order (sample_plan OpDelete)
        [sample_record] (sample_state [sample_record])) (RecordKey sample_record)
      = Some (sample_record\<lparr>Failures := 1, Status := RecordStatusPendingDelete, SyncError := error_text e\<rparr>) \<and>
    retry_gate (Apply (sample_executor (bad_upstream ''pi'')) (\<lambda>_. []) in_order (sample_plan OpDelete)
        [sample_record] (sample_state [sample_record])) (RecordKey sample_record) = Some (30 * second_ns)"
proof -
  have "wrap64 1 = 1" "defaultBackoff 1 = 30 * second_ns" "Failures sample_record = 0"
    by (simp_all add: wrap64_def defaultBackoff_def shifted_backoff_def second_ns_def
        sample_record_def zero_record_def)
  with Apply_records_failure [of "sample_executor (bad_upstream ''pi'')" sample_enc
      "sample_state [sample_record]" "sample_plan OpDelete" "simple_op OpDelete sample_record" "''pi''"
      "bad_upstream ''pi''" "[sample_record]" "\<lambda>_. []" in_order]
  show ?thesis
    by (simp add: gate_open_def send_def bad_upstream_def clock_env_def sent_record_def)
qed

text \<open>
  C8. A call cut off by shutdown is not a failure. When the upstream answers with an error
  while the context is cancelled, the store entry and the retry gate stay as they were.
\<close>

theorem Apply_ignores_cancelled:
  fixes enc :: "(string, Record) go_map \<Rightarrow> error + string"
  assumes "exOps ex = file_ops enc" "keyed (fsRecords (xsStore st))"
    and "go_map_wf plan" "distinct (map op_key (plan_ops plan))" "op \<in> set (go_get [] plan name)"
    and "map_of (exUpstreams ex) name = Some u"
    and "\<And>w. \<exists>e w1. send u op (sent_record recorded op) w = (Returned (Some e), w1) \<and>
               envCtxErr (exEnv ex) w1"
  shows "file_entry (Apply ex sched it plan recorded st) (op_key op) = file_entry st (op_key op) \<and>
    retry_gate (Apply ex sched it plan recorded st) (op_key op) = retry_gate st (op_key op)"
proof (cases "Kind op \<noteq> OpNoop \<and> gate_open (envNow (exEnv ex) (xsWorld st)) (retry_gate st (op_key op))")
  case True
  then obtain w where w:
    "file_entry (Apply ex sched it plan recorded st) (op_key op)
       = result_write (fst (worker (exEnv ex) u (go_index RecordKey recorded) op w))
           (file_entry st (op_key op))"
    "retry_gate (Apply ex sched it plan recorded st) (op_key op)
       = result_gate (exBackoff ex) (envNow (exEnv ex) (xsWorld st))
           (fst (worker (exEnv ex) u (go_index RecordKey recorded) op w)) (retry_gate st (op_key op))"
    by (auto intro: Apply_attempt [OF assms(1-6)])
  obtain e w1 where "send u op (sent_record recorded op) w = (Returned (Some e), w1)"
    "envCtxErr (exEnv ex) w1"
    using assms(7) [of w] by blast
  with worker_failure [OF _ this(1), of "exEnv ex"] True w show ?thesis
    by (simp add: result_write_def result_gate_def)
next
  case False
  with Apply_op_after [OF assms(1-5), of recorded sched it] assms(6) show ?thesis
    by (simp add: op_after_def split: if_splits)
qed

definition cancelled_executor :: "(file_store, int) executor" where
  "cancelled_executor = (sample_executor (bad_upstream ''pi''))
     \<lparr>exEnv := \<lparr>envNow = (\<lambda>w. w), envCtxErr = (\<lambda>_. True)\<rparr>\<rparr>"

theorem Apply_ignores_cancelled_witness:
  "file_entry (Apply cancelled_executor (\<lambda>_. []) in_order (sample_plan OpDelete)
     [sample_record] (sample_state [sample_record])) (RecordKey sample_record) = Some sample_record"
  using Apply_ignores_cancelled [of cancelled_executor sample_enc "sample_state [sample_record]"
      "sample_plan OpDelete" "simple_op OpDelete sample_record" "''pi''" "bad_upstream ''pi''"
      "[sample_record]" "\<lambda>_. []" in_order]
  by (simp add: cancelled_executor_def send_def bad_upstream_def)

section \<open>Nothing to do, nothing done\<close>

lemma persist_skips: "persist ex (replicate n skip_result) now s nr = (s, nr)"
  by (induction n) simp_all

text \<open>An operation that leads to no call: a no-op, or one of a configured upstream that is gated.\<close>

definition idle_op :: "('s, 'w) executor \<Rightarrow> int \<Rightarrow> (string, int) go_map \<Rightarrow> string \<Rightarrow> Op \<Rightarrow> bool" where
  "idle_op ex now nr name op \<longleftrightarrow>
     Kind op = OpNoop \<or> map_of (exUpstreams ex) name \<noteq> None \<and> gated nr now op"

lemma unknown_idle:
  "\<forall>op \<in> set os. Kind op \<noteq> OpDelete \<Longrightarrow> applyUnknownUpstream ex os s = s"
  by (induction os arbitrary: s) (auto split: OpKind.splits)

lemma apply_group_idle:
  assumes "\<forall>op \<in> set os. idle_op ex now (xsNextRetry st) name op"
  shows "apply_group ex sched rec now name os st = st"
proof (cases "map_of (exUpstreams ex) name")
  case None
  then have "\<forall>op \<in> set os. Kind op \<noteq> OpDelete" using assms by (auto simp: idle_op_def)
  with None show ?thesis by (simp add: apply_group_def unknown_idle)
next
  case (Some u)
  then have "\<forall>op \<in> set os. \<not> attempted (xsNextRetry st) now op"
    using assms by (auto simp: idle_op_def attempted_def)
  with Some show ?thesis by (simp add: apply_group_def applyUpstream_idle persist_skips)
qed

lemma apply_groups_idle:
  assumes "\<forall>(name, os) \<in> set gs. \<forall>op \<in> set os. idle_op ex now (xsNextRetry st) name op"
  shows "apply_groups ex sched rec now gs st = st"
  using assms
proof (induction gs)
  case (Cons g gs)
  obtain name os where g: "g = (name, os)" by (cases g)
  with Cons.prems have "\<forall>op \<in> set os. idle_op ex now (xsNextRetry st) name op" by simp
  with Cons g show ?case by (simp add: apply_groups_Cons apply_group_idle)
qed simp

lemma apply_plan_idle:
  assumes "go_map_wf plan"
    "\<forall>name. \<forall>op \<in> set (go_get [] plan name). idle_op ex (envNow (exEnv ex) (xsWorld st)) (xsNextRetry st) name op"
  shows "apply_plan ex sched it plan recorded st = st"
  unfolding apply_plan_def
proof (rule apply_groups_idle, clarify)
  fix name os op
  assume "(name, os) \<in> set (iterate it plan)" "op \<in> set os"
  then have "op \<in> set (go_get [] plan name)"
    using assms(1) by (simp add: go_get_def)
  with assms(2) show "idle_op ex (envNow (exEnv ex) (xsWorld st)) (xsNextRetry st) name op" by blast
qed

lemma idle_pass:
  fixes enc :: "(string, Record) go_map \<Rightarrow> error + string"
  assumes "exOps ex = file_ops enc" "go_map_wf plan"
    and "\<forall>name. \<forall>op \<in> set (go_get [] plan name).
           idle_op ex (envNow (exEnv ex) (xsWorld st)) (xsNextRetry st) name op"
  shows "xsWorld (Apply ex sched it plan recorded st) = xsWorld st \<and>
    xsNextRetry (Apply ex sched it plan recorded st) = xsNextRetry st \<and>
    fsRecords (xsStore (Apply ex sched it plan recorded st)) = fsRecords (xsStore st)"
proof -
  let ?st = "\<lparr>xsStore = snd (fs_batch_begin (xsStore st)), xsNextRetry = xsNextRetry st,
    xsWorld = xsWorld st\<rparr>"
  have "apply_plan ex sched it plan recorded ?st = ?st"
    by (rule apply_plan_idle [OF assms(2)]) (use assms(3) in simp)
  then show ?thesis
    by (simp add: Apply_def assms(1) file_ops_def run_batch_def split_def Let_def)
qed

text \<open>
  A gated record does not hammer its upstream. A pass whose operations are all no-ops or
  gated makes no call to any upstream: the outside world, the store's entries and the gates are
  unchanged.
\<close>

theorem Apply_idle:
  fixes enc :: "(string, Record) go_map \<Rightarrow> error + string"
  assumes "exOps ex = file_ops enc" "go_map_wf plan"
    and "\<forall>name. \<forall>op \<in> set (go_get [] plan name).
           idle_op ex (envNow (exEnv ex) (xsWorld st)) (xsNextRetry st) name op"
  shows "xsWorld (Apply ex sched it plan recorded st) = xsWorld st \<and>
    xsNextRetry (Apply ex sched it plan recorded st) = xsNextRetry st \<and>
    fsRecords (xsStore (Apply ex sched it plan recorded st)) = fsRecords (xsStore st)"
  using assms by (rule idle_pass)

theorem Apply_idle_witness:
  "xsWorld (Apply (sample_executor (bad_upstream ''pi'')) (\<lambda>_. []) in_order (sample_plan OpUpdate) []
     ((sample_state [])\<lparr>xsNextRetry := [(RecordKey sample_record, 5)]\<rparr>)) = 0"
proof -
  have "go_get [] (sample_plan OpUpdate) name = (if name = ''pi'' then [simple_op OpUpdate sample_record] else [])"
    for name by (simp add: sample_plan_def go_get_def)
  then show ?thesis
    using Apply_idle [of "sample_executor (bad_upstream ''pi'')" sample_enc "sample_plan OpUpdate"
        "(sample_state [])\<lparr>xsNextRetry := [(RecordKey sample_record, 5)]\<rparr>" "\<lambda>_. []" in_order "[]"]
    by (simp add: idle_op_def gated_def clock_env_def)
qed

section \<open>Backoff\<close>

text \<open>
  The retry delay doubles from 30 seconds and never exceeds one hour: it is zero without
  failures, \<open>min (30 s * 2 ^ (n - 1)) (1 h)\<close> after \<open>n\<close> failures for every 64-bit count (the
  shift is capped before it could overflow), and it never shrinks as failures accumulate.
\<close>

theorem defaultBackoff_spec:
  "(n \<le> 0 \<longrightarrow> defaultBackoff n = 0) \<and>
   (1 \<le> n \<longrightarrow> defaultBackoff n = min (3600 * second_ns) (30 * second_ns * 2 ^ nat (n - 1))) \<and>
   0 \<le> defaultBackoff n \<and> defaultBackoff n \<le> 3600 * second_ns \<and>
   (n \<le> m \<longrightarrow> defaultBackoff n \<le> defaultBackoff m)"
proof (intro conjI impI)
  show "defaultBackoff n = 0" if "n \<le> 0" using that by (simp add: defaultBackoff_def shifted_backoff_def)
  show "0 \<le> defaultBackoff n" "defaultBackoff n \<le> 3600 * second_ns"
    using shifted_backoff_bounds [of "3600 * second_ns" "30 * second_ns" n]
    by (simp_all add: defaultBackoff_def second_ns_def)
  show "defaultBackoff n \<le> defaultBackoff m" if "n \<le> m"
    unfolding defaultBackoff_def
    by (rule shifted_backoff_mono) (use that in \<open>simp_all add: second_ns_def max_int64_def\<close>)
  show "defaultBackoff n = min (3600 * second_ns) (30 * second_ns * 2 ^ nat (n - 1))" if "1 \<le> n"
  proof -
    have e: "defaultBackoff n = min (3600 * second_ns) (30 * second_ns * 2 ^ nat (min (n - 1) 20))"
      unfolding defaultBackoff_def
      by (rule shifted_backoff_eq) (use that in \<open>simp_all add: second_ns_def max_int64_def\<close>)
    show ?thesis
    proof (cases "n - 1 \<le> 20")
      case True
      with e show ?thesis by simp
    next
      case False
      then have "(2::int) ^ 20 \<le> 2 ^ nat (n - 1)" by (intro power_increasing) auto
      then have "3600 * second_ns \<le> 30 * second_ns * 2 ^ nat (n - 1)" by (simp add: second_ns_def)
      with e False show ?thesis by (simp add: second_ns_def)
    qed
  qed
qed

theorem defaultBackoff_spec_witness:
  "defaultBackoff 4 = 240 * second_ns \<and> defaultBackoff 0 = 0 \<and> defaultBackoff 3 \<le> defaultBackoff 9"
  using defaultBackoff_spec [of 4 4] defaultBackoff_spec [of 0 0] defaultBackoff_spec [of 3 9]
  by (simp add: second_ns_def)

section \<open>Panics\<close>

text \<open>
  The \<open>recover\<close> in the worker starts from the operation's own record, not from the one that
  carries the failures on: for a create or update, whose record comes from a source with no
  failures, the count is one after any number of panics, so the gate stays at its first step;
  and a panicking delete is recorded as failed, not as pending delete.
\<close>

lemma panic_forgets_failures:
  assumes "\<And>w. \<exists>m w1. upUpsert u ((opRecord op)\<lparr>Failures := Failures prior\<rparr>) w = (Panicked m, w1)"
    and "map_of rec (op_key op) = Some prior" "Kind op = OpUpdate" "Failures (opRecord op) = 0"
  shows "Failures (resRecord (fst (worker env u rec op w))) = 1"
proof -
  obtain m w1 where "upUpsert u ((opRecord op)\<lparr>Failures := Failures prior\<rparr>) w = (Panicked m, w1)"
    using assms(1) by blast
  with assms(2-4) show ?thesis
    by (simp add: worker_def do_op_def go_get_def Let_def panic_result_def wrap64_def)
qed
end
