(* ===== verification/Collect.thy ===== *)
theory Collect
  imports Diff Upstreams
begin

text \<open>
  \<open>internal/reconcile/collect.go\<close> and \<open>upstream_collect.go\<close>, with the part of
  \<open>pkg/source/source.go\<close> they call: reading the sources into the desired record set with the
  last good snapshot as fallback, and fetching the upstreams' actual records no more often than
  their verification interval. A panic of a source or of a \<open>List\<close> leaves the collector as it was
  at that point. Logging and metrics are left out. Proved here: what the sources contribute,
  which ones count as read cleanly, and that verification respects the interval.
\<close>

section \<open>Sources\<close>

text \<open>
  \<open>source.Snapshotter\<close>; its \<open>Notify\<close> is the environment of the reconcile loop, see \<open>Reconcile\<close>.
\<close>

record 'w snapshotter =
  snapName :: string
  snapSnapshot :: "'w \<Rightarrow> (error + Record list) outcome \<times> 'w"

type_synonym last_good = "(string, Record list) go_map"

text \<open>The loop of \<open>Collector.Collect\<close>, with the two results it builds up as arguments.\<close>

fun collect_sources ::
  "'w snapshotter list \<Rightarrow> Record list \<Rightarrow> (string, bool) go_map \<Rightarrow> last_good \<Rightarrow> 'w
     \<Rightarrow> (Record list \<times> (string, bool) go_map) outcome \<times> last_good \<times> 'w" where
  "collect_sources [] desired snapshotted lg w = (Returned (desired, snapshotted), lg, w)"
| "collect_sources (src # srcs) desired snapshotted lg w =
     (case snapSnapshot src w of
        (Panicked m, w1) \<Rightarrow> (Panicked m, lg, w1)
      | (Returned (Inl err), w1) \<Rightarrow>
          collect_sources srcs (desired @ go_get [] lg (snapName src)) snapshotted lg w1
      | (Returned (Inr recs), w1) \<Rightarrow>
          collect_sources srcs (desired @ recs) (go_put (snapName src) True snapshotted)
            (go_put (snapName src) recs lg) w1)"

definition CollectDesired ::
  "'w snapshotter list \<Rightarrow> last_good \<Rightarrow> 'w
     \<Rightarrow> (Record list \<times> (string, bool) go_map) outcome \<times> last_good \<times> 'w" where
  "CollectDesired srcs lg w = collect_sources srcs [] [] lg w"

section \<open>Upstream verification\<close>

record upstream_collect_state =
  ucActual :: "(string, Record list) go_map"
  ucFetched :: "(string, bool) go_map"
  ucNextCheck :: "(string, int) go_map"

text \<open>The body of the loop over the upstreams: \<open>None\<close> for a \<open>continue\<close> before the call.\<close>

definition check_due ::
  "(string, int) go_map \<Rightarrow> (string, int) go_map \<Rightarrow> int \<Rightarrow> string \<Rightarrow> bool" where
  "check_due interval nextCheck now name \<longleftrightarrow>
     0 < go_get 0 interval name \<and>
     (case map_of nextCheck name of None \<Rightarrow> True | Some next \<Rightarrow> \<not> now < next)"

fun collect_upstreams ::
  "(string, int) go_map \<Rightarrow> int \<Rightarrow> (string \<times> 'w upstream) list \<Rightarrow> upstream_collect_state \<Rightarrow> 'w
     \<Rightarrow> unit outcome \<times> upstream_collect_state \<times> 'w" where
  "collect_upstreams interval now [] st w = (Returned (), st, w)"
| "collect_upstreams interval now ((name, u) # us) st w =
     (case upList u of
        None \<Rightarrow> collect_upstreams interval now us st w
      | Some list \<Rightarrow>
          if \<not> check_due interval (ucNextCheck st) now name then collect_upstreams interval now us st w
          else
            (case list w of
               (Panicked m, w1) \<Rightarrow> (Panicked m, st, w1)
             | (Returned (Inl err), w1) \<Rightarrow> collect_upstreams interval now us st w1
             | (Returned (Inr records), w1) \<Rightarrow>
                 collect_upstreams interval now us
                   \<lparr>ucActual = go_put name records (ucActual st),
                    ucFetched = go_put name True (ucFetched st),
                    ucNextCheck = go_put name (now + go_get 0 interval name) (ucNextCheck st)\<rparr> w1))"

definition CollectUpstreams ::
  "(string \<times> 'w upstream) iteration \<Rightarrow> (string, 'w upstream) go_map \<Rightarrow> (string, int) go_map \<Rightarrow> int
     \<Rightarrow> (string, int) go_map \<Rightarrow> 'w \<Rightarrow> unit outcome \<times> upstream_collect_state \<times> 'w" where
  "CollectUpstreams it ups interval now nextCheck w =
     collect_upstreams interval now (iterate it ups)
       \<lparr>ucActual = [], ucFetched = [], ucNextCheck = nextCheck\<rparr> w"

section \<open>What a collection returns\<close>

text \<open>A source that fails whenever it is read, and one that always reads to the same records.\<close>

definition always_fails :: "'w snapshotter \<Rightarrow> bool" where
  "always_fails src \<longleftrightarrow> (\<forall>w. \<exists>err w1. snapSnapshot src w = (Returned (Inl err), w1))"

definition reads_as :: "'w snapshotter \<Rightarrow> Record list \<Rightarrow> bool" where
  "reads_as src recs \<longleftrightarrow> (\<forall>w. \<exists>w1. snapSnapshot src w = (Returned (Inr recs), w1))"

lemma always_fails_not_read: "snapSnapshot src w = (Returned (Inr recs), w1) \<Longrightarrow> \<not> always_fails src"
  by (metis always_fails_def Inl_Inr_False outcome.inject(1) prod.inject)

lemma reads_as_unique: "snapSnapshot src w = (r, w1) \<Longrightarrow> reads_as src recs \<Longrightarrow> r = Returned (Inr recs)"
  by (metis reads_as_def prod.inject)

text \<open>Induction along a collection that returns.\<close>

lemma collect_induct [consumes 1, case_names finish fail ok]:
  assumes "collect_sources srcs d sn lg w = (Returned (D, S), lg', w')"
    and "P [] D S lg' w'"
    and "\<And>src srcs d sn lg w err w1. snapSnapshot src w = (Returned (Inl err), w1) \<Longrightarrow>
      collect_sources srcs (d @ go_get [] lg (snapName src)) sn lg w1 = (Returned (D, S), lg', w') \<Longrightarrow>
      P srcs (d @ go_get [] lg (snapName src)) sn lg w1 \<Longrightarrow> P (src # srcs) d sn lg w"
    and "\<And>src srcs d sn lg w recs w1. snapSnapshot src w = (Returned (Inr recs), w1) \<Longrightarrow>
      collect_sources srcs (d @ recs) (go_put (snapName src) True sn) (go_put (snapName src) recs lg) w1
        = (Returned (D, S), lg', w') \<Longrightarrow>
      P srcs (d @ recs) (go_put (snapName src) True sn) (go_put (snapName src) recs lg) w1 \<Longrightarrow>
      P (src # srcs) d sn lg w"
  shows "P srcs d sn lg w"
  using assms(1)
proof (induction srcs arbitrary: d sn lg w)
  case Nil
  with assms(2) show ?case by simp
next
  case (Cons src srcs)
  obtain r w1 where r: "snapSnapshot src w = (r, w1)" by (cases "snapSnapshot src w")
  show ?case
  proof (cases r)
    case (Panicked m)
    with Cons.prems r show ?thesis by simp
  next
    case (Returned x)
    then show ?thesis
      using Cons.prems r Cons.IH assms(3,4) by (cases x) simp_all
  qed
qed

lemma collect_snapshotted:
  assumes "collect_sources srcs d sn lg w = (Returned (D, S), lg', w')" "go_get False S n"
  shows "go_get False sn n \<or> (\<exists>src \<in> set srcs. snapName src = n \<and> \<not> always_fails src)"
  using assms(1)
proof (induction rule: collect_induct)
  case (ok src srcs d sn lg w recs w1)
  then show ?case using always_fails_not_read [OF ok(1)] by (auto split: if_splits)
qed (use assms(2) in auto)

lemma collect_keeps_desired:
  assumes "collect_sources srcs d sn lg w = (Returned (D, S), lg', w')"
  shows "set d \<subseteq> set D"
  using assms by (induction rule: collect_induct) auto

lemma collect_last_good:
  assumes "collect_sources srcs d sn lg w = (Returned (D, S), lg', w')"
  shows "\<forall>s \<in> set srcs. snapName s = n \<longrightarrow> always_fails s \<Longrightarrow>
    go_get [] lg' n = go_get [] lg n \<and> (n \<in> snapName ` set srcs \<longrightarrow> set (go_get [] lg n) \<subseteq> set D)"
  using assms
proof (induction rule: collect_induct)
  case (fail src srcs d sn lg w err w1)
  have "set (go_get [] lg (snapName src)) \<subseteq> set D"
    using collect_keeps_desired [OF fail(2)] by simp
  with fail show ?case by auto
next
  case (ok src srcs d sn lg w recs w1)
  then have "snapName src \<noteq> n" using always_fails_not_read [OF ok(1)] by auto
  with ok show ?case by simp
qed simp

text \<open>
  A source that cannot be read is never taken for an empty one. If every configured source
  of a name fails, that name is not among those read cleanly, its last good records are all
  still desired, and the snapshot remembered for it does not change.
\<close>

theorem Collect_failed_source:
  assumes "CollectDesired srcs lg w = (Returned (desired, snapshotted), lg', w')"
    and "n \<in> snapName ` set srcs" "\<forall>s \<in> set srcs. snapName s = n \<longrightarrow> always_fails s"
  shows "\<not> go_get False snapshotted n \<and> set (go_get [] lg n) \<subseteq> set desired \<and>
    go_get [] lg' n = go_get [] lg n"
proof -
  note c = assms(1) [unfolded CollectDesired_def]
  have "\<not> go_get False snapshotted n"
    using collect_snapshotted [OF c, of n] assms(3) by (auto simp: go_get_def)
  with collect_last_good [OF c assms(3)] assms(2) show ?thesis by simp
qed

definition failing_source :: "string \<Rightarrow> 'w snapshotter" where
  [go_eval]: "failing_source name =
     \<lparr>snapName = name, snapSnapshot = (\<lambda>w. (Returned (Inl (OtherError ''unreachable'')), w))\<rparr>"

definition fixed_source :: "string \<Rightarrow> Record list \<Rightarrow> 'w snapshotter" where
  [go_eval]: "fixed_source name recs =
     \<lparr>snapName = name, snapSnapshot = (\<lambda>w. (Returned (Inr recs), w))\<rparr>"

lemma failing_source_fails: "always_fails (failing_source name)" "snapName (failing_source name) = name"
  by (simp_all add: always_fails_def failing_source_def)

lemma fixed_source_reads: "reads_as (fixed_source name recs) recs" "snapName (fixed_source name recs) = name"
  by (simp_all add: reads_as_def fixed_source_def)

theorem Collect_failed_source_witness:
  "\<exists>desired snapshotted. CollectDesired [failing_source ''d'', fixed_source ''f'' []] [(''d'', [sample_record])] (0::int)
     = (Returned (desired, snapshotted), [(''d'', [sample_record]), (''f'', [])], 0) \<and>
   \<not> go_get False snapshotted ''d'' \<and> sample_record \<in> set desired"
proof -
  have c: "CollectDesired [failing_source ''d'', fixed_source ''f'' []] [(''d'', [sample_record])] (0::int)
     = (Returned ([sample_record], [(''f'', True)]), [(''d'', [sample_record]), (''f'', [])], 0)"
    by (simp add: CollectDesired_def failing_source_def fixed_source_def go_get_def)
  from Collect_failed_source [OF c, of "''d''"] c show ?thesis
    by (simp add: failing_source_fails fixed_source_reads go_get_def)
qed

text \<open>When every source can be read, the desired records are those of all sources in order.\<close>

lemma collect_clean:
  assumes "collect_sources srcs d sn lg w = (Returned (D, S), lg', w')"
  shows "\<forall>s \<in> set srcs. reads_as s (content s) \<Longrightarrow>
    D = d @ concat (map content srcs) \<and>
    (\<forall>n. go_get False S n \<longleftrightarrow> go_get False sn n \<or> n \<in> snapName ` set srcs)"
  using assms
proof (induction rule: collect_induct)
  case (fail src srcs d sn lg w err w1)
  then show ?case using reads_as_unique [OF fail(1), of "content src"] by simp
next
  case (ok src srcs d sn lg w recs w1)
  then have "recs = content src" using reads_as_unique [OF ok(1), of "content src"] by simp
  with ok show ?case by auto
qed simp

lemma collect_clean_returns:
  "\<forall>s \<in> set srcs. reads_as s (content s) \<Longrightarrow>
     \<exists>D S lg' w'. collect_sources srcs d sn lg w = (Returned (D, S), lg', w')"
proof (induction srcs arbitrary: d sn lg w)
  case (Cons src srcs)
  from Cons.prems obtain w1 where "snapSnapshot src w = (Returned (Inr (content src)), w1)"
    unfolding reads_as_def by fastforce
  with Cons show ?case by simp
qed simp

section \<open>The pace of verification\<close>

lemma collect_upstreams_skip:
  "n \<notin> fst ` set us \<Longrightarrow> collect_upstreams interval now us st w = (r, st', w') \<Longrightarrow>
     map_of (ucNextCheck st') n = map_of (ucNextCheck st) n \<and>
     map_of (ucFetched st') n = map_of (ucFetched st) n \<and> map_of (ucActual st') n = map_of (ucActual st) n"
proof (induction interval now us st w rule: collect_upstreams.induct)
  case (2 interval now name u us st w)
  then show ?case
    by (auto split: option.splits if_splits prod.splits outcome.splits sum.splits)
qed auto

text \<open>Upstreams that are not due are never consulted: leaving them out changes nothing.\<close>

lemma collect_upstreams_due:
  assumes "distinct (map fst us)" "\<forall>n \<in> fst ` set us. map_of (ucNextCheck st) n = map_of nc n"
  shows "collect_upstreams interval now us st w
     = collect_upstreams interval now (filter (\<lambda>(n, u). check_due interval nc now n) us) st w"
  using assms
proof (induction interval now us st w rule: collect_upstreams.induct)
  case (2 interval now name u us st w)
  have eq: "check_due interval (ucNextCheck st) now name = check_due interval nc now name"
    using 2(6) by (simp add: check_due_def)
  have rest: "\<forall>n \<in> fst ` set us. map_of (ucNextCheck st) n = map_of nc n" using 2(6) by simp
  show ?case
  proof (cases "upList u")
    case None
    with 2(1) [OF None] 2(5) rest show ?thesis by simp
  next
    case (Some list)
    show ?thesis
    proof (cases "check_due interval nc now name")
      case False
      with 2(2) [OF Some] 2(5) rest Some eq show ?thesis by simp
    next
      case True
      obtain r w1 where r: "list w = (r, w1)" by (cases "list w")
      have fresh: "\<forall>n \<in> fst ` set us. map_of (go_put name (now + go_get 0 interval name) (ucNextCheck st)) n = map_of nc n"
        using rest 2(5) by auto
      show ?thesis
      proof (cases r)
        case (Panicked m)
        with Some True eq r show ?thesis by simp
      next
        case (Returned x)
        show ?thesis
        proof (cases x)
          case (Inl err)
          with 2(3) [OF Some _ r [symmetric] Returned Inl] 2(5) rest Some True eq r Returned
          show ?thesis by simp
        next
          case (Inr recs)
          with 2(4) [OF Some _ r [symmetric] Returned Inr] 2(5) fresh Some True eq r Returned
          show ?thesis by simp
        qed
      qed
    qed
  qed
qed simp

lemma collect_upstreams_grows:
  assumes "collect_upstreams interval now us st w = (r, st', w')"
  shows "map_of (ucNextCheck st') n = map_of (ucNextCheck st) n \<and>
      go_get False (ucFetched st') n = go_get False (ucFetched st) n \<or>
    check_due interval (ucNextCheck st) now n \<and>
      map_of (ucNextCheck st') n = Some (now + go_get 0 interval n)"
  using assms
proof (induction interval now us st w rule: collect_upstreams.induct)
  case (2 interval now name u us st w)
  show ?case
  proof (cases "upList u")
    case None
    with 2(1) [OF None] 2(5) show ?thesis by simp
  next
    case (Some list)
    show ?thesis
    proof (cases "check_due interval (ucNextCheck st) now name")
      case False
      with 2(2) [OF Some] 2(5) Some show ?thesis by simp
    next
      case True
      then have due: "\<not> \<not> check_due interval (ucNextCheck st) now name" by simp
      obtain q w1 where q: "list w = (q, w1)" by (cases "list w")
      show ?thesis
      proof (cases q)
        case (Panicked m)
        with 2(5) Some True q show ?thesis by simp
      next
        case (Returned x)
        show ?thesis
        proof (cases x)
          case (Inl err)
          with 2(3) [OF Some due q [symmetric] Returned Inl] 2(5) Some True q Returned
          show ?thesis by simp
        next
          case (Inr recs)
          let ?st = "\<lparr>ucActual = go_put name recs (ucActual st),
            ucFetched = go_put name True (ucFetched st),
            ucNextCheck = go_put name (now + go_get 0 interval name) (ucNextCheck st)\<rparr>"
          have ih: "map_of (ucNextCheck st') n = map_of (ucNextCheck ?st) n \<and>
              go_get False (ucFetched st') n = go_get False (ucFetched ?st) n \<or>
            check_due interval (ucNextCheck ?st) now n \<and>
              map_of (ucNextCheck st') n = Some (now + go_get 0 interval n)"
            using 2(4) [OF Some due q [symmetric] Returned Inr] 2(5) Some True q Returned Inr by simp
          show ?thesis
          proof (cases "n = name")
            case True
            with ih \<open>check_due interval (ucNextCheck st) now name\<close> show ?thesis
              by (auto simp: check_due_def)
          next
            case False
            with ih show ?thesis by (simp add: check_due_def)
          qed
        qed
      qed
    qed
  qed
qed simp

text \<open>
  Verification keeps its pace. An upstream counts as fetched in a pass only if verification is
  enabled for it and its last fetch is at least the interval ago; its next check is then one
  interval ahead, so no pass before that time fetches it again.
\<close>

theorem verification_pace:
  assumes "CollectUpstreams it ups interval now nextCheck w = (r, st', w')"
    and "go_get False (ucFetched st') n"
  shows "0 < go_get 0 interval n \<and> check_due interval nextCheck now n \<and>
    map_of (ucNextCheck st') n = Some (now + go_get 0 interval n) \<and>
    (\<forall>t < now + go_get 0 interval n. \<not> check_due interval (ucNextCheck st') t n)"
proof -
  have "check_due interval nextCheck now n \<and>
      map_of (ucNextCheck st') n = Some (now + go_get 0 interval n)"
    using collect_upstreams_grows [OF assms(1) [unfolded CollectUpstreams_def], of n] assms(2)
    by (auto simp: go_get_def)
  then show ?thesis by (auto simp: check_due_def)
qed

definition listing_upstream :: "string \<Rightarrow> Record list \<Rightarrow> int upstream" where
  [go_eval]: "listing_upstream name recs = \<lparr>upName = name, upUpsert = (\<lambda>r w. (Returned None, w + 1)),
     upDelete = (\<lambda>r w. (Returned None, w + 1)), upList = Some (\<lambda>w. (Returned (Inr recs), w + 1)),
     upDriftEqual = None\<rparr>"

theorem verification_pace_witness:
  "\<exists>st' w'. CollectUpstreams in_order [(''pi'', listing_upstream ''pi'' [])] [(''pi'', 60)] 100 [] 0
       = (Returned (), st', w') \<and> map_of (ucNextCheck st') ''pi'' = Some 160 \<and>
     \<not> check_due [(''pi'', 60)] (ucNextCheck st') 159 ''pi''"
proof -
  let ?st = "\<lparr>ucActual = [(''pi'', [])], ucFetched = [(''pi'', True)], ucNextCheck = [(''pi'', 160)]\<rparr>"
  have c: "CollectUpstreams in_order [(''pi'', listing_upstream ''pi'' [])] [(''pi'', 60)] 100 [] 0
      = (Returned (), ?st, 1)"
    by (simp add: CollectUpstreams_def listing_upstream_def check_due_def go_get_def)
  from verification_pace [OF c, of "''pi''"] c show ?thesis by (simp add: go_get_def)
qed

end
