(* ===== verification/Reconcile.thy ===== *)
theory Reconcile
  imports Collect Executor
begin

text \<open>
  \<open>internal/reconcile/reconcile.go\<close>: the reconciler, one pass of it, and the \<open>Run\<close> loop with its
  channels and timers as a step relation. A pass is a function of the reconciler, of its state
  (store, gates, last good snapshots, next verifications, count of store-read failures, outside
  world) and of the choices the language leaves open (\<open>pass_choices\<close>). Logging and the drift
  metrics are left out. Proved here: a source that cannot be read never loses a record, in a pass
  and over any run of the loop; a pass with cooperating upstreams reaches the desired state and
  the next one has nothing to do; an abandoned pass writes nothing; no change signal is lost.
\<close>

section \<open>Reconciler\<close>

record ('s, 'w) reconciler =
  rcOps :: "'s store_ops"
  rcSources :: "'w snapshotter list"
  rcUpstreams :: "(string, 'w upstream) go_map"
  rcVerify :: "(string, int) go_map"
  rcDrift :: "(string, Record \<Rightarrow> Record \<Rightarrow> bool) go_map"
  rcExecutor :: "('s, 'w) executor"
  rcInterval :: int
  rcDebounce :: int
  rcEnv :: "'w env"
  rcSleep :: "int \<Rightarrow> 'w \<Rightarrow> 'w"

record ('s, 'w) rec_state =
  rsStore :: 's
  rsNextRetry :: "(string, int) go_map"
  rsLastGood :: last_good
  rsNextCheck :: "(string, int) go_map"
  rsListFailures :: int
  rsWorld :: 'w

fun buildDriftComparers ::
  "(string \<times> 'w upstream) list \<Rightarrow> (string, Record \<Rightarrow> Record \<Rightarrow> bool) go_map" where
  "buildDriftComparers [] = []"
| "buildDriftComparers ((name, u) # us) =
     (case upDriftEqual u of
        None \<Rightarrow> buildDriftComparers us
      | Some f \<Rightarrow> go_put name f (buildDriftComparers us))"

text \<open>
  \<open>New\<close>. The clock, the context and the waiting of the outside world are arguments: \<open>env\<close> and
  \<open>sleep\<close>, which says what the world is like after a wait.
\<close>

definition NewReconciler ::
  "'s store_ops \<Rightarrow> 'w snapshotter list \<Rightarrow> (string, 'w upstream) go_map \<Rightarrow> (string, int) go_map
     \<Rightarrow> int \<Rightarrow> int \<Rightarrow> int \<Rightarrow> 'w env \<Rightarrow> (int \<Rightarrow> 'w \<Rightarrow> 'w) \<Rightarrow> ('s, 'w) reconciler" where
  "NewReconciler ops srcs ups verify interval debounce maxConcurrency env sleep =
     \<lparr>rcOps = ops, rcSources = srcs, rcUpstreams = ups, rcVerify = verify,
      rcDrift = buildDriftComparers ups,
      rcExecutor = NewExecutor ops ups maxConcurrency None env,
      rcInterval = interval, rcDebounce = debounce, rcEnv = env, rcSleep = sleep\<rparr>"

fun configured_names :: "'w snapshotter list \<Rightarrow> (string, bool) go_map" where
  "configured_names [] = []"
| "configured_names (s # ss) = go_put (snapName s) True (configured_names ss)"

fun mark_orphans ::
  "(string, bool) go_map \<Rightarrow> Record list \<Rightarrow> (string, bool) go_map \<Rightarrow> (string, bool) go_map" where
  "mark_orphans configured [] snapshotted = snapshotted"
| "mark_orphans configured (r # rs) snapshotted =
     mark_orphans configured rs
       (if \<not> go_get False configured (SourceName r) then go_put (SourceName r) True snapshotted
        else snapshotted)"

definition markOrphanSources ::
  "'w snapshotter list \<Rightarrow> Record list \<Rightarrow> (string, bool) go_map \<Rightarrow> (string, bool) go_map" where
  "markOrphanSources srcs recorded snapshotted =
     mark_orphans (configured_names srcs) recorded snapshotted"

definition storeReadBackoff :: "int \<Rightarrow> int" where
  "storeReadBackoff failures = shifted_backoff second_ns (30 * second_ns) failures"

section \<open>One pass\<close>

record 'w pass_choices =
  pcList :: "(string \<times> Record) iteration"
  pcDiff :: diff_orders
  pcUpstreams :: "(string \<times> 'w upstream) iteration"
  pcPlan :: "(string \<times> Op list) iteration"
  pcSched :: "string \<Rightarrow> nat list"

text \<open>
  \<open>reconcile\<close>: a panic of a source or of \<open>List\<close> is recovered and the pass abandoned, so what the
  collectors had stored by then stays.
\<close>

definition reconcile ::
  "('s, 'w) reconciler \<Rightarrow> 'w pass_choices \<Rightarrow> ('s, 'w) rec_state \<Rightarrow> ('s, 'w) rec_state" where
  "reconcile rc pc st =
     (if envCtxErr (rcEnv rc) (rsWorld st) then st
      else case CollectDesired (rcSources rc) (rsLastGood st) (rsWorld st) of
        (Panicked m, lg, w) \<Rightarrow> st\<lparr>rsLastGood := lg, rsWorld := w\<rparr>
      | (Returned (desired, snapshotted), lg, w) \<Rightarrow>
      (case stList (rcOps rc) (pcList pc) (rsStore st) of
         Inl err \<Rightarrow>
           (let failures = wrap64 (rsListFailures st + 1) in
            st\<lparr>rsLastGood := lg, rsListFailures := failures,
               rsWorld := rcSleep rc (storeReadBackoff failures) w\<rparr>)
       | Inr recorded \<Rightarrow>
           (let snapshotted' = markOrphanSources (rcSources rc) recorded snapshotted in
            case CollectUpstreams (pcUpstreams pc) (rcUpstreams rc) (rcVerify rc)
                   (envNow (rcEnv rc) w) (rsNextCheck st) w of
              (Panicked m, uc, w1) \<Rightarrow>
                st\<lparr>rsLastGood := lg, rsListFailures := 0, rsNextCheck := ucNextCheck uc, rsWorld := w1\<rparr>
            | (Returned _, uc, w1) \<Rightarrow>
                (let plan = diff (pcDiff pc) desired recorded snapshotted'
                              \<lparr>Actual = ucActual uc, Fetched = ucFetched uc, Compare = rcDrift rc\<rparr>;
                     xs = Apply (rcExecutor rc) (pcSched pc) (pcPlan pc) plan recorded
                            \<lparr>xsStore = rsStore st, xsNextRetry = rsNextRetry st, xsWorld = w1\<rparr>
                 in \<lparr>rsStore = xsStore xs, rsNextRetry = xsNextRetry xs, rsLastGood = lg,
                     rsNextCheck = ucNextCheck uc, rsListFailures = 0, rsWorld = xsWorld xs\<rparr>))))"

section \<open>Which sources count as read\<close>

lemma configured_names_get: "go_get False (configured_names srcs) n \<longleftrightarrow> n \<in> snapName ` set srcs"
  by (induction srcs) (auto simp: go_get_def)

lemma mark_orphans_get:
  "go_get False (mark_orphans conf rs sn) n \<longleftrightarrow>
     go_get False sn n \<or> (\<not> go_get False conf n \<and> (\<exists>r \<in> set rs. SourceName r = n))"
  by (induction conf rs sn rule: mark_orphans.induct) auto

lemma markOrphanSources_get:
  "go_get False (markOrphanSources srcs recorded sn) n \<longleftrightarrow>
     go_get False sn n \<or> (n \<notin> snapName ` set srcs \<and> (\<exists>r \<in> set recorded. SourceName r = n))"
  by (simp add: markOrphanSources_def mark_orphans_get configured_names_get)

lemma NewReconciler_simps [simp]:
  "rcOps (NewReconciler ops srcs ups v i d mc env sl) = ops"
  "rcSources (NewReconciler ops srcs ups v i d mc env sl) = srcs"
  "rcUpstreams (NewReconciler ops srcs ups v i d mc env sl) = ups"
  "rcVerify (NewReconciler ops srcs ups v i d mc env sl) = v"
  "rcEnv (NewReconciler ops srcs ups v i d mc env sl) = env"
  "rcSleep (NewReconciler ops srcs ups v i d mc env sl) = sl"
  "rcInterval (NewReconciler ops srcs ups v i d mc env sl) = i"
  "rcDebounce (NewReconciler ops srcs ups v i d mc env sl) = d"
  "exOps (rcExecutor (NewReconciler ops srcs ups v i d mc env sl)) = ops"
  "exUpstreams (rcExecutor (NewReconciler ops srcs ups v i d mc env sl)) = ups"
  "exEnv (rcExecutor (NewReconciler ops srcs ups v i d mc env sl)) = env"
  by (simp_all add: NewReconciler_def NewExecutor_def)

text \<open>A pass either leaves store and gates alone or applies a plan to them.\<close>

lemma reconcile_cases:
  obtains (abandoned) "rsStore (reconcile rc pc st) = rsStore st"
      "rsNextRetry (reconcile rc pc st) = rsNextRetry st"
  | (applied) desired snapshotted lg w recorded uc w1 where
      "\<not> envCtxErr (rcEnv rc) (rsWorld st)"
      "CollectDesired (rcSources rc) (rsLastGood st) (rsWorld st) = (Returned (desired, snapshotted), lg, w)"
      "stList (rcOps rc) (pcList pc) (rsStore st) = Inr recorded"
      "CollectUpstreams (pcUpstreams pc) (rcUpstreams rc) (rcVerify rc) (envNow (rcEnv rc) w)
         (rsNextCheck st) w = (Returned (), uc, w1)"
      "reconcile rc pc st =
        (let xs = Apply (rcExecutor rc) (pcSched pc) (pcPlan pc)
            (diff (pcDiff pc) desired recorded
               (markOrphanSources (rcSources rc) recorded snapshotted)
               \<lparr>Actual = ucActual uc, Fetched = ucFetched uc, Compare = rcDrift rc\<rparr>) recorded
            \<lparr>xsStore = rsStore st, xsNextRetry = rsNextRetry st, xsWorld = w1\<rparr>
         in \<lparr>rsStore = xsStore xs, rsNextRetry = xsNextRetry xs, rsLastGood = lg,
             rsNextCheck = ucNextCheck uc, rsListFailures = 0, rsWorld = xsWorld xs\<rparr>)"
proof (cases "envCtxErr (rcEnv rc) (rsWorld st)")
  case True
  then show ?thesis by (intro abandoned) (simp_all add: reconcile_def)
next
  case ctx: False
  obtain r lg w where c: "CollectDesired (rcSources rc) (rsLastGood st) (rsWorld st) = (r, lg, w)"
    by (cases "CollectDesired (rcSources rc) (rsLastGood st) (rsWorld st)")
  show ?thesis
  proof (cases r)
    case (Panicked m)
    with ctx c show ?thesis by (intro abandoned) (simp_all add: reconcile_def)
  next
    case (Returned ds)
    obtain desired snapshotted where ds: "ds = (desired, snapshotted)" by (cases ds)
    show ?thesis
    proof (cases "stList (rcOps rc) (pcList pc) (rsStore st)")
      case (Inl err)
      with ctx c Returned ds show ?thesis by (intro abandoned) (simp_all add: reconcile_def Let_def)
    next
      case (Inr recorded)
      obtain q uc w1 where u: "CollectUpstreams (pcUpstreams pc) (rcUpstreams rc) (rcVerify rc)
          (envNow (rcEnv rc) w) (rsNextCheck st) w = (q, uc, w1)"
        by (cases "CollectUpstreams (pcUpstreams pc) (rcUpstreams rc) (rcVerify rc)
          (envNow (rcEnv rc) w) (rsNextCheck st) w")
      show ?thesis
      proof (cases q)
        case (Panicked m)
        with ctx c Returned ds Inr u show ?thesis
          by (intro abandoned) (simp_all add: reconcile_def Let_def)
      next
        case (Returned x)
        show ?thesis
          by (rule applied [OF ctx _ Inr])
            (use ctx c \<open>r = Returned ds\<close> ds Inr u Returned in \<open>simp_all add: reconcile_def Let_def\<close>)
      qed
    qed
  qed
qed

section \<open>No data means no change\<close>

abbreviation store_entry :: "(file_store, 'w) rec_state \<Rightarrow> string \<Rightarrow> Record option" where
  "store_entry st k \<equiv> map_of (fsRecords (rsStore st)) k"

lemma diff_distinct:
  "distinct (map op_key (plan_ops (diff ord desired recorded snap ver)))"
  by (rule plan_keys_distinct)

text \<open>The fate of a pass's operations, on the file store.\<close>

lemma reconcile_keyed:
  fixes enc :: "(string, Record) go_map \<Rightarrow> error + string"
  assumes "rc = NewReconciler (file_ops enc) srcs ups verify interval debounce maxConc env sleep"
    and "keyed (fsRecords (rsStore st))"
  shows "keyed (fsRecords (rsStore (reconcile rc pc st)))"
proof (cases rule: reconcile_cases [of rc pc st])
  case abandoned
  then show ?thesis using assms(2) by simp
next
  case (applied desired snapshotted lg w recorded uc w1)
  have "exOps (rcExecutor rc) = file_ops enc" by (simp add: assms(1))
  from fstore.Apply_effect [OF this, of "\<lparr>xsStore = rsStore st, xsNextRetry = rsNextRetry st, xsWorld = w1\<rparr>",
      OF _ diff_wf diff_distinct] assms(2)
  show ?thesis by (simp add: applied(5) Let_def)
qed

lemma failed_source_kept:
  fixes enc :: "(string, Record) go_map \<Rightarrow> error + string"
  assumes rc: "rc = NewReconciler (file_ops enc) srcs ups verify interval debounce maxConc env sleep"
    and keyed: "keyed (fsRecords (rsStore st))"
    and n: "n \<in> snapName ` set srcs" "\<forall>s \<in> set srcs. snapName s = n \<longrightarrow> always_fails s"
    and r: "store_entry st k = Some r" "SourceName r = n"
  shows "store_entry (reconcile rc pc st) k \<noteq> None"
proof (cases rule: reconcile_cases [of rc pc st])
  case abandoned
  then show ?thesis using r by simp
next
  case (applied desired snapshotted lg w recorded uc w1)
  let ?snap = "markOrphanSources srcs recorded snapshotted"
  let ?plan = "diff (pcDiff pc) desired recorded ?snap
    \<lparr>Actual = ucActual uc, Fetched = ucFetched uc, Compare = rcDrift rc\<rparr>"
  let ?xs = "\<lparr>xsStore = rsStore st, xsNextRetry = rsNextRetry st, xsWorld = w1\<rparr>"
  have ops: "exOps (rcExecutor rc) = file_ops enc" and srcs: "rcSources rc = srcs"
    by (simp_all add: rc)
  show ?thesis
  proof
    assume "store_entry (reconcile rc pc st) k = None"
    then have gone: "file_entry (Apply (rcExecutor rc) (pcSched pc) (pcPlan pc) ?plan recorded ?xs) k = None"
      by (simp add: applied(5) Let_def srcs)
    obtain name op where op: "op \<in> set (go_get [] ?plan name)" "Kind op = OpDelete" "op_key op = k"
      using Apply_forgets [OF ops _ diff_wf diff_distinct _ gone, of r] keyed r(1) by auto
    from planned_delete [OF mem_plan_opsI [OF op(1)] op(2)]
    have p: "opRecord op \<in> set recorded" "go_get False ?snap (SourceName (opRecord op))" by simp_all
    have "stList (file_ops enc) (pcList pc) (rsStore st) = Inr recorded"
      using applied(3) by (simp add: rc)
    from fstore.list_mem_iff [OF keyed this] p(1) op(3) r(1) have "opRecord op = r" by simp
    with p(2) r(2) have "go_get False ?snap n" by simp
    then have "go_get False snapshotted n" using n(1) by (simp add: markOrphanSources_get)
    moreover have "\<not> go_get False snapshotted n"
      using collect_snapshotted [OF applied(2) [unfolded CollectDesired_def], of n] n(2)
      by (auto simp: rc go_get_def)
    ultimately show False by simp
  qed
qed

text \<open>
  C10. No data means no change, for a whole pass. A record of a configured source that cannot be
  read in this pass keeps its entry in the store: whatever the other sources return, whatever
  the upstreams, the store's disk and the scheduler do, a failing read never leads to a
  deletion.
\<close>

theorem reconcile_keeps_failed_source:
  fixes enc :: "(string, Record) go_map \<Rightarrow> error + string"
  assumes "rc = NewReconciler (file_ops enc) srcs ups verify interval debounce maxConc env sleep"
    and "keyed (fsRecords (rsStore st))"
    and "n \<in> snapName ` set srcs" "\<forall>s \<in> set srcs. snapName s = n \<longrightarrow> always_fails s"
    and "store_entry st k = Some r" "SourceName r = n"
  shows "store_entry (reconcile rc pc st) k \<noteq> None"
  using assms by (rule failed_source_kept)

definition sample_choices :: "'w pass_choices" where
  "sample_choices = \<lparr>pcList = in_order, pcDiff = plain_orders, pcUpstreams = in_order,
     pcPlan = in_order, pcSched = (\<lambda>_. [])\<rparr>"

definition sample_reconciler :: "int snapshotter list \<Rightarrow> int upstream \<Rightarrow> (file_store, int) reconciler" where
  "sample_reconciler srcs u =
     NewReconciler (file_ops sample_enc) srcs [(''pi'', u)] [] 0 0 4 clock_env (\<lambda>d w. w + d)"

definition sample_rec_state :: "Record list \<Rightarrow> (file_store, int) rec_state" where
  "sample_rec_state rs = \<lparr>rsStore = empty_file_store\<lparr>fsRecords := go_index RecordKey rs\<rparr>,
     rsNextRetry = [], rsLastGood = [], rsNextCheck = [], rsListFailures = 0, rsWorld = 0\<rparr>"

lemma sample_rec_state_simps [simp]:
  "fsRecords (rsStore (sample_rec_state rs)) = go_index RecordKey rs"
  "rsNextRetry (sample_rec_state rs) = []" "rsWorld (sample_rec_state rs) = 0"
  by (simp_all add: sample_rec_state_def)

lemma SourceName_sample [simp]: "SourceName sample_record = ''d''"
  by (simp add: sample_record_def)

theorem reconcile_keeps_failed_source_witness:
  "store_entry (reconcile (sample_reconciler [failing_source ''d''] (ok_upstream ''pi'')) sample_choices
     (sample_rec_state [sample_record])) (RecordKey sample_record) \<noteq> None"
  by (rule reconcile_keeps_failed_source [OF sample_reconciler_def, where n = "''d''" and r = sample_record])
    (simp_all add: failing_source_fails)

section \<open>Abandoned passes\<close>

text \<open>
  A pass that cannot read its inputs writes nothing. If the context is cancelled, a source
  panics, or the store cannot be listed, then neither the store nor the gates change, and the
  world is touched by the sources and by the wait of the read backoff only: no upstream is
  called.
\<close>

theorem reconcile_abandoned:
  assumes "envCtxErr (rcEnv rc) (rsWorld st) \<or>
    (\<exists>m lg w. CollectDesired (rcSources rc) (rsLastGood st) (rsWorld st) = (Panicked m, lg, w)) \<or>
    (\<exists>err. stList (rcOps rc) (pcList pc) (rsStore st) = Inl err)"
  shows "rsStore (reconcile rc pc st) = rsStore st \<and> rsNextRetry (reconcile rc pc st) = rsNextRetry st \<and>
    rsNextCheck (reconcile rc pc st) = rsNextCheck st \<and>
    (let w = snd (snd (CollectDesired (rcSources rc) (rsLastGood st) (rsWorld st))) in
     rsWorld (reconcile rc pc st) \<in>
       {rsWorld st, w, rcSleep rc (storeReadBackoff (wrap64 (rsListFailures st + 1))) w})"
  using assms by (auto simp: reconcile_def Let_def split: prod.splits outcome.splits sum.splits)

theorem reconcile_abandoned_witness:
  "rsStore (reconcile (sample_reconciler [\<lparr>snapName = ''d'', snapSnapshot = (\<lambda>w. (Panicked ''boom'', w))\<rparr>]
      (ok_upstream ''pi'')) sample_choices (sample_rec_state [sample_record]))
     = rsStore (sample_rec_state [sample_record])"
  using reconcile_abandoned [of "sample_reconciler [\<lparr>snapName = ''d'',
      snapSnapshot = (\<lambda>w. (Panicked ''boom'', w))\<rparr>] (ok_upstream ''pi'')" "sample_rec_state [sample_record]"]
  by (simp add: sample_reconciler_def CollectDesired_def)

lemma storeReadBackoff_bounds: "0 \<le> storeReadBackoff n \<and> storeReadBackoff n \<le> 30 * second_ns"
  using shifted_backoff_bounds [of "30 * second_ns" second_ns n]
  by (simp add: storeReadBackoff_def second_ns_def)

section \<open>Reaching the desired state\<close>

text \<open>An upstream that accepts every call.\<close>

definition accepts :: "'w upstream \<Rightarrow> bool" where
  "accepts u \<longleftrightarrow> (\<forall>r w. fst (upUpsert u r w) = Returned None \<and> fst (upDelete u r w) = Returned None)"

definition accepts_record :: "'w upstream \<Rightarrow> Record \<Rightarrow> bool" where
  "accepts_record u r \<longleftrightarrow> (\<forall>w. fst (upUpsert u r w) = Returned None \<and> fst (upDelete u r w) = Returned None)"

lemma accepts_record_send: "accepts_record u r \<Longrightarrow> fst (send u op r w) = Returned None"
  by (simp add: accepts_record_def send_def)

lemma Upstream_sent_record [simp]: "Upstream (sent_record recorded op) = Upstream (opRecord op)"
  by (simp add: sent_record_def)

lemma good_sent_record: "good (opRecord op) \<Longrightarrow> (\<And>r f. good r \<Longrightarrow> good (r\<lparr>Failures := f\<rparr>)) \<Longrightarrow> good (sent_record recorded op)"
  by (simp add: sent_record_def)

text \<open>What the store should hold under a key, given the desired records.\<close>

definition settled :: "Record list \<Rightarrow> (string \<Rightarrow> Record option) \<Rightarrow> bool" where
  "settled desired entries \<longleftrightarrow> (\<forall>k.
     case map_of (go_index RecordKey desired) k of
       None \<Rightarrow> entries k = None
     | Some want \<Rightarrow> (\<exists>r. entries k = Some r \<and> appliedEqual want r \<and> Status r \<noteq> RecordStatusFailed))"

lemma verification_off:
  "CollectUpstreams it ups [] now nc w = (Returned (), \<lparr>ucActual = [], ucFetched = [], ucNextCheck = nc\<rparr>, w)"
proof -
  have "collect_upstreams [] now us st w = (Returned (), st, w)" for us st
    by (induction us) (auto simp: check_due_def go_get_def split: option.splits)
  then show ?thesis by (simp add: CollectUpstreams_def)
qed

lemma desired_op_unverified:
  assumes "Fetched ver = []"
  shows "desired_op idx ver rec k want =
    (case map_of rec k of
       None \<Rightarrow> simple_op OpCreate want
     | Some have \<Rightarrow>
         if Status have \<noteq> RecordStatusFailed \<and> appliedEqual want have then simple_op OpNoop want
         else simple_op OpUpdate want)"
  using assms by (auto simp: desired_op_def driftCorrection_def go_get_def split: option.splits)

text \<open>A pass over readable sources without verification: the plan, explicitly.\<close>

lemma clean_pass:
  fixes enc :: "(string, Record) go_map \<Rightarrow> error + string"
  assumes rc: "rc = NewReconciler (file_ops enc) srcs ups [] interval debounce maxConc env sleep"
    and keyed: "keyed (fsRecords (rsStore st))"
    and ctx: "\<not> envCtxErr env (rsWorld st)"
    and reads: "\<forall>s \<in> set srcs. reads_as s (content s)"
  obtains snap recorded ver lg where
    "Fetched ver = []" "map_of (go_index RecordKey recorded) = store_entry st"
    "\<And>r. store_entry st (RecordKey r) = Some r \<Longrightarrow> go_get False snap (SourceName r)"
    "reconcile rc pc st =
      (let w = snd (snd (CollectDesired srcs (rsLastGood st) (rsWorld st)));
           xs = Apply (rcExecutor rc) (pcSched pc) (pcPlan pc)
             (diff (pcDiff pc) (concat (map content srcs)) recorded snap ver) recorded
             \<lparr>xsStore = rsStore st, xsNextRetry = rsNextRetry st, xsWorld = w\<rparr>
       in \<lparr>rsStore = xsStore xs, rsNextRetry = xsNextRetry xs, rsLastGood = lg,
           rsNextCheck = rsNextCheck st, rsListFailures = 0, rsWorld = xsWorld xs\<rparr>)"
proof -
  obtain D S lg w where c: "CollectDesired srcs (rsLastGood st) (rsWorld st) = (Returned (D, S), lg, w)"
    using collect_clean_returns [OF reads] unfolding CollectDesired_def by metis
  from collect_clean [OF c [unfolded CollectDesired_def] reads]
  have D: "D = concat (map content srcs)" and S: "\<And>n. go_get False S n \<longleftrightarrow> n \<in> snapName ` set srcs"
    by (simp_all add: go_get_def)
  define recorded where "recorded = map snd (iterate (pcList pc) (fsRecords (rsStore st)))"
  have l: "stList (file_ops enc) (pcList pc) (rsStore st) = Inr recorded"
    by (simp add: file_ops_def fs_list_def recorded_def)
  define ver where "ver = \<lparr>Actual = [], Fetched = [], Compare = rcDrift rc\<rparr>"
  let ?snap = "markOrphanSources srcs recorded S"
  show ?thesis
  proof (rule that [where ver = ver and recorded = recorded and snap = ?snap and lg = lg])
    show "Fetched ver = []" by (simp add: ver_def)
    show "map_of (go_index RecordKey recorded) = store_entry st"
      using fstore.list_index [OF keyed l] .
    show "go_get False ?snap (SourceName r)" if "store_entry st (RecordKey r) = Some r" for r
      using fstore.list_mem_iff [OF keyed l, of r] that by (auto simp: markOrphanSources_get S)
    show "reconcile rc pc st =
      (let w = snd (snd (CollectDesired srcs (rsLastGood st) (rsWorld st)));
           xs = Apply (rcExecutor rc) (pcSched pc) (pcPlan pc)
             (diff (pcDiff pc) (concat (map content srcs)) recorded ?snap ver) recorded
             \<lparr>xsStore = rsStore st, xsNextRetry = rsNextRetry st, xsWorld = w\<rparr>
       in \<lparr>rsStore = xsStore xs, rsNextRetry = xsNextRetry xs, rsLastGood = lg,
           rsNextCheck = rsNextCheck st, rsListFailures = 0, rsWorld = xsWorld xs\<rparr>)"
      unfolding reconcile_def rc NewReconciler_simps
      by (simp add: ctx c l D verification_off ver_def rc Let_def)
  qed
qed

lemma appliedEqual_status [simp]:
  "appliedEqual want (want\<lparr>Failures := f, Status := s, SyncedAt := t, SyncError := e\<rparr>)"
  by (simp add: appliedEqual_def)

lemma converges_on:
  fixes enc :: "(string, Record) go_map \<Rightarrow> error + string"
  assumes rc: "rc = NewReconciler (file_ops enc) srcs ups [] interval debounce maxConc env sleep"
    and keyed: "keyed (fsRecords (rsStore st))"
    and ctx: "\<not> envCtxErr env (rsWorld st)"
    and gates: "rsNextRetry st = []"
    and reads: "\<forall>s \<in> set srcs. reads_as s (content s)"
    and ups: "\<forall>r \<in> set (concat (map content srcs)). map_of ups (Upstream r) \<noteq> None"
    and good: "\<And>r u. good r \<Longrightarrow> map_of ups (Upstream r) = Some u \<Longrightarrow> accepts_record u r"
      "\<And>r f. good r \<Longrightarrow> good (r\<lparr>Failures := f\<rparr>)" "\<forall>r \<in> set (concat (map content srcs)). good r"
      "\<And>k r. store_entry st k = Some r \<Longrightarrow> map_of ups (Upstream r) \<noteq> None \<Longrightarrow> good r"
  shows "settled (concat (map content srcs)) (store_entry (reconcile rc pc st)) \<and>
    (\<forall>k. map_of (rsNextRetry (reconcile rc pc st)) k = None) \<and>
    (\<forall>k r. store_entry (reconcile rc pc st) k = Some r \<longrightarrow> store_entry st k = Some r \<or>
       (\<exists>want. map_of (go_index RecordKey (concat (map content srcs))) k = Some want \<and> Upstream r = Upstream want))"
proof -
  let ?des = "concat (map content srcs)"
  obtain snap recorded ver lg where ver: "Fetched ver = []"
    and idx: "map_of (go_index RecordKey recorded) = store_entry st"
    and snap: "\<And>r. store_entry st (RecordKey r) = Some r \<Longrightarrow> go_get False snap (SourceName r)"
    and pass: "reconcile rc pc st =
      (let w = snd (snd (CollectDesired srcs (rsLastGood st) (rsWorld st)));
           xs = Apply (rcExecutor rc) (pcSched pc) (pcPlan pc)
             (diff (pcDiff pc) ?des recorded snap ver) recorded
             \<lparr>xsStore = rsStore st, xsNextRetry = rsNextRetry st, xsWorld = w\<rparr>
       in \<lparr>rsStore = xsStore xs, rsNextRetry = xsNextRetry xs, rsLastGood = lg,
           rsNextCheck = rsNextCheck st, rsListFailures = 0, rsWorld = xsWorld xs\<rparr>)"
    by (rule clean_pass [OF rc keyed ctx reads, where pc = pc]) (rule that)
  define w where "w = snd (snd (CollectDesired srcs (rsLastGood st) (rsWorld st)))"
  define plan where "plan = diff (pcDiff pc) ?des recorded snap ver"
  define xs where "xs = \<lparr>xsStore = rsStore st, xsNextRetry = rsNextRetry st, xsWorld = w\<rparr>"
  define ex where "ex = rcExecutor rc"
  define xs' where "xs' = Apply ex (pcSched pc) (pcPlan pc) plan recorded xs"
  have after: "store_entry (reconcile rc pc st) = file_entry xs'" "rsNextRetry (reconcile rc pc st) = xsNextRetry xs'"
    by (simp_all add: pass Let_def xs'_def xs_def w_def plan_def ex_def)
  have ex: "exOps ex = file_ops enc" "exUpstreams ex = ups" "exEnv ex = env"
    by (simp_all add: ex_def rc)
  have wf: "go_map_wf plan" "distinct (map op_key (plan_ops plan))" "keyed (fsRecords (xsStore xs))"
    using diff_wf diff_distinct keyed by (simp_all add: plan_def xs_def)
  note eff = fstore.Apply_effect [OF ex(1) wf(3,1,2), of "pcSched pc" "pcPlan pc" recorded, folded xs'_def]
  note planned = mem_diff_ops [of _ "pcDiff pc" ?des recorded snap ver]
  have in_group: "op \<in> set (go_get [] plan (Upstream (opRecord op))) \<longleftrightarrow> op \<in> set (diff_ops (pcDiff pc) ?des recorded snap ver)" for op
    by (simp add: plan_def diff_get)
  have op_fate: "op_after ex (go_index RecordKey recorded) (envNow env w) (Upstream (opRecord op)) op
      (store_entry st (op_key op), None) (file_entry xs' (op_key op), retry_gate xs' (op_key op))"
    if "op \<in> set (diff_ops (pcDiff pc) ?des recorded snap ver)" for op
    using eff that in_group [of op] by (simp add: ex xs_def gates)
  have no_op: "file_entry xs' k = store_entry st k \<and> retry_gate xs' k = None"
    if "k \<notin> op_key ` set (diff_ops (pcDiff pc) ?des recorded snap ver)" for k
    using eff that by (simp add: plan_def set_plan_ops_diff xs_def gates)
  have attempt: "retry_gate xs' (op_key op) = None \<and>
      (if Kind op = OpDelete then file_entry xs' (op_key op) = None
       else \<exists>t. file_entry xs' (op_key op) = Some ((opRecord op)\<lparr>Failures := 0,
              Status := RecordStatusSynced, SyncedAt := t, SyncError := ''''\<rparr>))"
    if op: "op \<in> set (diff_ops (pcDiff pc) ?des recorded snap ver)" "Kind op \<noteq> OpNoop"
      "map_of ups (Upstream (opRecord op)) = Some u" "good (opRecord op)" for op u
  proof -
    obtain w1 where w1: "file_entry xs' (op_key op)
        = result_write (fst (worker env u (go_index RecordKey recorded) op w1)) (store_entry st (op_key op))"
      "retry_gate xs' (op_key op)
        = result_gate (exBackoff ex) (envNow env w) (fst (worker env u (go_index RecordKey recorded) op w1)) None"
      using op_fate [OF op(1)] op(2,3) by (auto simp: op_after_def ex gate_open_def)
    obtain w2 where "send u op (sent_record recorded op) w1 = (Returned None, w2)"
      using accepts_record_send [of u "sent_record recorded op"] good(1,2) op(3,4)
      by (metis Upstream_sent_record good_sent_record prod.collapse)
    from worker_success [OF op(2) this, of env] w1 show ?thesis
      by (cases "Kind op = OpDelete") (auto simp: result_write_def result_gate_def)
  qed
  have "(case map_of (go_index RecordKey ?des) k of
       None \<Rightarrow> file_entry xs' k = None
     | Some want \<Rightarrow> (\<exists>r. file_entry xs' k = Some r \<and> appliedEqual want r \<and> Status r \<noteq> RecordStatusFailed)) \<and>
     retry_gate xs' k = None \<and>
     (\<forall>r. file_entry xs' k = Some r \<longrightarrow> store_entry st k = Some r \<or>
       (\<exists>want. map_of (go_index RecordKey ?des) k = Some want \<and> Upstream r = Upstream want))" for k
  proof (cases "map_of (go_index RecordKey ?des) k")
    case (Some want)
    let ?op = "desired_op (buildActualIndex (ordActual (pcDiff pc)) (Actual ver)) ver (go_index RecordKey recorded) k want"
    have mem: "?op \<in> set (diff_ops (pcDiff pc) ?des recorded snap ver)"
      using Some planned by blast
    have key: "op_key ?op = k" using index_key [OF Some] by simp
    have "want \<in> set ?des" using go_index_SomeD [OF Some] by simp
    then obtain u where u: "map_of ups (Upstream want) = Some u" using ups by blast
    note d = desired_op_unverified [OF ver, where rec = "go_index RecordKey recorded" and k = k and want = want]
    show ?thesis
    proof (cases "Kind ?op = OpNoop")
      case True
      then obtain r where r: "store_entry st k = Some r" "Status r \<noteq> RecordStatusFailed" "appliedEqual want r"
        by (auto simp: d idx split: option.splits if_splits)
      from op_fate [OF mem] True u key r(1) have "file_entry xs' k = Some r" "retry_gate xs' k = None"
        by (auto simp: op_after_def ex)
      with r Some show ?thesis by simp
    next
      case False
      moreover have "Kind ?op \<noteq> OpDelete" by (auto simp: d split: option.splits)
      ultimately show ?thesis using attempt [OF mem False] u key Some good(3) \<open>want \<in> set ?des\<close> by auto
    qed
  next
    case None
    show ?thesis
    proof (cases "store_entry st k")
      case None
      have "k \<notin> op_key ` set (diff_ops (pcDiff pc) ?des recorded snap ver)"
      proof
        assume "k \<in> op_key ` set (diff_ops (pcDiff pc) ?des recorded snap ver)"
        then obtain op where "op \<in> set (diff_ops (pcDiff pc) ?des recorded snap ver)" "op_key op = k" by blast
        with planned [of op] \<open>map_of (go_index RecordKey ?des) k = None\<close> None index_key idx
        show False by (metis opRecord_desired_op option.simps(3) simple_op_simps(2))
      qed
      with no_op None \<open>map_of (go_index RecordKey ?des) k = None\<close> show ?thesis by simp
    next
      case (Some r)
      then have "RecordKey r = k" using keyed_lookup [OF keyed] by simp
      with snap Some have "go_get False snap (SourceName r)" by simp
      then have mem: "simple_op OpDelete r \<in> set (diff_ops (pcDiff pc) ?des recorded snap ver)"
        using planned Some idx None by metis
      show ?thesis
      proof (cases "map_of ups (Upstream r)")
        case None
        with op_fate [OF mem] \<open>RecordKey r = k\<close> \<open>map_of (go_index RecordKey ?des) k = None\<close>
        show ?thesis by (simp add: op_after_def ex)
      next
        case (Some u)
        with attempt [OF mem] good(4) [OF \<open>store_entry st k = Some r\<close>] \<open>RecordKey r = k\<close> None show ?thesis by simp
      qed
    qed
  qed
  then show ?thesis unfolding settled_def after by blast
qed

lemma converges:
  fixes enc :: "(string, Record) go_map \<Rightarrow> error + string"
  assumes "rc = NewReconciler (file_ops enc) srcs ups [] interval debounce maxConc env sleep"
    and "keyed (fsRecords (rsStore st))" "\<not> envCtxErr env (rsWorld st)" "rsNextRetry st = []"
    and "\<forall>s \<in> set srcs. reads_as s (content s)"
    and "\<forall>r \<in> set (concat (map content srcs)). map_of ups (Upstream r) \<noteq> None"
    and "\<forall>n u. map_of ups n = Some u \<longrightarrow> accepts u"
  shows "settled (concat (map content srcs)) (store_entry (reconcile rc pc st)) \<and>
    (\<forall>k. map_of (rsNextRetry (reconcile rc pc st)) k = None)"
proof -
  have a: "map_of ups (Upstream r) = Some u \<Longrightarrow> accepts_record u r" for r u
    using assms(7) by (auto simp: accepts_def accepts_record_def)
  show ?thesis using converges_on [OF assms(1-6), where good = "\<lambda>_. True" and pc = pc] a by simp
qed

lemma settled_Some:
  assumes "settled desired entries" "map_of (go_index RecordKey desired) k = Some want"
  obtains r where "entries k = Some r" "appliedEqual want r" "Status r \<noteq> RecordStatusFailed"
  using spec [OF assms(1) [unfolded settled_def], of k]
  unfolding assms(2) option.case by (elim exE conjE) (rule that)

lemma settled_None:
  assumes "settled desired entries" "map_of (go_index RecordKey desired) k = None"
  shows "entries k = None"
  using spec [OF assms(1) [unfolded settled_def], of k] unfolding assms(2) option.case .

lemma steady:
  fixes enc :: "(string, Record) go_map \<Rightarrow> error + string"
  assumes rc: "rc = NewReconciler (file_ops enc) srcs ups [] interval debounce maxConc env sleep"
    and keyed: "keyed (fsRecords (rsStore st))"
    and ctx: "\<not> envCtxErr env (rsWorld st)"
    and reads: "\<forall>s \<in> set srcs. reads_as s (content s)"
    and settled: "settled (concat (map content srcs)) (store_entry st)"
  shows "fsRecords (rsStore (reconcile rc pc st)) = fsRecords (rsStore st) \<and>
    rsNextRetry (reconcile rc pc st) = rsNextRetry st \<and>
    rsWorld (reconcile rc pc st) = snd (snd (CollectDesired srcs (rsLastGood st) (rsWorld st)))"
proof -
  let ?des = "concat (map content srcs)"
  obtain snap recorded ver lg where ver: "Fetched ver = []"
    and idx: "map_of (go_index RecordKey recorded) = store_entry st"
    and snap: "\<And>r. store_entry st (RecordKey r) = Some r \<Longrightarrow> go_get False snap (SourceName r)"
    and pass: "reconcile rc pc st =
      (let w = snd (snd (CollectDesired srcs (rsLastGood st) (rsWorld st)));
           xs = Apply (rcExecutor rc) (pcSched pc) (pcPlan pc)
             (diff (pcDiff pc) ?des recorded snap ver) recorded
             \<lparr>xsStore = rsStore st, xsNextRetry = rsNextRetry st, xsWorld = w\<rparr>
       in \<lparr>rsStore = xsStore xs, rsNextRetry = xsNextRetry xs, rsLastGood = lg,
           rsNextCheck = rsNextCheck st, rsListFailures = 0, rsWorld = xsWorld xs\<rparr>)"
    by (rule clean_pass [OF rc keyed ctx reads, where pc = pc]) (rule that)
  have ops: "exOps (rcExecutor rc) = file_ops enc" by (simp add: rc)
  have noop: "Kind op = OpNoop" if "op \<in> set (diff_ops (pcDiff pc) ?des recorded snap ver)" for op
    using that unfolding mem_diff_ops
  proof (elim disjE exE conjE)
    fix k want
    assume want: "map_of (go_index RecordKey ?des) k = Some want"
      and op: "op = desired_op (buildActualIndex (ordActual (pcDiff pc)) (Actual ver)) ver (go_index RecordKey recorded) k want"
    from settled want obtain r where "store_entry st k = Some r" "appliedEqual want r" "Status r \<noteq> RecordStatusFailed"
      by (rule settled_Some)
    then show ?thesis by (simp add: op desired_op_unverified [OF ver] idx)
  next
    fix k r
    assume "map_of (go_index RecordKey recorded) k = Some r" "map_of (go_index RecordKey ?des) k = None"
    with settled_None [OF settled] idx show ?thesis by simp
  qed
  have "\<forall>name. \<forall>op \<in> set (go_get [] (diff (pcDiff pc) ?des recorded snap ver) name).
      idle_op (rcExecutor rc) now nr name op" for now nr
    using noop by (simp add: diff_get idle_op_def)
  from idle_pass [OF ops diff_wf this, where sched = "pcSched pc" and it = "pcPlan pc" and recorded = recorded]
  show ?thesis by (simp add: pass Let_def)
qed

text \<open>
  C11. A pass reaches the desired state. If every source can be read, verification is off, no
  retry is gated, and the configured upstreams, which include all that the desired records name,
  accept every call, then after one pass the store holds under every desired key a record with
  the desired content that is not failed, holds nothing under any other key, and no gate is
  set.
\<close>

theorem reconcile_converges:
  fixes enc :: "(string, Record) go_map \<Rightarrow> error + string"
  assumes "rc = NewReconciler (file_ops enc) srcs ups [] interval debounce maxConc env sleep"
    and "keyed (fsRecords (rsStore st))" "\<not> envCtxErr env (rsWorld st)" "rsNextRetry st = []"
    and "\<forall>s \<in> set srcs. reads_as s (content s)"
    and "\<forall>r \<in> set (concat (map content srcs)). map_of ups (Upstream r) \<noteq> None"
    and "\<forall>n u. map_of ups n = Some u \<longrightarrow> accepts u"
  shows "settled (concat (map content srcs)) (store_entry (reconcile rc pc st)) \<and>
    (\<forall>k. map_of (rsNextRetry (reconcile rc pc st)) k = None)"
  using assms by (rule converges)

lemma ok_accepts [simp]: "accepts (ok_upstream n)"
  by (simp add: accepts_def ok_upstream_def)

theorem reconcile_converges_witness:
  "settled [sample_record] (store_entry (reconcile
     (sample_reconciler [fixed_source ''d'' [sample_record]] (ok_upstream ''pi'')) sample_choices
     (sample_rec_state [sample_record\<lparr>ID := ''old''\<rparr>])))"
  using reconcile_converges [OF sample_reconciler_def,
      of "sample_rec_state [sample_record\<lparr>ID := ''old''\<rparr>]" "[fixed_source ''d'' [sample_record]]"
         "\<lambda>_. [sample_record]" "ok_upstream ''pi''" sample_choices]
  by (simp add: fixed_source_reads clock_env_def sample_record_def)



text \<open>
  A deletion that fails is recorded as pending delete. When the record is desired again before
  the retry, the plan holds a no-op for it: nothing is sent to the upstream and the entry keeps
  the status, although the upstream may have carried the deletion out before it reported the
  error.
\<close>

lemma pending_delete_desired_again:
  assumes "map_of rec k = Some have" "Status have = RecordStatusPendingDelete" "appliedEqual want have"
    "Fetched ver = []"
  shows "desired_op idx ver rec k want = simple_op OpNoop want"
  using assms by (simp add: desired_op_unverified RecordStatusFailed_def RecordStatusPendingDelete_def)

section \<open>The Run loop\<close>

text \<open>
  The state of \<open>Run\<close>: the buffered channel \<open>notify\<close> of capacity one with the sources that are
  blocked sending on it, the ticker's channel, the debounce timer, and the reconciler. The two
  last fields are ghosts: whether a source has signalled a change since the last pass began, and
  how many passes have begun.
\<close>

datatype debounce_timer = NoTimer | TimerIdle | TimerArmed | TimerFired

record ('s, 'w) run_state =
  rnRec :: "('s, 'w) rec_state"
  rnStarted :: bool
  rnNotify :: bool
  rnBlocked :: nat
  rnTick :: bool
  rnTimer :: debounce_timer
  rnExited :: bool
  rnDirty :: bool
  rnPasses :: nat

definition run_init :: "('s, 'w) rec_state \<Rightarrow> ('s, 'w) run_state" where
  [go_eval]: "run_init st = \<lparr>rnRec = st, rnStarted = False, rnNotify = False, rnBlocked = 0, rnTick = False,
     rnTimer = NoTimer, rnExited = False, rnDirty = False, rnPasses = 0\<rparr>"

text \<open>One call of \<open>r.reconcile(ctx)\<close>.\<close>

definition run_pass ::
  "('s, 'w) reconciler \<Rightarrow> 'w pass_choices \<Rightarrow> ('s, 'w) run_state \<Rightarrow> ('s, 'w) run_state" where
  [go_eval]: "run_pass rc pc rs =
     rs\<lparr>rnRec := reconcile rc pc (rnRec rs),
        rnDirty := (rnDirty rs \<and> envCtxErr (rcEnv rc) (rsWorld (rnRec rs))),
        rnPasses := rnPasses rs + 1\<rparr>"

text \<open>
  Receiving from \<open>notify\<close>: a blocked sender's value moves into the buffer.
\<close>

definition receive_notify :: "('s, 'w) run_state \<Rightarrow> ('s, 'w) run_state" where
  [go_eval]: "receive_notify rs = rs\<lparr>rnNotify := (0 < rnBlocked rs), rnBlocked := rnBlocked rs - 1\<rparr>"

text \<open>Arming the debounce timer: \<open>NewTimer\<close> the first time, else \<open>Stop\<close>, drain and \<open>Reset\<close>.\<close>

fun timer_stop :: "debounce_timer \<Rightarrow> bool \<times> debounce_timer" where
  "timer_stop TimerArmed = (True, TimerIdle)"
| "timer_stop t = (False, t)"

fun timer_drain :: "debounce_timer \<Rightarrow> debounce_timer" where
  "timer_drain TimerFired = TimerIdle"
| "timer_drain t = t"

fun timer_reset :: "debounce_timer \<Rightarrow> debounce_timer" where
  "timer_reset NoTimer = NoTimer"
| "timer_reset t = TimerArmed"

definition arm_debounce :: "debounce_timer \<Rightarrow> debounce_timer" where
  [go_eval]: "arm_debounce t =
     (if t = NoTimer then TimerArmed
      else let (stopped, t1) = timer_stop t
           in timer_reset (if stopped then t1 else timer_drain t1))"

text \<open>
  What can happen: a source signals; the ticker or the debounce timer fires; the outside world
  changes (this is also how the context gets cancelled); or the loop takes one ready case of its
  \<open>select\<close>, with the choices of the pass it runs.
\<close>

datatype 'w run_event =
    SourceSignal
  | TickerFires
  | TimerFires
  | WorldChanges 'w
  | LoopStart "'w pass_choices"
  | LoopDone
  | LoopNotify "'w pass_choices"
  | LoopDebounce "'w pass_choices"
  | LoopTick "'w pass_choices"

definition run_live :: "('s, 'w) run_state \<Rightarrow> bool" where
  "run_live rs \<longleftrightarrow> rnStarted rs \<and> \<not> rnExited rs"

fun run_step ::
  "('s, 'w) reconciler \<Rightarrow> 'w run_event \<Rightarrow> ('s, 'w) run_state \<Rightarrow> ('s, 'w) run_state option" where
  "run_step rc SourceSignal rs =
     Some (if rnNotify rs then rs\<lparr>rnBlocked := rnBlocked rs + 1, rnDirty := True\<rparr>
           else rs\<lparr>rnNotify := True, rnDirty := True\<rparr>)"
| "run_step rc TickerFires rs =
     (if 0 < rcInterval rc \<and> \<not> rnExited rs then Some (rs\<lparr>rnTick := True\<rparr>) else None)"
| "run_step rc TimerFires rs =
     (if rnTimer rs = TimerArmed then Some (rs\<lparr>rnTimer := TimerFired\<rparr>) else None)"
| "run_step rc (WorldChanges w) rs = Some (rs\<lparr>rnRec := (rnRec rs)\<lparr>rsWorld := w\<rparr>\<rparr>)"
| "run_step rc (LoopStart pc) rs =
     (if rnStarted rs then None else Some ((run_pass rc pc rs)\<lparr>rnStarted := True\<rparr>))"
| "run_step rc LoopDone rs =
     (if run_live rs \<and> envCtxErr (rcEnv rc) (rsWorld (rnRec rs)) then
        Some (rs\<lparr>rnExited := True, rnTimer := (if rnTimer rs = NoTimer then NoTimer else TimerIdle)\<rparr>)
      else None)"
| "run_step rc (LoopNotify pc) rs =
     (if run_live rs \<and> rnNotify rs then
        (if 0 < rcDebounce rc then
           Some ((receive_notify rs)\<lparr>rnTimer := arm_debounce (rnTimer rs)\<rparr>)
         else Some (run_pass rc pc (receive_notify rs)))
      else None)"
| "run_step rc (LoopDebounce pc) rs =
     (if run_live rs \<and> rnTimer rs = TimerFired then Some (run_pass rc pc (rs\<lparr>rnTimer := TimerIdle\<rparr>))
      else None)"
| "run_step rc (LoopTick pc) rs =
     (if run_live rs \<and> rnTick rs then Some (run_pass rc pc (rs\<lparr>rnTick := False\<rparr>)) else None)"

inductive run_reachable ::
  "('s, 'w) reconciler \<Rightarrow> ('s, 'w) rec_state \<Rightarrow> ('s, 'w) run_state \<Rightarrow> bool"
  for rc :: "('s, 'w) reconciler" and st :: "('s, 'w) rec_state" where
  run_begin: "run_reachable rc st (run_init st)"
| run_next: "run_reachable rc st rs \<Longrightarrow> run_step rc ev rs = Some rs' \<Longrightarrow> run_reachable rc st rs'"

inductive_cases run_reachableE: "run_reachable rc st rs"

text \<open>
  The work that is still due: the first pass, a value in the channel, an armed or fired timer.
\<close>

definition wake_pending :: "('s, 'w) run_state \<Rightarrow> bool" where
  "wake_pending rs \<longleftrightarrow> \<not> rnStarted rs \<or> rnNotify rs \<or> rnTimer rs = TimerArmed \<or> rnTimer rs = TimerFired"

definition run_inv :: "('s, 'w) reconciler \<Rightarrow> ('s, 'w) run_state \<Rightarrow> bool" where
  "run_inv rc rs \<longleftrightarrow> (0 < rnBlocked rs \<longrightarrow> rnNotify rs) \<and> (rnExited rs \<longrightarrow> rnStarted rs)"

lemma arm_debounce_armed [simp]: "arm_debounce t = TimerArmed"
  by (cases t) (simp_all add: arm_debounce_def)

lemma run_step_inv:
  assumes "run_step rc ev rs = Some rs'" "run_inv rc rs"
  shows "run_inv rc rs'"
  using assms by (cases ev)
    (auto simp: run_inv_def run_live_def run_pass_def receive_notify_def split: if_splits)

lemma run_reachable_inv: "run_reachable rc st rs \<Longrightarrow> run_inv rc rs"
proof (induction rule: run_reachable.induct)
  case run_begin
  show ?case by (simp add: run_init_def run_inv_def)
next
  case (run_next rs ev rs')
  then show ?case using run_step_inv by blast
qed

text \<open>
  A run in which the context is never cancelled: \<open>cancel_free\<close> holds of all its states.
\<close>

inductive run_uncancelled ::
  "('s, 'w) reconciler \<Rightarrow> ('s, 'w) rec_state \<Rightarrow> ('s, 'w) run_state \<Rightarrow> bool"
  for rc :: "('s, 'w) reconciler" and st :: "('s, 'w) rec_state" where
  unc_begin: "\<not> envCtxErr (rcEnv rc) (rsWorld st) \<Longrightarrow> run_uncancelled rc st (run_init st)"
| unc_next: "run_uncancelled rc st rs \<Longrightarrow> run_step rc ev rs = Some rs' \<Longrightarrow>
    \<not> envCtxErr (rcEnv rc) (rsWorld (rnRec rs')) \<Longrightarrow> run_uncancelled rc st rs'"

lemma uncancelled_ctx: "run_uncancelled rc st rs \<Longrightarrow> \<not> envCtxErr (rcEnv rc) (rsWorld (rnRec rs)) \<and> \<not> rnExited rs"
proof (induction rule: run_uncancelled.induct)
  case unc_begin
  then show ?case by (simp add: run_init_def)
next
  case (unc_next rs ev rs')
  then show ?case
    by (cases ev) (auto simp: run_pass_def receive_notify_def run_live_def split: if_splits)
qed

lemma run_dirty_pending:
  "run_uncancelled rc st rs \<Longrightarrow> rnDirty rs \<longrightarrow> wake_pending rs"
proof (induction rule: run_uncancelled.induct)
  case unc_begin
  then show ?case by (simp add: run_init_def)
next
  case (unc_next rs ev rs')
  with uncancelled_ctx [OF unc_next(1)] show ?case
    by (cases ev) (auto simp: wake_pending_def run_pass_def receive_notify_def run_live_def split: if_splits)
qed

text \<open>
  C15. No change signal is lost. In every run of the loop in which the context is not cancelled,
  whenever a source has signalled a change that no pass has begun after, the loop still has a
  wake-up ahead: its first pass, a value in \<open>notify\<close>, or the debounce timer, armed or fired. The
  interleaving of signals, timers, ticks and passes is arbitrary; a sender blocked on the full
  channel is never forgotten either.
\<close>

theorem run_no_lost_signal:
  assumes "run_uncancelled rc st rs" "rnDirty rs"
  shows "\<not> rnStarted rs \<or> rnNotify rs \<or> rnTimer rs = TimerArmed \<or> rnTimer rs = TimerFired"
  using run_dirty_pending assms unfolding wake_pending_def by blast

theorem run_no_lost_signal_witness:
  "let rc = NewReconciler (file_ops sample_enc) [] [(''pi'', ok_upstream ''pi'')] [] 0 5 4 clock_env (\<lambda>d w. w + d);
       rs = (run_init (sample_rec_state []))\<lparr>rnNotify := True, rnDirty := True\<rparr>
   in run_uncancelled rc (sample_rec_state []) rs \<and>
      (\<not> rnStarted rs \<or> rnNotify rs \<or> rnTimer rs = TimerArmed \<or> rnTimer rs = TimerFired)"
proof -
  let ?rc = "NewReconciler (file_ops sample_enc) [] [(''pi'', ok_upstream ''pi'')] [] 0 5 4 clock_env (\<lambda>d w. w + d)"
  let ?rs = "(run_init (sample_rec_state []))\<lparr>rnNotify := True, rnDirty := True\<rparr>"
  have "run_uncancelled ?rc (sample_rec_state []) (run_init (sample_rec_state []))"
    by (rule unc_begin) (simp add: clock_env_def)
  moreover have "run_step ?rc SourceSignal (run_init (sample_rec_state [])) = Some ?rs"
    by (simp add: run_init_def)
  ultimately have r: "run_uncancelled ?rc (sample_rec_state []) ?rs"
    by (rule unc_next) (simp add: clock_env_def run_init_def)
  moreover have "rnDirty ?rs" by (simp add: run_init_def)
  note run_no_lost_signal [OF r this]
  ultimately show ?thesis unfolding Let_def by blast
qed

text \<open>
  Shutdown is prompt and clean. Once the context is cancelled, no step of the loop changes
  the store or the gates any more, whatever it still picks up before it sees the cancellation,
  and as soon as the loop is running the step that ends it is enabled; after it, no loop step is.
\<close>

theorem run_shutdown:
  assumes "envCtxErr (rcEnv rc) (rsWorld (rnRec rs))"
  shows "(run_step rc ev rs = Some rs' \<longrightarrow>
      rsStore (rnRec rs') = rsStore (rnRec rs) \<and> rsNextRetry (rnRec rs') = rsNextRetry (rnRec rs)) \<and>
    (run_live rs \<longrightarrow> (\<exists>rs'. run_step rc LoopDone rs = Some rs' \<and> rnExited rs' \<and>
       (\<forall>pc. run_step rc (LoopNotify pc) rs' = None \<and> run_step rc (LoopDebounce pc) rs' = None \<and>
             run_step rc (LoopTick pc) rs' = None)))"
proof
  have "reconcile rc pc (rnRec rs) = rnRec rs" for pc
    using assms by (simp add: reconcile_def)
  then show "run_step rc ev rs = Some rs' \<longrightarrow>
      rsStore (rnRec rs') = rsStore (rnRec rs) \<and> rsNextRetry (rnRec rs') = rsNextRetry (rnRec rs)"
    by (cases ev) (auto simp: run_pass_def receive_notify_def split: if_splits)
  show "run_live rs \<longrightarrow> (\<exists>rs'. run_step rc LoopDone rs = Some rs' \<and> rnExited rs' \<and>
       (\<forall>pc. run_step rc (LoopNotify pc) rs' = None \<and> run_step rc (LoopDebounce pc) rs' = None \<and>
             run_step rc (LoopTick pc) rs' = None))"
    using assms by (simp add: run_live_def)
qed

definition cancelled_env :: "int env" where
  "cancelled_env = \<lparr>envNow = (\<lambda>w. w), envCtxErr = (\<lambda>_. True)\<rparr>"

theorem run_shutdown_witness:
  "\<exists>rs'. run_step (NewReconciler (file_ops sample_enc) [] [] [] 0 5 4 cancelled_env (\<lambda>d w. w)) LoopDone
     ((run_init (sample_rec_state [sample_record]))\<lparr>rnStarted := True, rnNotify := True\<rparr>) = Some rs' \<and> rnExited rs'"
  using run_shutdown [of "NewReconciler (file_ops sample_enc) [] [] [] 0 5 4 cancelled_env (\<lambda>d w. w)"
      "(run_init (sample_rec_state [sample_record]))\<lparr>rnStarted := True, rnNotify := True\<rparr>" LoopDone]
  by (simp add: cancelled_env_def run_live_def run_init_def)
end
