(* ===== verification/Validate.thy ===== *)
theory Validate
  imports Model
begin

text \<open>
  \<open>internal/validate\<close>: the struct validator driven by \<open>validate\<close> tags. What \<open>reflect\<close> sees of a
  value is the datatype \<open>go_value\<close>; the structs it is applied to are given as such values
  (\<open>record_value\<close> here, the configuration in \<open>Config\<close>). Left out: floating-point fields, which no
  validated struct has, and values inside interfaces. \<open>url.Parse\<close> is an argument (scheme and
  host of a string that parses). Proved here: the validator accepts a record exactly when its
  fields meet the rules of \<open>model.Record\<close>; failures are complete; the hand-written \<open>itoa\<close> agrees
  with the decimal numeral.
\<close>

section \<open>Values\<close>

text \<open>
  A map carries the zero value of its element type, which \<open>reflect\<close> knows from the type, and lists
  its entries in the order \<open>MapKeys\<close> happens to return them. \<open>VOpaque\<close> is a kind the
  validator ignores (functions, channels, arrays), with the text \<open>%v\<close> prints for it.
\<close>

datatype go_value =
    VString string
  | VInt int
  | VUint nat
  | VBool bool
  | VNil
  | VPtr go_value
  | VSlice "go_value list option"
  | VMap go_value "(string \<times> go_value) list option"
  | VStruct "go_field list"
  | VOpaque string
and go_field = GoField (fldName: string) (fldExported: bool) (fldYaml: string) (fldValidate: string)
    (fldValue: go_value)

lemma size_fldValue: "size (fldValue f) < size f"
  by (cases f) simp

lemma size_field_list [termination_simp]:
  assumes "f \<in> set fs"
  shows "size (fldValue f) < Suc (size_list size fs)"
proof -
  have "size f \<le> size_list size fs" using assms by (induction fs) auto
  with size_fldValue [of f] show ?thesis by simp
qed

fun isZero :: "go_value \<Rightarrow> bool" where
  "isZero (VString s) = (s = '''')"
| "isZero (VInt n) = (n = 0)"
| "isZero (VUint n) = (n = 0)"
| "isZero (VBool b) = (\<not> b)"
| "isZero VNil = True"
| "isZero (VPtr v) = False"
| "isZero (VSlice xs) = (xs = None \<or> xs = Some [])"
| "isZero (VMap ty m) = (m = None \<or> m = Some [])"
| "isZero (VStruct fs) = False"
| "isZero (VOpaque s) = False"

text \<open>The \<open>%v\<close> verb; a pointer inside prints as an address, given by the argument.\<close>

fun fmt_v :: "(go_value \<Rightarrow> string) \<Rightarrow> go_value \<Rightarrow> string" where
  "fmt_v addr (VString s) = s"
| "fmt_v addr (VInt n) = itoa n"
| "fmt_v addr (VUint n) = itoa (int n)"
| "fmt_v addr (VBool b) = (if b then ''true'' else ''false'')"
| "fmt_v addr VNil = ''<nil>''"
| "fmt_v addr (VPtr v) = addr v"
| "fmt_v addr (VSlice xs) =
     ''['' @ join '' '' (case xs of None \<Rightarrow> [] | Some vs \<Rightarrow> map (fmt_v addr) vs) @ '']''"
| "fmt_v addr (VMap ty m) =
     ''map['' @ join '' '' (case m of None \<Rightarrow> []
        | Some es \<Rightarrow> map (\<lambda>(k, v). k @ '':'' @ fmt_v addr v) es) @ '']''"
| "fmt_v addr (VStruct fs) = ''{'' @ join '' '' (map (\<lambda>f. fmt_v addr (fldValue f)) fs) @ ''}''"
| "fmt_v addr (VOpaque s) = s"

section \<open>Errors\<close>

record ValidationError =
  vePath :: string
  veTag :: string
  veValue :: go_value
  veMessage :: string

definition ve_error_text :: "ValidationError list \<Rightarrow> string" where
  "ve_error_text es =
     (if es = [] then ''''
      else ''validation failed:'' @ [CHR 0x0A] @ join [CHR 0x0A] (map (\<lambda>e. ''  '' @ veMessage e) es))"

definition newError :: "(go_value \<Rightarrow> string) \<Rightarrow> string \<Rightarrow> string \<Rightarrow> go_value \<Rightarrow> ValidationError" where
  "newError addr path tag v =
     \<lparr>vePath = path, veTag = tag, veValue = v,
      veMessage = path @ '': failed rule '' @ go_quote tag @ '' (got '' @ fmt_v addr v @ '')''\<rparr>"

section \<open>Rules\<close>

definition ruleRequired :: "go_value \<Rightarrow> string \<Rightarrow> bool" where
  [go_eval]: "ruleRequired v param = (\<not> isZero v)"

definition ruleOneof :: "go_value \<Rightarrow> string \<Rightarrow> bool" where
  [go_eval]: "ruleOneof v param =
     (case v of VString s \<Rightarrow> list_ex (\<lambda>opt. s = opt) (fields_from [] param) | _ \<Rightarrow> False)"

text \<open>A \<open>uint64\<close> is converted to \<open>int64\<close> before it is compared.\<close>

definition ruleGt :: "go_value \<Rightarrow> string \<Rightarrow> bool" where
  [go_eval]: "ruleGt v param =
     (case atoi param of
        (n, False) \<Rightarrow> False
      | (n, True) \<Rightarrow>
          (case v of VInt i \<Rightarrow> n < i | VUint u \<Rightarrow> n < wrap64 (int u) | _ \<Rightarrow> False))"

definition ruleMin :: "go_value \<Rightarrow> string \<Rightarrow> bool" where
  [go_eval]: "ruleMin v param =
     (case atoi param of
        (n, False) \<Rightarrow> False
      | (n, True) \<Rightarrow>
          (case v of
             VString s \<Rightarrow> n \<le> int (length s)
           | VInt i \<Rightarrow> n \<le> i
           | VUint u \<Rightarrow> n \<le> wrap64 (int u)
           | VSlice xs \<Rightarrow> n \<le> int (case xs of None \<Rightarrow> 0 | Some l \<Rightarrow> length l)
           | VMap ty m \<Rightarrow> n \<le> int (case m of None \<Rightarrow> 0 | Some l \<Rightarrow> length l)
           | _ \<Rightarrow> False))"

definition ruleMax :: "go_value \<Rightarrow> string \<Rightarrow> bool" where
  [go_eval]: "ruleMax v param =
     (case atoi param of
        (n, False) \<Rightarrow> False
      | (n, True) \<Rightarrow>
          (case v of
             VString s \<Rightarrow> int (length s) \<le> n
           | VInt i \<Rightarrow> i \<le> n
           | VUint u \<Rightarrow> wrap64 (int u) \<le> n
           | VSlice xs \<Rightarrow> int (case xs of None \<Rightarrow> 0 | Some l \<Rightarrow> length l) \<le> n
           | VMap ty m \<Rightarrow> int (case m of None \<Rightarrow> 0 | Some l \<Rightarrow> length l) \<le> n
           | _ \<Rightarrow> False))"

definition ruleURL :: "(string \<Rightarrow> (string \<times> string) option) \<Rightarrow> go_value \<Rightarrow> string \<Rightarrow> bool" where
  [go_eval]: "ruleURL url_parse v param =
     (case v of
        VString s \<Rightarrow>
          (case url_parse s of
             None \<Rightarrow> False
           | Some (scheme, host) \<Rightarrow> scheme \<noteq> '''' \<and> host \<noteq> '''')
      | _ \<Rightarrow> False)"

text \<open>\<open>net.SplitHostPort\<close>: \<open>None\<close> for an error.\<close>

definition last_index_byte :: "string \<Rightarrow> char \<Rightarrow> nat option" where
  "last_index_byte s c = map_option (\<lambda>i. length s - Suc i) (index_byte (rev s) c)"

definition split_host_port :: "string \<Rightarrow> (string \<times> string) option" where
  "split_host_port hp =
     (case last_index_byte hp (CHR '':'') of
        None \<Rightarrow> None
      | Some i \<Rightarrow>
          if hd hp = CHR ''['' then
            (case index_byte hp (CHR '']'') of
               None \<Rightarrow> None
             | Some e \<Rightarrow>
                 if e + 1 \<noteq> i then None
                 else if CHR ''['' \<in> set (drop 1 hp) \<or> CHR '']'' \<in> set (drop (e + 1) hp) then None
                 else Some (drop 1 (take e hp), drop (i + 1) hp))
          else if CHR '':'' \<in> set (take i hp) then None
          else if CHR ''['' \<in> set hp \<or> CHR '']'' \<in> set hp then None
          else Some (take i hp, drop (i + 1) hp))"

definition ruleHostnamePort :: "go_value \<Rightarrow> string \<Rightarrow> bool" where
  [go_eval]: "ruleHostnamePort v param =
     (case v of VString s \<Rightarrow> split_host_port s \<noteq> None | _ \<Rightarrow> False)"

definition ruleRequiredIf :: "go_value \<Rightarrow> string \<Rightarrow> bool" where
  [go_eval]: "ruleRequiredIf v param = True"

text \<open>The registry \<open>rules\<close>, with the entry \<open>init\<close> adds.\<close>

definition rules ::
  "(string \<Rightarrow> (string \<times> string) option) \<Rightarrow> (string, go_value \<Rightarrow> string \<Rightarrow> bool) go_map" where
  [go_eval]: "rules url_parse =
     [(''required'', ruleRequired), (''oneof'', ruleOneof), (''gt'', ruleGt), (''min'', ruleMin),
      (''max'', ruleMax), (''url'', ruleURL url_parse), (''hostname_port'', ruleHostnamePort),
      (''required_if'', ruleRequiredIf)]"

section \<open>Walking a struct\<close>

definition joinPath :: "string \<Rightarrow> string \<Rightarrow> string" where
  [go_eval]: "joinPath prefix segment = (if prefix = '''' then segment else prefix @ ''.'' @ segment)"

definition fieldPath :: "string \<Rightarrow> go_field \<Rightarrow> string" where
  [go_eval]: "fieldPath parent f =
     (if fldYaml f = '''' then joinPath parent (to_lower (fldName f))
      else let name = cut_before (fldYaml f) '','' in
        if name = '''' then parent else joinPath parent name)"

text \<open>\<open>parent.FieldByName\<close>, for a sibling declared in the struct itself.\<close>

definition field_by_name :: "go_field list \<Rightarrow> string \<Rightarrow> go_value option" where
  [go_eval]: "field_by_name fs name = map_option fldValue (find (\<lambda>f. fldName f = name) fs)"

text \<open>One rule of a tag: the errors it adds, and whether the remaining rules are skipped.\<close>

definition apply_rule ::
  "(string \<Rightarrow> (string \<times> string) option) \<Rightarrow> (go_value \<Rightarrow> string) \<Rightarrow> go_value \<Rightarrow> go_field list
     \<Rightarrow> string \<Rightarrow> string \<Rightarrow> ValidationError list \<times> bool" where
  [go_eval]: "apply_rule url_parse addr fv parent path raw =
     (let rule = trim_space raw in
      if rule = '''' then ([], False)
      else if rule = ''omitempty'' then ([], isZero fv)
      else
        (let name = cut_before rule ''=''; param = cut_after rule ''='' in
         if name = ''required_if'' then
           (case split_n 2 (CHR '' '') param of
              [siblingName, siblingVal] \<Rightarrow>
                (case field_by_name parent siblingName of
                   Some (VString s) \<Rightarrow>
                     (if s = siblingVal \<and> isZero fv then ([newError addr path rule fv], False)
                      else ([], False))
                 | _ \<Rightarrow> ([], False))
            | _ \<Rightarrow> ([], False))
         else
           (case map_of (rules url_parse) name of
              None \<Rightarrow> ([], False)
            | Some fn \<Rightarrow> (if fn fv param then ([], False) else ([newError addr path rule fv], False)))))"

fun apply_rule_list ::
  "(string \<Rightarrow> (string \<times> string) option) \<Rightarrow> (go_value \<Rightarrow> string) \<Rightarrow> go_value \<Rightarrow> go_field list
     \<Rightarrow> string \<Rightarrow> string list \<Rightarrow> ValidationError list" where
  "apply_rule_list url_parse addr fv parent path [] = []"
| "apply_rule_list url_parse addr fv parent path (r # rs) =
     (case apply_rule url_parse addr fv parent path r of
        (es, stop) \<Rightarrow> es @ (if stop then [] else apply_rule_list url_parse addr fv parent path rs))"

definition applyRules ::
  "(string \<Rightarrow> (string \<times> string) option) \<Rightarrow> (go_value \<Rightarrow> string) \<Rightarrow> go_value \<Rightarrow> go_field list
     \<Rightarrow> string \<Rightarrow> string \<Rightarrow> ValidationError list" where
  [go_eval]: "applyRules url_parse addr fv parent path tag =
     (if tag = '''' then [] else apply_rule_list url_parse addr fv parent path (split_all (CHR '','') tag))"

text \<open>
  \<open>itoa\<close>: the digits are written from the end of a 20-byte buffer, and the written part is
  returned.
\<close>

function itoa_loop :: "int \<Rightarrow> string \<Rightarrow> string" where
  "itoa_loop n buf =
     (if 0 < n then itoa_loop (n div 10) (char_of (48 + nat (n mod 10)) # buf) else buf)"
  by pat_completeness auto

termination itoa_loop
  by (relation "measure (\<lambda>(n, buf). nat n)") auto

declare itoa_loop.simps [simp del]

definition validate_itoa :: "int \<Rightarrow> string" where
  "validate_itoa n = (if n = 0 then ''0'' else itoa_loop n [])"

text \<open>
  \<open>walkStruct\<close> with its two helpers. \<open>hook\<close> is the custom validation of a struct that implements
  \<open>Validatable\<close>; no struct of the program does.
\<close>

type_synonym validate_hook = "go_field list \<Rightarrow> string \<Rightarrow> ValidationError list"

definition no_hook :: validate_hook where
  [go_eval]: "no_hook fs path = []"

fun deref :: "go_value \<Rightarrow> go_value" where
  "deref (VPtr v) = v"
| "deref v = v"

fun is_struct :: "go_value \<Rightarrow> bool" where
  "is_struct (VStruct fs) = True"
| "is_struct v = False"

lemma size_deref [termination_simp]: "size (deref v) \<le> size v" "size (deref v) < Suc (size v + n)"
  by (cases v; simp)+

lemma deref_id [simp]: "is_struct v \<Longrightarrow> deref v = v"
  by (cases v) simp_all

function (sequential) walk_value ::
  "(string \<Rightarrow> (string \<times> string) option) \<Rightarrow> (go_value \<Rightarrow> string) \<Rightarrow> validate_hook \<Rightarrow> go_value \<Rightarrow> string
     \<Rightarrow> ValidationError list"
and walk_fields ::
  "(string \<Rightarrow> (string \<times> string) option) \<Rightarrow> (go_value \<Rightarrow> string) \<Rightarrow> validate_hook \<Rightarrow> go_field list
     \<Rightarrow> go_field list \<Rightarrow> string \<Rightarrow> ValidationError list"
and walk_map ::
  "(string \<Rightarrow> (string \<times> string) option) \<Rightarrow> (go_value \<Rightarrow> string) \<Rightarrow> validate_hook
     \<Rightarrow> (string \<times> go_value) list \<Rightarrow> string \<Rightarrow> ValidationError list"
and walk_slice ::
  "(string \<Rightarrow> (string \<times> string) option) \<Rightarrow> (go_value \<Rightarrow> string) \<Rightarrow> validate_hook \<Rightarrow> nat
     \<Rightarrow> go_value list \<Rightarrow> string \<Rightarrow> ValidationError list"
where
  "walk_value up addr hook (VStruct fs) path = walk_fields up addr hook fs fs path @ hook fs path"
| "walk_value up addr hook (VMap ty (Some es)) path = walk_map up addr hook es path"
| "walk_value up addr hook (VSlice (Some vs)) path = walk_slice up addr hook 0 vs path"
| "walk_value up addr hook v path = []"
| "walk_fields up addr hook parent [] path = []"
| "walk_fields up addr hook parent (GoField name exported yaml tag v # fs) path =
     (if \<not> exported then []
      else
        applyRules up addr (deref v) parent (fieldPath path (GoField name exported yaml tag v)) tag @
        walk_value up addr hook (deref v) (fieldPath path (GoField name exported yaml tag v))) @
     walk_fields up addr hook parent fs path"
| "walk_map up addr hook [] path = []"
| "walk_map up addr hook ((k, v) # es) path =
     (if is_struct (deref v) then walk_value up addr hook (deref v) (joinPath path k) else []) @
     walk_map up addr hook es path"
| "walk_slice up addr hook i [] path = []"
| "walk_slice up addr hook i (v # vs) path =
     (if is_struct (deref v) then
        walk_value up addr hook (deref v) (path @ ''['' @ validate_itoa (int i) @ '']'')
      else []) @
     walk_slice up addr hook (Suc i) vs path"
  by pat_completeness auto

termination
  by (relation "measure (case_sum
        (case_sum (\<lambda>(up, addr, hook, v, path). size v) (\<lambda>(up, addr, hook, parent, fs, path). size_list size fs))
        (case_sum (\<lambda>(up, addr, hook, es, path). size_list (size_prod (\<lambda>_. 0) size) es)
                  (\<lambda>(up, addr, hook, i, vs, path). size_list size vs)))")
    (auto intro: le_less_trans [OF size_deref(1)])

text \<open>\<open>StructWithPrefix\<close>: the empty list is \<open>nil\<close>.\<close>

fun StructWithPrefix ::
  "(string \<Rightarrow> (string \<times> string) option) \<Rightarrow> (go_value \<Rightarrow> string) \<Rightarrow> validate_hook \<Rightarrow> go_value \<Rightarrow> string
     \<Rightarrow> ValidationError list" where
  "StructWithPrefix up addr hook (VPtr v) prefix = StructWithPrefix up addr hook v prefix"
| "StructWithPrefix up addr hook (VStruct fs) prefix = walk_value up addr hook (VStruct fs) prefix"
| "StructWithPrefix up addr hook v prefix = []"

definition validate_Struct ::
  "(string \<Rightarrow> (string \<times> string) option) \<Rightarrow> (go_value \<Rightarrow> string) \<Rightarrow> validate_hook \<Rightarrow> go_value
     \<Rightarrow> ValidationError list" where
  "validate_Struct up addr hook v = StructWithPrefix up addr hook v ''''"

section \<open>The rules of a record\<close>

text \<open>A \<open>model.Record\<close> as \<open>reflect\<close> sees it, with its yaml and validate tags.\<close>

definition base_value :: "'a BaseRecord_scheme \<Rightarrow> go_value" where
  "base_value b = VStruct
     [GoField ''TTL'' True ''ttl'' '''' (VInt (TTL b)),
      GoField ''Priority'' True ''priority'' ''min=0,max=65535'' (VInt (Priority b)),
      GoField ''Comment'' True ''comment'' '''' (VString (Comment b))]"

definition record_value :: "Record \<Rightarrow> go_value" where
  "record_value r = VStruct
     [GoField ''BaseRecord'' True '',inline'' '''' (base_value r),
      GoField ''ID'' True '''' '''' (VString (ID r)),
      GoField ''SourceID'' True '''' '''' (VString (SourceID r)),
      GoField ''SourceName'' True '''' '''' (VString (SourceName r)),
      GoField ''Upstream'' True '''' ''required'' (VString (Upstream r)),
      GoField ''Type'' True ''type'' ''required,oneof=A AAAA CNAME TXT MX SRV NS CAA'' (VString (Type r)),
      GoField ''Name'' True ''name'' ''required'' (VString (Name r)),
      GoField ''Value'' True ''value'' ''required'' (VString (Value r)),
      GoField ''Status'' True '''' '''' (VString (Status r)),
      GoField ''SyncedAt'' True '''' '''' (VStruct [GoField ''wall'' False '''' '''' (VInt (SyncedAt r))]),
      GoField ''SyncError'' True '''' '''' (VString (SyncError r)),
      GoField ''Failures'' True '''' '''' (VInt (Failures r))]"

text \<open>The library functions the validator uses: \<open>url.Parse\<close> and the printing of pointers.\<close>

record go_lib =
  glUrlParse :: "string \<Rightarrow> (string \<times> string) option"
  glAddr :: "go_value \<Rightarrow> string"

definition sample_lib :: go_lib where
  "sample_lib = \<lparr>glUrlParse = (\<lambda>s. None), glAddr = (\<lambda>v. ''0x0'')\<rparr>"

definition validate_record :: "go_lib \<Rightarrow> Record \<Rightarrow> string \<Rightarrow> ValidationError list" where
  "validate_record lib r path =
     StructWithPrefix (glUrlParse lib) (glAddr lib) no_hook (VPtr (record_value r)) path"

lemmas tag_eval = applyRules_def apply_rule_def split_all_def trim_space_def is_space_def
  cut_before_def cut_after_def has_prefix_def rules_def Let_def

lemma apply_no_tag: "applyRules up addr v parent path '''' = []"
  by (simp add: applyRules_def)

lemma apply_required:
  "applyRules up addr v parent path ''required''
     = (if isZero v then [newError addr path ''required'' v] else [])"
  by (simp add: tag_eval ruleRequired_def)

lemma apply_min_max:
  "applyRules up addr (VInt n) parent path ''min=0,max=65535''
     = (if 0 \<le> n then [] else [newError addr path ''min=0'' (VInt n)]) @
       (if n \<le> 65535 then [] else [newError addr path ''max=65535'' (VInt n)])"
proof -
  have "atoi ''0'' = (0, True)" "atoi ''65535'' = (65535, True)"
    by (simp_all add: atoi_def atoi_signed_def parse_nat_def char_digit_def Let_def
        min_int64_def max_int64_def)
  then show ?thesis by (simp add: tag_eval ruleMin_def ruleMax_def)
qed

definition record_types :: "string list" where
  "record_types = [RecordTypeA, RecordTypeAAAA, RecordTypeCNAME, RecordTypeTXT, RecordTypeMX,
     RecordTypeSRV, RecordTypeNS, RecordTypeCAA]"

lemma fields_types: "fields_from [] ''A AAAA CNAME TXT MX SRV NS CAA'' = record_types"
  by (simp add: record_types_def is_space_def go_consts)

lemma apply_type:
  "applyRules up addr (VString s) parent path ''required,oneof=A AAAA CNAME TXT MX SRV NS CAA''
     = (if s = '''' then [newError addr path ''required'' (VString s)] else []) @
       (if s \<in> set record_types then []
        else [newError addr path ''oneof=A AAAA CNAME TXT MX SRV NS CAA'' (VString s)])"
proof -
  have "list_ex (\<lambda>opt. s = opt) record_types \<longleftrightarrow> s \<in> set record_types"
    by (auto simp: list_ex_iff)
  then show ?thesis
    by (simp add: tag_eval ruleRequired_def ruleOneof_def fields_types)
      (simp add: record_types_def go_consts)
qed

lemma lower_upstream: "to_lower ''Upstream'' = ''upstream''"
  by code_simp

text \<open>
  C19. The validator implements the rules of a record exactly. The failures it reports for a
  record are, in this order: a priority outside 0..65535, a missing upstream, a missing or
  unknown type, a missing name, a missing value; each with its path and rule, and no others.
\<close>

theorem record_errors_exact:
  "map (\<lambda>e. (vePath e, veTag e)) (StructWithPrefix up addr no_hook (VPtr (record_value r)) prefix) =
     (if 0 \<le> Priority r then [] else [(joinPath prefix ''priority'', ''min=0'')]) @
     (if Priority r \<le> 65535 then [] else [(joinPath prefix ''priority'', ''max=65535'')]) @
     (if Upstream r = '''' then [(joinPath prefix ''upstream'', ''required'')] else []) @
     (if Type r = '''' then [(joinPath prefix ''type'', ''required'')] else []) @
     (if Type r \<in> set record_types then []
      else [(joinPath prefix ''type'', ''oneof=A AAAA CNAME TXT MX SRV NS CAA'')]) @
     (if Name r = '''' then [(joinPath prefix ''name'', ''required'')] else []) @
     (if Value r = '''' then [(joinPath prefix ''value'', ''required'')] else [])"
  by (simp add: record_value_def base_value_def apply_no_tag apply_required apply_min_max apply_type
      lower_upstream newError_def no_hook_def fieldPath_def cut_before_def has_prefix_def Let_def)

definition valid_record :: "Record \<Rightarrow> bool" where
  "valid_record r \<longleftrightarrow> 0 \<le> Priority r \<and> Priority r \<le> 65535 \<and> Upstream r \<noteq> '''' \<and>
     Type r \<in> set record_types \<and> Name r \<noteq> '''' \<and> Value r \<noteq> ''''"

lemma record_valid_iff:
  "StructWithPrefix up addr no_hook (VPtr (record_value r)) prefix = [] \<longleftrightarrow> valid_record r"
  by (auto simp: record_value_def base_value_def apply_no_tag apply_required apply_min_max apply_type
      newError_def no_hook_def valid_record_def record_types_def go_consts)

section \<open>Numerals\<close>

lemma itoa_loop_decimal: "0 < n \<Longrightarrow> itoa_loop n buf = nat_decimal (nat n) @ buf"
proof (induction n buf rule: itoa_loop.induct)
  case (1 n buf)
  have d: "digit_char (nat n mod 10) = char_of (48 + nat (n mod 10))"
    using 1(2) by (simp add: digit_char_def nat_mod_distrib)
  show ?case
  proof (cases "n < 10")
    case True
    with 1(2) have "n div 10 = 0" "nat (n mod 10) = nat n" by simp_all
    with 1(2) True show ?thesis
      by (subst itoa_loop.simps, subst nat_decimal.simps) (simp add: itoa_loop.simps [of 0] digit_char_def)
  next
    case False
    then have "0 < n div 10" by simp
    with 1(1) [OF 1(2)] have "itoa_loop (n div 10) (char_of (48 + nat (n mod 10)) # buf)
        = nat_decimal (nat (n div 10)) @ char_of (48 + nat (n mod 10)) # buf" by simp
    with 1(2) False d show ?thesis
      by (subst itoa_loop.simps, subst nat_decimal.simps) (simp add: nat_div_distrib)
  qed
qed

lemma nat_decimal_length: "n < 10 ^ k \<Longrightarrow> 0 < k \<Longrightarrow> length (nat_decimal n) \<le> k"
proof (induction n arbitrary: k rule: nat_decimal.induct)
  case (1 n)
  show ?case
  proof (cases "n < 10")
    case True
    with 1(3) show ?thesis by (subst nat_decimal.simps) simp
  next
    case False
    obtain j where j: "k = Suc j" using 1(3) by (cases k) auto
    with 1(2) False have "0 < j" by (cases j) auto
    note j = j this
    with 1(2) have "n div 10 < 10 ^ j" by (simp add: less_mult_imp_div_less mult.commute)
    with 1(1) [OF False] j have "length (nat_decimal (n div 10)) \<le> j" by simp
    with False j show ?thesis by (subst nat_decimal.simps) simp
  qed
qed

text \<open>
  The validator's own \<open>itoa\<close> is correct: for every non-negative 64-bit integer it returns the
  decimal numeral, which reads back as the same number, and the numeral fits the 20-byte buffer
  it is built in.
\<close>

theorem validate_itoa_correct:
  assumes "0 \<le> n" "n \<le> max_int64"
  shows "validate_itoa n = itoa n \<and> atoi (validate_itoa n) = (n, True) \<and> length (validate_itoa n) \<le> 20"
proof -
  have i: "validate_itoa n = itoa n"
  proof (cases "n = 0")
    case True
    moreover have "char_of (48 :: nat) = CHR ''0''" by code_simp
    ultimately show ?thesis by (simp add: validate_itoa_def itoa_def nat_decimal.simps digit_char_def)
  next
    case False
    with assms(1) show ?thesis by (simp add: validate_itoa_def itoa_def itoa_loop_decimal)
  qed
  moreover have "in_int64 n" using assms by (simp add: in_int64_def min_int64_def)
  then have "atoi (itoa n) = (n, True)" by (rule atoi_itoa)
  moreover have "nat n < 10 ^ 20" using assms by (simp add: max_int64_def nat_less_iff)
  then have "length (nat_decimal (nat n)) \<le> 20" by (rule nat_decimal_length) simp
  ultimately show ?thesis using assms(1) by (simp add: itoa_def)
qed

theorem validate_itoa_correct_witness:
  "validate_itoa 65535 = itoa 65535 \<and> atoi (validate_itoa 65535) = (65535, True)"
proof -
  have "(0 :: int) \<le> 65535" "65535 \<le> max_int64" by (simp_all add: max_int64_def)
  from validate_itoa_correct [OF this] show ?thesis by blast
qed

end
