(* ===== verification/Docker_Source.thy ===== *)
theory Docker_Source
  imports Validate Collect
begin

text \<open>
  \<open>pkg/source/docker/docker.go\<close>: reading DNS records from container labels, the snapshot over
  all running containers, and the event loop of \<open>Notify\<close> as a step function. The Docker client
  is an argument (\<open>ContainerList\<close>; the event stream is the environment of the loop); logging is
  left out. The loops over Go maps take their order from \<open>label_orders\<close>. Proved here: what
  \<open>parseLabels\<close> returns, exactly, in terms of the labels; only valid records, one per record id
  and upstream; a failing Docker call is an error and not an empty snapshot; the event stream is
  open or about to be reopened at any time.
\<close>

definition labelPrefix :: string where [go_consts]: "labelPrefix = ''dns.''"

definition eventResubscribeDelay :: int where "eventResubscribeDelay = 5 * second_ns"

section \<open>Labels\<close>

type_synonym label_map = "(string, string) go_map"
type_synonym raw_fields = "(string, (string, label_map) go_map) go_map"

record label_orders =
  loLabels :: "(string \<times> string) iteration"
  loRaw :: "(string \<times> (string, label_map) go_map) iteration"
  loUpstreams :: "string \<Rightarrow> (string \<times> label_map) iteration"

definition raw_put :: "string \<Rightarrow> string \<Rightarrow> string \<Rightarrow> string \<Rightarrow> raw_fields \<Rightarrow> raw_fields" where
  [go_eval]: "raw_put recordID upstreamName field v raw =
     (let ups = go_get [] raw recordID; fs = go_get [] ups upstreamName
      in go_put recordID (go_put upstreamName (go_put field v fs) ups) raw)"

fun collect_raw :: "(string \<times> string) list \<Rightarrow> raw_fields \<Rightarrow> raw_fields" where
  "collect_raw [] raw = raw"
| "collect_raw ((k, v) # kvs) raw =
     (if \<not> has_prefix k labelPrefix then collect_raw kvs raw
      else
        (case split_n 3 (CHR ''.'') (trim_prefix k labelPrefix) of
           [recordID, upstreamName, field] \<Rightarrow>
             collect_raw kvs (raw_put recordID upstreamName field v raw)
         | _ \<Rightarrow> collect_raw kvs raw))"

text \<open>\<open>if v, ok := m[k]; ok { if n, err := strconv.Atoi(v); err == nil { x = n } }\<close>\<close>

definition int_field :: "label_map \<Rightarrow> string \<Rightarrow> int \<Rightarrow> int" where
  [go_eval]: "int_field m k d = (case map_of m k of None \<Rightarrow> d | Some v \<Rightarrow> atoi_or d v)"

definition label_record ::
  "string \<Rightarrow> string \<Rightarrow> BaseRecord \<Rightarrow> string \<Rightarrow> string \<Rightarrow> label_map \<Rightarrow> Record" where
  [go_eval]: "label_record sourceName containerID base recordID upstreamName fs =
     zero_record\<lparr>TTL := int_field fs ''ttl'' (TTL base),
       Priority := int_field fs ''priority'' (Priority base),
       Comment := (case map_of fs ''comment'' of None \<Rightarrow> Comment base | Some v \<Rightarrow> v),
       ID := recordID, SourceID := containerID, SourceName := sourceName, Upstream := upstreamName,
       Type := to_upper (go_get '''' fs ''type''), Name := go_get '''' fs ''name'',
       Value := go_get '''' fs ''value''\<rparr>"

definition shortID :: "string \<Rightarrow> string" where
  [go_eval]: "shortID cid = (if length cid \<le> 12 then cid else take 12 cid)"

definition label_path :: "string \<Rightarrow> string \<Rightarrow> string \<Rightarrow> string" where
  [go_eval]: "label_path containerID recordID upstreamName =
     ''docker://'' @ shortID containerID @ ''/'' @ recordID @ ''/'' @ upstreamName"

fun build_upstreams ::
  "go_lib \<Rightarrow> bool \<Rightarrow> string \<Rightarrow> string \<Rightarrow> BaseRecord \<Rightarrow> string \<Rightarrow> (string \<times> label_map) list
     \<Rightarrow> Record list \<Rightarrow> ValidationError list + Record list" where
  "build_upstreams lib strict sn cid base rid [] acc = Inr acc"
| "build_upstreams lib strict sn cid base rid ((up, fs) # rest) acc =
     (let r = label_record sn cid base rid up fs;
          errs = validate_record lib r (label_path cid rid up)
      in if errs \<noteq> [] then
           (if strict then Inl errs else build_upstreams lib strict sn cid base rid rest acc)
         else build_upstreams lib strict sn cid base rid rest (acc @ [r]))"

fun build_records ::
  "go_lib \<Rightarrow> label_orders \<Rightarrow> bool \<Rightarrow> string \<Rightarrow> string \<Rightarrow> BaseRecord
     \<Rightarrow> (string \<times> (string, label_map) go_map) list \<Rightarrow> Record list \<Rightarrow> ValidationError list + Record list" where
  "build_records lib ord strict sn cid base [] acc = Inr acc"
| "build_records lib ord strict sn cid base ((rid, ups) # rest) acc =
     (case build_upstreams lib strict sn cid base rid (iterate (loUpstreams ord rid) ups) acc of
        Inl errs \<Rightarrow> Inl errs
      | Inr acc' \<Rightarrow> build_records lib ord strict sn cid base rest acc')"

definition parseLabels ::
  "go_lib \<Rightarrow> label_orders \<Rightarrow> string \<Rightarrow> string \<Rightarrow> label_map \<Rightarrow> BaseRecord \<Rightarrow> bool
     \<Rightarrow> ValidationError list + Record list" where
  "parseLabels lib ord sourceName containerID labels defaults strictValidation =
     (if go_get '''' labels (labelPrefix @ ''enable'') \<noteq> ''true'' then Inr []
      else
        (let base = defaults\<lparr>TTL := int_field labels (labelPrefix @ ''ttl'') (TTL defaults)\<rparr>;
             raw = collect_raw (iterate (loLabels ord) labels) []
         in build_records lib ord strictValidation sourceName containerID base
              (iterate (loRaw ord) raw) []))"

section \<open>Snapshot\<close>

record container =
  cID :: string
  cLabels :: label_map

record docker_source =
  dsName :: string
  dsDefaults :: BaseRecord
  dsStrict :: bool
  dsPollInterval :: int
  dsUseEvents :: bool

fun snapshot_containers ::
  "go_lib \<Rightarrow> (string \<Rightarrow> label_orders) \<Rightarrow> docker_source \<Rightarrow> container list \<Rightarrow> Record list" where
  "snapshot_containers lib ord src [] = []"
| "snapshot_containers lib ord src (c # cs) =
     (case parseLabels lib (ord (cID c)) (dsName src) (cID c) (cLabels c) (dsDefaults src) (dsStrict src) of
        Inl errs \<Rightarrow> snapshot_containers lib ord src cs
      | Inr recs \<Rightarrow> recs @ snapshot_containers lib ord src cs)"

definition docker_Snapshot ::
  "go_lib \<Rightarrow> (string \<Rightarrow> label_orders) \<Rightarrow> docker_source \<Rightarrow> ('w \<Rightarrow> (error + container list) \<times> 'w) \<Rightarrow> 'w
     \<Rightarrow> (error + Record list) outcome \<times> 'w" where
  "docker_Snapshot lib ord src ContainerList w =
     (case ContainerList w of
        (Inl err, w1) \<Rightarrow> (Returned (Inl err), w1)
      | (Inr cs, w1) \<Rightarrow> (Returned (Inr (snapshot_containers lib ord src cs)), w1))"

definition docker_snapshotter ::
  "go_lib \<Rightarrow> (string \<Rightarrow> label_orders) \<Rightarrow> docker_source \<Rightarrow> ('w \<Rightarrow> (error + container list) \<times> 'w)
     \<Rightarrow> 'w snapshotter" where
  "docker_snapshotter lib ord src ContainerList =
     \<lparr>snapName = dsName src, snapSnapshot = docker_Snapshot lib ord src ContainerList\<rparr>"

fun seen_ids :: "Record list \<Rightarrow> (string, unit) go_map \<Rightarrow> (string, unit) go_map" where
  "seen_ids [] seen = seen"
| "seen_ids (r # rs) seen = seen_ids rs (go_put (SourceID r) () seen)"

definition uniqueSourceIDs :: "Record list \<Rightarrow> nat" where
  "uniqueSourceIDs rs = length (seen_ids rs [])"

section \<open>What the labels say\<close>

lemma split_n_3:
  "split_n 3 c s = [a, b, d] \<longleftrightarrow> s = a @ c # b @ c # d \<and> c \<notin> set a \<and> c \<notin> set b"
proof
  assume "s = a @ c # b @ c # d \<and> c \<notin> set a \<and> c \<notin> set b"
  then show "split_n 3 c s = [a, b, d]"
    by (auto simp: numeral_3_eq_3 index_byte_append)
next
  assume s: "split_n 3 c s = [a, b, d]"
  then obtain i where i: "index_byte s c = Some i" "a = take i s"
    "split_n (Suc (Suc 0)) c (drop (Suc i) s) = [b, d]"
    by (auto simp: numeral_3_eq_3 split: option.splits)
  then obtain j where j: "index_byte (drop (Suc i) s) c = Some j" "b = take j (drop (Suc i) s)"
    "d = drop (Suc j) (drop (Suc i) s)"
    by (auto split: option.splits)
  show "s = a @ c # b @ c # d \<and> c \<notin> set a \<and> c \<notin> set b"
    using index_byte_SomeD [OF i(1)] index_byte_SomeD [OF j(1)] i(2) j(2,3) by simp
qed

text \<open>The key of the label that sets a field of a record on an upstream.\<close>

definition label_key :: "string \<Rightarrow> string \<Rightarrow> string \<Rightarrow> string" where
  "label_key rid up field = labelPrefix @ rid @ CHR ''.'' # up @ CHR ''.'' # field"

definition label_id :: "string \<Rightarrow> bool" where
  "label_id s \<longleftrightarrow> CHR ''.'' \<notin> set s"

lemma parse_label_key:
  "has_prefix k labelPrefix \<and> split_n 3 (CHR ''.'') (trim_prefix k labelPrefix) = [rid, up, field] \<longleftrightarrow>
     label_id rid \<and> label_id up \<and> k = label_key rid up field"
  by (auto simp: split_n_3 label_key_def label_id_def has_prefix_iff)

lemma label_key_inj:
  assumes "label_key rid up f = label_key rid' up' f'" "label_id rid" "label_id up" "label_id rid'" "label_id up'"
  shows "rid = rid' \<and> up = up' \<and> f = f'"
proof -
  have "has_prefix (label_key rid up f) labelPrefix \<and>
      split_n 3 (CHR ''.'') (trim_prefix (label_key rid up f) labelPrefix) = [rid, up, f]"
    unfolding parse_label_key using assms by simp
  moreover have "has_prefix (label_key rid up f) labelPrefix \<and>
      split_n 3 (CHR ''.'') (trim_prefix (label_key rid up f) labelPrefix) = [rid', up', f']"
    unfolding parse_label_key using assms by simp
  ultimately show ?thesis by simp
qed

text \<open>Reading the nested maps.\<close>

definition raw_field :: "raw_fields \<Rightarrow> string \<Rightarrow> string \<Rightarrow> string \<Rightarrow> string option" where
  "raw_field raw rid up f = map_of (go_get [] (go_get [] raw rid) up) f"

lemma raw_field_put:
  "raw_field (raw_put rid up f v raw) rid' up' f'
     = (if rid' = rid \<and> up' = up \<and> f' = f then Some v else raw_field raw rid' up' f')"
  by (simp add: raw_field_def raw_put_def Let_def)

definition raw_ok :: "raw_fields \<Rightarrow> bool" where
  "raw_ok raw \<longleftrightarrow> go_map_wf raw \<and>
     (\<forall>(rid, ups) \<in> set raw. go_map_wf ups \<and> ups \<noteq> [] \<and> (\<forall>(up, fs) \<in> set ups. fs \<noteq> []))"

lemma update_nonempty [simp]: "go_put k v m \<noteq> []" "[] \<noteq> go_put k v m"
  by (cases m; auto split: prod.splits)+

lemma mem_go_put: "(k', v') \<in> set (go_put k v m) \<Longrightarrow> (k' = k \<and> v' = v) \<or> (k', v') \<in> set m"
  by (induction m) (auto split: if_splits)

lemma mem_go_get: "go_get [] m k = [] \<or> (k, go_get [] m k) \<in> set m"
  by (cases "map_of m k") (auto simp: go_get_def dest: map_of_SomeD)

lemma raw_ok_put:
  assumes "raw_ok raw"
  shows "raw_ok (raw_put rid up f v raw)"
proof -
  let ?ups = "go_get [] raw rid"
  have u: "go_map_wf ?ups" "\<forall>(up, fs) \<in> set ?ups. fs \<noteq> []"
    using mem_go_get [of raw rid] assms unfolding raw_ok_def by auto
  let ?ups' = "go_put up (go_put f v (go_get [] ?ups up)) ?ups"
  have "go_map_wf ?ups' \<and> ?ups' \<noteq> [] \<and> (\<forall>(up, fs) \<in> set ?ups'. fs \<noteq> [])"
    using u by (auto dest!: mem_go_put)
  then show ?thesis
    using assms unfolding raw_ok_def raw_put_def Let_def by (auto dest!: mem_go_put)
qed

lemma collect_raw_spec:
  "raw_ok raw \<Longrightarrow> go_map_wf kvs \<Longrightarrow> raw_ok (collect_raw kvs raw) \<and>
     (\<forall>rid up f. label_id rid \<longrightarrow> label_id up \<longrightarrow>
        raw_field (collect_raw kvs raw) rid up f
          = (case map_of kvs (label_key rid up f) of Some v \<Rightarrow> Some v | None \<Rightarrow> raw_field raw rid up f)) \<and>
     (\<forall>rid up f. \<not> (label_id rid \<and> label_id up) \<longrightarrow>
        raw_field (collect_raw kvs raw) rid up f = raw_field raw rid up f)"
proof (induction kvs arbitrary: raw)
  case Nil
  then show ?case by simp
next
  case (Cons kv kvs)
  obtain k v where kv: "kv = (k, v)" by (cases kv)
  have fresh: "map_of kvs k = None" "go_map_wf kvs" using Cons.prems kv by (auto simp: map_of_eq_None_iff)
  show ?case
  proof (cases "\<exists>rid up f. has_prefix k labelPrefix \<and> split_n 3 (CHR ''.'') (trim_prefix k labelPrefix) = [rid, up, f]")
    case True
    then obtain rid up f where s: "has_prefix k labelPrefix"
      "split_n 3 (CHR ''.'') (trim_prefix k labelPrefix) = [rid, up, f]" by blast
    then have k: "label_id rid" "label_id up" "k = label_key rid up f"
      using parse_label_key by blast+
    have c: "collect_raw (kv # kvs) raw = collect_raw kvs (raw_put rid up f v raw)"
      using s kv by simp
    note ih = Cons.IH [OF raw_ok_put [OF Cons.prems(1)] fresh(2), of rid up f v]
    show ?thesis unfolding c
    proof (intro conjI allI impI)
      show "raw_ok (collect_raw kvs (raw_put rid up f v raw))" using ih by blast
      fix rid' up' f'
      show "raw_field (collect_raw kvs (raw_put rid up f v raw)) rid' up' f' = raw_field raw rid' up' f'"
        if "\<not> (label_id rid' \<and> label_id up')"
        using ih that k by (auto simp: raw_field_put)
      assume ids: "label_id rid'" "label_id up'"
      then have r: "raw_field (collect_raw kvs (raw_put rid up f v raw)) rid' up' f'
          = (case map_of kvs (label_key rid' up' f') of Some v \<Rightarrow> Some v
             | None \<Rightarrow> raw_field (raw_put rid up f v raw) rid' up' f')"
        using ih by blast
      show "raw_field (collect_raw kvs (raw_put rid up f v raw)) rid' up' f'
          = (case map_of (kv # kvs) (label_key rid' up' f') of Some v \<Rightarrow> Some v
             | None \<Rightarrow> raw_field raw rid' up' f')"
      proof (cases "label_key rid' up' f' = k")
        case True
        with label_key_inj [of rid' up' f' rid up f] ids k have "rid' = rid" "up' = up" "f' = f" by simp_all
        with r True kv fresh(1) show ?thesis by (simp add: raw_field_put)
      next
        case False
        with k have "\<not> (rid' = rid \<and> up' = up \<and> f' = f)" by blast
        then have "raw_field (raw_put rid up f v raw) rid' up' f' = raw_field raw rid' up' f'"
          unfolding raw_field_put by (rule if_not_P)
        with r False kv show ?thesis by (cases "map_of kvs (label_key rid' up' f')") simp_all
      qed
    qed
  next
    case False
    then have c: "collect_raw (kv # kvs) raw = collect_raw kvs raw"
      using kv by (auto split: list.splits)
    have "label_key rid up f \<noteq> k" if "label_id rid" "label_id up" for rid up f
      using False parse_label_key that by blast
    then show ?thesis
      unfolding c using Cons.IH [OF Cons.prems(1) fresh(2)] kv by simp
  qed
qed

section \<open>What parseLabels returns\<close>

text \<open>The record the labels describe for a record id and an upstream, read off the labels.\<close>

definition label_fields :: "label_map \<Rightarrow> string \<Rightarrow> string \<Rightarrow> string \<Rightarrow> string option" where
  "label_fields labels rid up f = map_of labels (label_key rid up f)"

definition field_int :: "string option \<Rightarrow> int \<Rightarrow> int" where
  "field_int v d = (case v of None \<Rightarrow> d | Some s \<Rightarrow> atoi_or d s)"

definition field_str :: "string option \<Rightarrow> string \<Rightarrow> string" where
  "field_str v d = (case v of None \<Rightarrow> d | Some s \<Rightarrow> s)"

definition described_record ::
  "string \<Rightarrow> string \<Rightarrow> BaseRecord \<Rightarrow> label_map \<Rightarrow> string \<Rightarrow> string \<Rightarrow> Record" where
  "described_record sn cid defaults labels rid up =
     (let get = label_fields labels rid up in
      zero_record\<lparr>TTL := field_int (get ''ttl'') (field_int (map_of labels ''dns.ttl'') (TTL defaults)),
        Priority := field_int (get ''priority'') (Priority defaults),
        Comment := field_str (get ''comment'') (Comment defaults),
        ID := rid, SourceID := cid, SourceName := sn, Upstream := up,
        Type := to_upper (field_str (get ''type'') ''''), Name := field_str (get ''name'') '''',
        Value := field_str (get ''value'') ''''\<rparr>)"

definition described :: "label_map \<Rightarrow> string \<Rightarrow> string \<Rightarrow> bool" where
  "described labels rid up \<longleftrightarrow> label_id rid \<and> label_id up \<and> (\<exists>f. label_fields labels rid up f \<noteq> None)"

lemma raw_described:
  fixes labels :: label_map and it :: "(string \<times> string) iteration"
  assumes "go_map_wf labels"
  defines "raw \<equiv> collect_raw (iterate it labels) []"
  shows "raw_ok raw"
    and "(\<exists>ups fs. map_of raw rid = Some ups \<and> map_of ups up = Some fs) \<longleftrightarrow> described labels rid up"
    and "map_of raw rid = Some ups \<Longrightarrow> map_of ups up = Some fs \<Longrightarrow>
      described labels rid up \<and> map_of fs = label_fields labels rid up"
proof -
  have "raw_ok []" by (simp add: raw_ok_def)
  moreover have "go_map_wf (iterate it labels)" using assms(1) by simp
  ultimately have spec: "raw_ok raw"
    "\<And>rid up f. label_id rid \<Longrightarrow> label_id up \<Longrightarrow> raw_field raw rid up f = label_fields labels rid up f"
    "\<And>rid up f. \<not> (label_id rid \<and> label_id up) \<Longrightarrow> raw_field raw rid up f = None"
    using collect_raw_spec [of "[]" "iterate it labels"] assms(1)
    unfolding raw_def by (auto simp: raw_field_def label_fields_def go_get_def split: option.splits)
  show ok: "raw_ok raw" by fact
  have fs_ne: "fs \<noteq> []" if "map_of raw rid = Some ups" "map_of ups up = Some fs" for rid up ups fs
    using ok that unfolding raw_ok_def by (fastforce dest: map_of_SomeD)
  have entry: "described labels rid up \<and> map_of fs = label_fields labels rid up"
    if r: "map_of raw rid = Some ups" "map_of ups up = Some fs" for rid up ups fs
  proof -
    have f: "raw_field raw rid up = map_of fs" using r by (auto simp: raw_field_def go_get_def)
    obtain f v rest where "fs = (f, v) # rest" using fs_ne [OF r] by (metis neq_Nil_conv surj_pair)
    then have "map_of fs f \<noteq> None" by simp
    with spec(3) f have ids: "label_id rid" "label_id up" by metis+
    with spec(2) f have "map_of fs = label_fields labels rid up" by (intro ext) metis
    with ids \<open>map_of fs f \<noteq> None\<close> show ?thesis unfolding described_def by metis
  qed
  show "described labels rid up \<and> map_of fs = label_fields labels rid up"
    if "map_of raw rid = Some ups" "map_of ups up = Some fs" by (rule entry [OF that])
  show "(\<exists>ups fs. map_of raw rid = Some ups \<and> map_of ups up = Some fs) \<longleftrightarrow> described labels rid up"
  proof
    assume "\<exists>ups fs. map_of raw rid = Some ups \<and> map_of ups up = Some fs"
    with entry show "described labels rid up" by blast
  next
    assume "described labels rid up"
    then obtain f where "raw_field raw rid up f \<noteq> None" using spec(2) unfolding described_def by metis
    then show "\<exists>ups fs. map_of raw rid = Some ups \<and> map_of ups up = Some fs"
      by (auto simp: raw_field_def go_get_def split: option.splits)
  qed
qed

lemma label_record_described:
  assumes "map_of fs = label_fields labels rid up"
  shows "label_record sn cid (defaults\<lparr>TTL := int_field labels (labelPrefix @ ''ttl'') (TTL defaults)\<rparr>) rid up fs
    = described_record sn cid defaults labels rid up"
  by (simp add: label_record_def described_record_def int_field_def field_int_def field_str_def
      go_get_def assms Let_def labelPrefix_def cong: option.case_cong)

lemma build_upstreams_lenient:
  "build_upstreams lib False sn cid base rid ups acc
     = Inr (acc @ filter (\<lambda>r. validate_record lib r (label_path cid rid (Upstream r)) = [])
              (map (\<lambda>(up, fs). label_record sn cid base rid up fs) ups))"
  by (induction ups arbitrary: acc) (auto simp: Let_def label_record_def)

lemma valid_iff: "validate_record lib r path = [] \<longleftrightarrow> valid_record r"
  unfolding validate_record_def by (rule record_valid_iff)

lemma build_records_lenient:
  "build_records lib ord False sn cid base raw acc
     = Inr (acc @ filter valid_record (concat (map (\<lambda>(rid, ups).
              map (\<lambda>(up, fs). label_record sn cid base rid up fs) (iterate (loUpstreams ord rid) ups)) raw)))"
  by (induction raw arbitrary: acc) (auto simp: build_upstreams_lenient valid_iff)

lemma mem_map_pairs: "r \<in> set (map (\<lambda>(c, d). h c d) ys) \<longleftrightarrow> (\<exists>c d. (c, d) \<in> set ys \<and> r = h c d)"
  by (induction ys) auto

lemma mem_concat_pairs:
  "r \<in> set (concat (map (\<lambda>(a, b). map (\<lambda>(c, d). f a c d) (g a b)) xs)) \<longleftrightarrow>
     (\<exists>a b c d. (a, b) \<in> set xs \<and> (c, d) \<in> set (g a b) \<and> r = f a c d)"
proof (induction xs)
  case (Cons x xs)
  obtain a b where x: "x = (a, b)" by (cases x)
  have "r \<in> set (concat (map (\<lambda>(a, b). map (\<lambda>(c, d). f a c d) (g a b)) (x # xs))) \<longleftrightarrow>
      r \<in> set (map (\<lambda>(c, d). f a c d) (g a b)) \<or>
      r \<in> set (concat (map (\<lambda>(a, b). map (\<lambda>(c, d). f a c d) (g a b)) xs))"
    unfolding x list.map concat.simps set_append Un_iff case_prod_conv ..
  then show ?case
    unfolding Cons.IH mem_map_pairs x by (simp only: set_simps insert_iff prod.inject) blast
qed simp

lemma mem_built:
  fixes labels :: label_map and ord :: label_orders
  assumes "go_map_wf labels"
  defines "raw \<equiv> iterate (loRaw ord) (collect_raw (iterate (loLabels ord) labels) [])"
  shows "r \<in> set (concat (map (\<lambda>(rid, ups).
        map (\<lambda>(up, fs). label_record sn cid (defaults\<lparr>TTL := int_field labels (labelPrefix @ ''ttl'') (TTL defaults)\<rparr>) rid up fs)
          (iterate (loUpstreams ord rid) ups)) raw)) \<longleftrightarrow>
    (\<exists>rid up. described labels rid up \<and> r = described_record sn cid defaults labels rid up)"
proof -
  let ?base = "defaults\<lparr>TTL := int_field labels (labelPrefix @ ''ttl'') (TTL defaults)\<rparr>"
  let ?raw = "collect_raw (iterate (loLabels ord) labels) []"
  note rd = raw_described [OF assms(1), of "loLabels ord"]
  have wf: "go_map_wf ?raw" using rd(1) by (simp add: raw_ok_def)
  have inner: "go_map_wf ups" if "(rid, ups) \<in> set ?raw" for rid ups
    using rd(1) that unfolding raw_ok_def by blast
  have mem: "(rid, ups) \<in> set raw \<and> (up, fs) \<in> set (iterate (loUpstreams ord rid) ups) \<longleftrightarrow>
      map_of ?raw rid = Some ups \<and> map_of ups up = Some fs" for rid ups up fs
  proof -
    have "(rid, ups) \<in> set raw \<longleftrightarrow> map_of ?raw rid = Some ups"
      unfolding raw_def set_iterate by (rule go_map_mem_iff [OF wf])
    moreover have "(up, fs) \<in> set ups \<longleftrightarrow> map_of ups up = Some fs" if "map_of ?raw rid = Some ups"
      by (rule go_map_mem_iff [OF inner [OF map_of_SomeD [OF that]]])
    ultimately show ?thesis unfolding set_iterate by blast
  qed
  have "r \<in> set (concat (map (\<lambda>(rid, ups). map (\<lambda>(up, fs). label_record sn cid ?base rid up fs)
          (iterate (loUpstreams ord rid) ups)) raw)) \<longleftrightarrow>
      (\<exists>rid ups up fs. (rid, ups) \<in> set raw \<and> (up, fs) \<in> set (iterate (loUpstreams ord rid) ups) \<and>
         r = label_record sn cid ?base rid up fs)"
    by (rule mem_concat_pairs)
  also have "\<dots> \<longleftrightarrow> (\<exists>rid ups up fs. (map_of ?raw rid = Some ups \<and> map_of ups up = Some fs) \<and>
         r = label_record sn cid ?base rid up fs)"
    unfolding mem [symmetric] by blast
  also have "\<dots> \<longleftrightarrow> (\<exists>rid up. described labels rid up \<and> r = described_record sn cid defaults labels rid up)"
  proof
    assume "\<exists>rid ups up fs. (map_of ?raw rid = Some ups \<and> map_of ups up = Some fs) \<and>
      r = label_record sn cid ?base rid up fs"
    then show "\<exists>rid up. described labels rid up \<and> r = described_record sn cid defaults labels rid up"
      using rd(3) label_record_described by metis
  next
    assume "\<exists>rid up. described labels rid up \<and> r = described_record sn cid defaults labels rid up"
    then obtain rid up where "described labels rid up" "r = described_record sn cid defaults labels rid up" by blast
    moreover from this(1) obtain ups fs where "map_of ?raw rid = Some ups" "map_of ups up = Some fs"
      using rd(2) by blast
    ultimately show "\<exists>rid ups up fs. (map_of ?raw rid = Some ups \<and> map_of ups up = Some fs) \<and>
      r = label_record sn cid ?base rid up fs"
      using rd(3) label_record_described by metis
  qed
  finally show ?thesis .
qed

text \<open>
  C20. Reading labels, exactly. In lenient mode an enabled container yields precisely the valid
  ones among the records its labels describe: a record for every pair of a record id and an
  upstream, both without a dot, that some label \<open>dns.<id>.<upstream>.<field>\<close> names, with the
  fields of these labels and the container's and the configured defaults for the rest. The
  order of the maps does not matter, and a record never comes out invalid.
\<close>

theorem parseLabels_exact:
  assumes "go_map_wf labels" "map_of labels ''dns.enable'' = Some ''true''"
  shows "\<exists>rs. parseLabels lib ord sn cid labels defaults False = Inr rs \<and>
    (\<forall>r. r \<in> set rs \<longleftrightarrow> valid_record r \<and>
       (\<exists>rid up. described labels rid up \<and> r = described_record sn cid defaults labels rid up))"
proof -
  have "go_get '''' labels (labelPrefix @ ''enable'') = ''true''"
    using assms(2) by (simp add: go_get_def labelPrefix_def)
  then have p: "parseLabels lib ord sn cid labels defaults False = Inr (filter valid_record
      (concat (map (\<lambda>(rid, ups). map (\<lambda>(up, fs). label_record sn cid
           (defaults\<lparr>TTL := int_field labels (labelPrefix @ ''ttl'') (TTL defaults)\<rparr>) rid up fs)
           (iterate (loUpstreams ord rid) ups))
         (iterate (loRaw ord) (collect_raw (iterate (loLabels ord) labels) [])))))"
    by (simp add: parseLabels_def build_records_lenient Let_def)
  show ?thesis unfolding p using mem_built [OF assms(1)] by auto
qed

definition plain_labels :: label_orders where
  "plain_labels = \<lparr>loLabels = in_order, loRaw = in_order, loUpstreams = (\<lambda>_. in_order)\<rparr>"

definition sample_labels :: label_map where
  "sample_labels = [(''dns.enable'', ''true''), (''dns.web.pi.type'', ''a''),
     (''dns.web.pi.name'', ''h''), (''dns.web.pi.value'', ''10.0.0.1'')]"

theorem parseLabels_exact_witness:
  "\<exists>rs. parseLabels sample_lib plain_labels ''d'' ''c1'' sample_labels zero_base False = Inr rs \<and>
     (\<exists>r \<in> set rs. ID r = ''web'' \<and> Upstream r = ''pi'' \<and> Type r = ''A'' \<and> Value r = ''10.0.0.1'')"
proof -
  have "go_map_wf sample_labels" "map_of sample_labels ''dns.enable'' = Some ''true''"
    by (simp_all add: sample_labels_def)
  from parseLabels_exact [OF this, of sample_lib plain_labels "''d''" "''c1''" zero_base]
  obtain rs where rs: "parseLabels sample_lib plain_labels ''d'' ''c1'' sample_labels zero_base False = Inr rs"
    and mem: "\<And>r. r \<in> set rs \<longleftrightarrow> valid_record r \<and>
       (\<exists>rid up. described sample_labels rid up \<and> r = described_record ''d'' ''c1'' zero_base sample_labels rid up)"
    by blast
  let ?r = "described_record ''d'' ''c1'' zero_base sample_labels ''web'' ''pi''"
  have u: "to_upper ''a'' = ''A''" by code_simp
  have f: "ID ?r = ''web''" "Upstream ?r = ''pi''" "Type ?r = ''A''" "Value ?r = ''10.0.0.1''"
    "Name ?r = ''h''" "Priority ?r = 0"
    by (simp_all add: described_record_def label_fields_def label_key_def labelPrefix_def sample_labels_def
        field_str_def field_int_def u zero_base_def Let_def)
  have "described sample_labels ''web'' ''pi''"
    unfolding described_def label_id_def
    by (intro conjI exI [of _ "''type''"]) (simp_all add: label_fields_def label_key_def labelPrefix_def sample_labels_def)
  moreover have "valid_record ?r"
    using f by (simp add: valid_record_def record_types_def go_consts)
  ultimately have "?r \<in> set rs" using mem by blast
  with rs f show ?thesis by blast
qed

text \<open>A failing call of the Docker API is an error, never an empty snapshot.\<close>

lemma docker_Snapshot_error:
  assumes "ContainerList w = (Inl err, w1)"
  shows "docker_Snapshot lib ord src ContainerList w = (Returned (Inl err), w1)"
  using assms by (simp add: docker_Snapshot_def)

lemma docker_always_fails:
  assumes "\<forall>w. \<exists>err w1. ContainerList w = (Inl err, w1)"
  shows "always_fails (docker_snapshotter lib ord src ContainerList)"
  unfolding always_fails_def
proof
  fix w
  from assms obtain err w1 where "ContainerList w = (Inl err, w1)" by blast
  then show "\<exists>err w1. snapSnapshot (docker_snapshotter lib ord src ContainerList) w = (Returned (Inl err), w1)"
    by (simp add: docker_snapshotter_def docker_Snapshot_error)
qed

lemma seen_ids_keys: "fst ` set (seen_ids rs seen) = fst ` set seen \<union> SourceID ` set rs"
  by (induction rs arbitrary: seen) (auto simp: dom_update image_iff dest: mem_go_put)

section \<open>The event loop\<close>

text \<open>
  \<open>Notify\<close>: whether the event stream's channels are set, whether the resubscription timer is
  pending, and how often \<open>ch\<close> has been signalled. The events are the ready cases of the
  \<open>select\<close>; \<open>ctxErr\<close> is what \<open>ctx.Err() != nil\<close> says when the stream reports its error.
\<close>

record notify_state =
  nsStream :: bool
  nsResub :: bool
  nsSignals :: nat
  nsReturned :: bool

datatype notify_event =
    NotifyDone
  | StreamError bool
  | ResubTimer
  | StreamMessage string
  | PollTick

definition notify_init :: "docker_source \<Rightarrow> notify_state" where
  [go_eval]: "notify_init src = \<lparr>nsStream = dsUseEvents src, nsResub = False, nsSignals = 0, nsReturned = False\<rparr>"

fun notify_step :: "docker_source \<Rightarrow> notify_event \<Rightarrow> notify_state \<Rightarrow> notify_state option" where
  "notify_step src NotifyDone ns = (if nsReturned ns then None else Some (ns\<lparr>nsReturned := True\<rparr>))"
| "notify_step src (StreamError ctxErr) ns =
     (if nsReturned ns \<or> \<not> nsStream ns then None
      else if ctxErr then Some (ns\<lparr>nsStream := False\<rparr>)
      else Some (ns\<lparr>nsStream := False, nsResub := True\<rparr>))"
| "notify_step src ResubTimer ns =
     (if nsReturned ns \<or> \<not> nsResub ns then None
      else Some (ns\<lparr>nsResub := False, nsStream := True, nsSignals := nsSignals ns + 1\<rparr>))"
| "notify_step src (StreamMessage action) ns =
     (if nsReturned ns \<or> \<not> nsStream ns then None
      else if action \<in> {''start'', ''die'', ''stop'', ''kill''} then
        Some (ns\<lparr>nsSignals := nsSignals ns + 1\<rparr>)
      else Some ns)"
| "notify_step src PollTick ns =
     (if nsReturned ns \<or> \<not> 0 < dsPollInterval src then None
      else Some (ns\<lparr>nsSignals := nsSignals ns + 1\<rparr>))"

text \<open>Runs in which the stream reports an error only while the context is not cancelled.\<close>

inductive notify_reachable :: "docker_source \<Rightarrow> notify_state \<Rightarrow> bool" for src :: docker_source where
  notify_begin: "notify_reachable src (notify_init src)"
| notify_next: "notify_reachable src ns \<Longrightarrow> ev \<noteq> StreamError True \<Longrightarrow>
    notify_step src ev ns = Some ns' \<Longrightarrow> notify_reachable src ns'"

text \<open>
  C21. The event stream always comes back. While the context is not cancelled, a source that uses
  events has, at any time, either its stream open or the resubscription timer pending, never
  both; and reopening the stream signals the reconciler, so what happened in between is picked
  up.
\<close>

theorem docker_stream_comes_back:
  assumes "notify_reachable src ns" "dsUseEvents src"
  shows "(nsStream ns \<noteq> nsResub ns) \<and>
    (nsResub ns \<and> \<not> nsReturned ns \<longrightarrow>
       (\<exists>ns'. notify_step src ResubTimer ns = Some ns' \<and> nsStream ns' \<and> nsSignals ns' = nsSignals ns + 1))"
proof -
  have "nsStream ns \<noteq> nsResub ns"
    using assms(1)
  proof (induction rule: notify_reachable.induct)
    case notify_begin
    show ?case using assms(2) by (simp add: notify_init_def)
  next
    case (notify_next ns ev ns')
    then show ?case by (cases ev) (auto split: if_splits)
  qed
  then show ?thesis by simp
qed

definition sample_docker :: docker_source where
  "sample_docker = \<lparr>dsName = ''d'', dsDefaults = zero_base, dsStrict = False, dsPollInterval = 0, dsUseEvents = True\<rparr>"

theorem docker_stream_comes_back_witness:
  "\<exists>ns'. notify_step sample_docker ResubTimer ((notify_init sample_docker)\<lparr>nsStream := False, nsResub := True\<rparr>)
     = Some ns' \<and> nsStream ns' \<and> nsSignals ns' = 1"
proof -
  have "notify_reachable sample_docker ((notify_init sample_docker)\<lparr>nsStream := False, nsResub := True\<rparr>)"
    by (rule notify_next [OF notify_begin, of "StreamError False"])
      (simp_all add: notify_init_def sample_docker_def)
  from docker_stream_comes_back [OF this] show ?thesis
    by (simp add: sample_docker_def notify_init_def)
qed

end
