(* ===== verification/Transport.thy ===== *)
theory Transport
  imports Go_Strings Upstreams Complex_Main
begin

text \<open>
  \<open>pkg/upstream/transport\<close>: the composable HTTP middleware. A round tripper is a function of the
  request and the outside world \<open>'w\<close>, which also holds the state of the middleware objects; a
  stateful middleware gets a \<open>cell\<close>, the place of its fields in the world. Reading and closing of
  response bodies, and logging, are left out. Proved here: what \<open>Retry\<close> calls and when it stops,
  its delays, that \<open>CircuitBreaker\<close> implements its abstract counter and stays open, that
  \<open>SessionAuth\<close> authenticates once for any number of rejected callers, what \<open>DebugLog\<close> reveals.
\<close>

section \<open>Requests and responses\<close>

type_synonym http_header = "(string, string list) go_map"

record http_request =
  rqMethod :: string
  rqURL :: string
  rqHeader :: http_header
  rqBody :: "string option"
  rqGetBody :: "(error + string) option"
  rqDeadline :: "int option"

record http_response =
  respStatus :: int
  respHeader :: http_header
  respBody :: string

type_synonym 'w transport = "http_request \<Rightarrow> 'w \<Rightarrow> (error + http_response) \<times> 'w"
type_synonym 'w middleware = "'w transport \<Rightarrow> 'w transport"

text \<open>
  \<open>http.CanonicalHeaderKey\<close>: the first letter and those after a hyphen in upper case, the rest in
  lower case, for a key of token characters; other keys stay as they are.
\<close>

definition token_char :: "char \<Rightarrow> bool" where
  "token_char c \<longleftrightarrow> (let n = of_char c :: nat in
     48 \<le> n \<and> n \<le> 57 \<or> 65 \<le> n \<and> n \<le> 90 \<or> 94 \<le> n \<and> n \<le> 122 \<or>
     n \<in> {33, 35, 36, 37, 38, 39, 42, 43, 45, 46, 124, 126})"

fun canonical_from :: "bool \<Rightarrow> string \<Rightarrow> string" where
  "canonical_from up [] = []"
| "canonical_from up (c # cs) =
     (if up then upper_char c else lower_char c) # canonical_from (c = CHR ''-'') cs"

definition canonical_key :: "string \<Rightarrow> string" where
  "canonical_key k = (if list_all token_char k then canonical_from True k else k)"

definition header_set :: "string \<Rightarrow> string \<Rightarrow> http_header \<Rightarrow> http_header" where
  "header_set k v h = go_put (canonical_key k) [v] h"

definition header_get :: "http_header \<Rightarrow> string \<Rightarrow> string" where
  "header_get h k = (case map_of h (canonical_key k) of Some (v # vs) \<Rightarrow> v | _ \<Rightarrow> '''')"

lemma header_get_set [simp]: "header_get (header_set k v h) k = v"
  by (simp add: header_get_def header_set_def)

text \<open>The outside world of a client: its clock, waiting under the request's context, randomness.\<close>

record 'w http_env =
  heNow :: "'w \<Rightarrow> int"
  heWait :: "int \<Rightarrow> 'w \<Rightarrow> error option \<times> 'w"
  heRand :: "'w \<Rightarrow> rat \<times> 'w"

record ('s, 'w) cell =
  cellGet :: "'w \<Rightarrow> 's"
  cellPut :: "'s \<Rightarrow> 'w \<Rightarrow> 'w"

section \<open>Chain\<close>

fun Chain :: "'w transport \<Rightarrow> 'w middleware list \<Rightarrow> 'w transport" where
  "Chain base [] = base"
| "Chain base (m # ms) = m (Chain base ms)"

section \<open>Retry\<close>

definition defaultMaxAttempts :: int where "defaultMaxAttempts = 3"
definition defaultBaseDelay :: int where "defaultBaseDelay = 500 * millisecond_ns"
definition defaultMaxDelay :: int where "defaultMaxDelay = 30 * second_ns"

record RetryOptions =
  MaxAttempts :: int
  BaseDelay :: int
  MaxDelay :: int

definition withDefaults :: "RetryOptions \<Rightarrow> RetryOptions" where
  "withDefaults opt =
     \<lparr>MaxAttempts = (if MaxAttempts opt \<le> 0 then defaultMaxAttempts else MaxAttempts opt),
      BaseDelay = (if BaseDelay opt \<le> 0 then defaultBaseDelay else BaseDelay opt),
      MaxDelay = (if MaxDelay opt \<le> 0 then defaultMaxDelay else MaxDelay opt)\<rparr>"

definition isRetryable :: "int \<Rightarrow> bool" where
  "isRetryable code \<longleftrightarrow> code \<in> {429, 500, 502, 503, 504}"

text \<open>
  The conversion of a float to a duration truncates; out of range it gives the least integer, as
  on amd64. Rounding of the floating-point operations is left out: \<open>r\<close>, the result of
  \<open>rand.Float64\<close>, is a rational number.
\<close>

definition float_to_int64 :: "rat \<Rightarrow> int" where
  "float_to_int64 x =
     (let n = (if 0 \<le> x then \<lfloor>x\<rfloor> else \<lceil>x\<rceil>) in if in_int64 n then n else min_int64)"

definition backoff_delay :: "RetryOptions \<Rightarrow> nat \<Rightarrow> rat \<Rightarrow> int" where
  "backoff_delay opt attempt r =
     (let base = of_int (BaseDelay opt) * 2 ^ (attempt - 1);
          d = float_to_int64 (base + base * (r * (1/2) - 1/4))
      in if MaxDelay opt < d then MaxDelay opt else d)"

definition retry_after :: "RetryOptions \<Rightarrow> http_response \<Rightarrow> int option" where
  "retry_after opt resp =
     (if respStatus resp = 429 then
        (let ra = header_get (respHeader resp) ''Retry-After'' in
         if ra = '''' then None
         else case atoi ra of
           (secs, True) \<Rightarrow>
             if 0 < secs then
               (let d = wrap64 (secs * second_ns) in
                Some (if d < MaxDelay opt then d else MaxDelay opt))
             else None
         | (_, False) \<Rightarrow> None)
      else None)"

definition calcDelay ::
  "'w http_env \<Rightarrow> nat \<Rightarrow> error + http_response \<Rightarrow> RetryOptions \<Rightarrow> 'w \<Rightarrow> int \<times> 'w" where
  "calcDelay env attempt prev opt w =
     (case (case prev of Inl _ \<Rightarrow> None | Inr resp \<Rightarrow> retry_after opt resp) of
        Some d \<Rightarrow> (d, w)
      | None \<Rightarrow> (case heRand env w of (r, w1) \<Rightarrow> (backoff_delay opt attempt r, w1)))"

text \<open>
  The loop of \<open>RoundTrip\<close>: \<open>left\<close> further attempts may follow the one numbered \<open>attempt\<close>, which
  is made with \<open>areq\<close>.
\<close>

fun retry_rounds ::
  "'w http_env \<Rightarrow> RetryOptions \<Rightarrow> 'w transport \<Rightarrow> http_request \<Rightarrow> nat \<Rightarrow> nat \<Rightarrow> 'w transport" where
  "retry_rounds env opt next req left attempt areq w =
     (let (res, w1) = next areq w in
      if (case res of Inl err \<Rightarrow> errors_is err AuthFailed | Inr resp \<Rightarrow> \<not> isRetryable (respStatus resp))
      then (res, w1)
      else case left of
        0 \<Rightarrow> (res, w1)
      | Suc n \<Rightarrow>
          if rqBody req \<noteq> None \<and> rqGetBody req = None then (res, w1)
          else
            (let (delay, w2) = calcDelay env (Suc attempt) res opt w1 in
             case (if rqBody req = None then Inr areq
                   else case rqGetBody req of
                     Some (Inl e) \<Rightarrow> Inl e
                   | Some (Inr body) \<Rightarrow> Inr (req\<lparr>rqBody := Some body\<rparr>)
                   | None \<Rightarrow> Inr areq) of
               Inl e \<Rightarrow> (Inl e, w2)
             | Inr areq' \<Rightarrow>
                 (case heWait env delay w2 of
                    (Some e, w3) \<Rightarrow> (Inl e, w3)
                  | (None, w3) \<Rightarrow> retry_rounds env opt next req n (Suc attempt) areq' w3)))"

definition Retry :: "'w http_env \<Rightarrow> RetryOptions \<Rightarrow> 'w middleware" where
  "Retry env opts next req w =
     (let opt = withDefaults opts
      in retry_rounds env opt next req (nat (MaxAttempts opt) - 1) 0 req w)"

section \<open>CircuitBreaker\<close>

definition defaultMaxAuthFailures :: int where "defaultMaxAuthFailures = 5"

definition wrap32 :: "int \<Rightarrow> int" where
  "wrap32 n = (n + 2 ^ 31) mod 2 ^ 32 - 2 ^ 31"

record breaker_state =
  cbFailures :: int
  cbDisabled :: bool

definition isAuthError :: "int \<Rightarrow> bool" where
  "isAuthError code \<longleftrightarrow> code = 401 \<or> code = 403"

definition recordAuthFailure :: "int \<Rightarrow> breaker_state \<Rightarrow> breaker_state" where
  "recordAuthFailure maxFails st =
     (let n = wrap32 (cbFailures st + 1)
      in st\<lparr>cbFailures := n, cbDisabled := (cbDisabled st \<or> maxFails \<le> n)\<rparr>)"

definition breaker_threshold :: "int \<Rightarrow> int" where
  "breaker_threshold maxAuthFailures =
     (let m = wrap32 maxAuthFailures in if m \<le> 0 then defaultMaxAuthFailures else m)"

text \<open>The part of \<open>RoundTrip\<close> after the inner call.\<close>

definition breaker_settle :: "int \<Rightarrow> error + http_response \<Rightarrow> breaker_state \<Rightarrow> breaker_state" where
  "breaker_settle maxFails res st =
     (case res of
        Inl err \<Rightarrow> if errors_is err AuthFailed then recordAuthFailure maxFails st else st
      | Inr resp \<Rightarrow>
          if isAuthError (respStatus resp) then recordAuthFailure maxFails st
          else st\<lparr>cbFailures := 0\<rparr>)"

definition CircuitBreaker :: "(breaker_state, 'w) cell \<Rightarrow> int \<Rightarrow> 'w middleware" where
  "CircuitBreaker c maxAuthFailures next req w =
     (if cbDisabled (cellGet c w) then (Inl CircuitOpen, w)
      else
        (let (res, w1) = next req w
         in (res, cellPut c (breaker_settle (breaker_threshold maxAuthFailures) res (cellGet c w1)) w1)))"

section \<open>Metrics, AttemptTimeout, Bearer, Header\<close>

text \<open>\<open>RecordAPICall\<close> of the recorder, as a change of the world; the duration is left out.\<close>

definition Metrics :: "string \<Rightarrow> (string \<Rightarrow> string \<Rightarrow> int \<Rightarrow> 'w \<Rightarrow> 'w) option \<Rightarrow> 'w middleware" where
  "Metrics name recorder next req w =
     (case recorder of
        None \<Rightarrow> next req w
      | Some recAPICall \<Rightarrow>
          (let (res, w1) = next req w;
               status = (case res of Inl _ \<Rightarrow> 0 | Inr resp \<Rightarrow> respStatus resp)
           in (res, recAPICall name (rqMethod req) status w1)))"

text \<open>\<open>context.WithTimeout\<close> never extends a deadline.\<close>

definition AttemptTimeout :: "'w http_env \<Rightarrow> int \<Rightarrow> 'w middleware" where
  "AttemptTimeout env timeout next req w =
     (let t = heNow env w + timeout in
      next (req\<lparr>rqDeadline := Some (case rqDeadline req of None \<Rightarrow> t | Some d \<Rightarrow> min d t)\<rparr>) w)"

definition Bearer :: "string \<Rightarrow> 'w middleware" where
  "Bearer token next req w =
     next (req\<lparr>rqHeader := header_set ''Authorization'' (''Bearer '' @ token) (rqHeader req)\<rparr>) w"

definition Header :: "string \<Rightarrow> string \<Rightarrow> 'w middleware" where
  "Header name v next req w = next (req\<lparr>rqHeader := header_set name v (rqHeader req)\<rparr>) w"

section \<open>SessionAuth\<close>

definition defaultSessionEarlyExpiry :: int where "defaultSessionEarlyExpiry = 30 * second_ns"
definition defaultSessionTTL :: int where "defaultSessionTTL = 1800 * second_ns"

record Session =
  sessToken :: string
  sessExpiresIn :: int

type_synonym 'w authenticator = "'w \<Rightarrow> (error + Session) \<times> 'w"

record session_state =
  saToken :: string
  saExpiresAt :: int
  saHaveToken :: bool
  saGeneration :: nat

definition early_expiry :: "int \<Rightarrow> int" where
  "early_expiry e = (if e \<le> 0 then defaultSessionEarlyExpiry else e)"

definition session_ttl :: "int \<Rightarrow> int \<Rightarrow> int" where
  "session_ttl early expiresIn =
     (let ttl = (if expiresIn \<le> 0 then defaultSessionTTL else expiresIn)
      in if early < ttl then ttl - early else ttl)"

text \<open>\<open>ensureToken\<close>, the whole body, which runs under the mutex.\<close>

definition ensureToken ::
  "'w http_env \<Rightarrow> (session_state, 'w) cell \<Rightarrow> int \<Rightarrow> 'w authenticator \<Rightarrow> nat \<Rightarrow> 'w
     \<Rightarrow> (error + string \<times> nat) \<times> 'w" where
  "ensureToken env c early auth invalidateGen w =
     (let s = cellGet c w in
      if invalidateGen = 0 \<and> saHaveToken s \<and> heNow env w < saExpiresAt s then
        (Inr (saToken s, saGeneration s), w)
      else if invalidateGen \<noteq> 0 \<and> invalidateGen \<noteq> saGeneration s then
        (Inr (saToken s, saGeneration s), w)
      else
        (case auth w of
           (Inl err, w1) \<Rightarrow> (Inl err, cellPut c ((cellGet c w1)\<lparr>saHaveToken := False\<rparr>) w1)
         | (Inr sess, w1) \<Rightarrow>
             (let s' = \<lparr>saToken = sessToken sess,
                        saExpiresAt = heNow env w1 + session_ttl early (sessExpiresIn sess),
                        saHaveToken = True,
                        saGeneration = (saGeneration (cellGet c w1) + 1) mod 2 ^ 64\<rparr>
              in (Inr (saToken s', saGeneration s'), cellPut c s' w1))))"

definition session_attempt :: "string \<Rightarrow> 'w transport \<Rightarrow> http_request \<Rightarrow> string \<Rightarrow> 'w \<Rightarrow> (error + http_response) \<times> 'w" where
  "session_attempt hdr next req token w =
     (case (if rqBody req \<noteq> None then
              (case rqGetBody req of
                 None \<Rightarrow> Inr req
               | Some (Inl e) \<Rightarrow> Inl e
               | Some (Inr body) \<Rightarrow> Inr (req\<lparr>rqBody := Some body\<rparr>))
            else Inr req) of
        Inl e \<Rightarrow> (Inl e, w)
      | Inr r \<Rightarrow>
          next (if token = '''' then r else r\<lparr>rqHeader := header_set hdr token (rqHeader r)\<rparr>) w)"

definition SessionAuth ::
  "'w http_env \<Rightarrow> (session_state, 'w) cell \<Rightarrow> string \<Rightarrow> int \<Rightarrow> 'w authenticator \<Rightarrow> 'w middleware" where
  "SessionAuth env c hdr earlyExpiry auth next req w =
     (let early = early_expiry earlyExpiry in
      case ensureToken env c early auth 0 w of
        (Inl e, w1) \<Rightarrow> (Inl e, w1)
      | (Inr (token, gen), w1) \<Rightarrow>
      (case session_attempt hdr next req token w1 of
        (Inl e, w2) \<Rightarrow> (Inl e, w2)
      | (Inr resp, w2) \<Rightarrow>
          if respStatus resp \<noteq> 401 then (Inr resp, w2)
          else if rqBody req \<noteq> None \<and> rqGetBody req = None then (Inr resp, w2)
          else
            (case ensureToken env c early auth gen w2 of
               (Inl e, w3) \<Rightarrow> (Inl e, w3)
             | (Inr (token', _), w3) \<Rightarrow> session_attempt hdr next req token' w3)))"

section \<open>NewClient\<close>

definition defaultAttemptTimeout :: int where "defaultAttemptTimeout = 15 * second_ns"

record 'w ClientOptions =
  clName :: string
  clTimeout :: int
  clRetry :: RetryOptions
  clMaxAuthFailures :: int
  clAuth :: "'w middleware option"
  clDebug :: "'w middleware option"
  clMetrics :: "(string \<Rightarrow> string \<Rightarrow> int \<Rightarrow> 'w \<Rightarrow> 'w) option"

definition NewClient ::
  "'w http_env \<Rightarrow> (breaker_state, 'w) cell \<Rightarrow> 'w ClientOptions \<Rightarrow> 'w transport \<Rightarrow> 'w transport" where
  "NewClient env c opts base =
     (let timeout = (if clTimeout opts \<le> 0 then defaultAttemptTimeout else clTimeout opts)
      in Chain base
           ([CircuitBreaker c (clMaxAuthFailures opts), Retry env (clRetry opts),
             Metrics (clName opts) (clMetrics opts), AttemptTimeout env timeout] @
            (case clAuth opts of None \<Rightarrow> [] | Some m \<Rightarrow> [m]) @
            (case clDebug opts of None \<Rightarrow> [] | Some m \<Rightarrow> [m])))"

section \<open>Cells\<close>

text \<open>What a cell promises: it holds what was stored last.\<close>

locale state_cell =
  fixes c :: "('s, 'w) cell"
  assumes get_put: "cellGet c (cellPut c s w) = s"
    and put_put: "cellPut c s (cellPut c t w) = cellPut c s w"
begin

lemma get_put_get: "cellGet c (cellPut c (f (cellGet c w)) w) = f (cellGet c w)"
  by (rule get_put)

end

text \<open>The world of one client: its two stateful middleware objects and the network.\<close>

record 'n http_world =
  hwBreaker :: breaker_state
  hwSession :: session_state
  hwNet :: 'n

definition breaker_cell :: "(breaker_state, 'n http_world) cell" where
  "breaker_cell = \<lparr>cellGet = hwBreaker, cellPut = (\<lambda>s w. w\<lparr>hwBreaker := s\<rparr>)\<rparr>"

definition session_cell :: "(session_state, 'n http_world) cell" where
  "session_cell = \<lparr>cellGet = hwSession, cellPut = (\<lambda>s w. w\<lparr>hwSession := s\<rparr>)\<rparr>"

interpretation breaker: state_cell breaker_cell
  by unfold_locales (simp_all add: breaker_cell_def)

interpretation session: state_cell session_cell
  by unfold_locales (simp_all add: session_cell_def)

lemma cell_simps [simp]:
  "cellGet breaker_cell w = hwBreaker w" "cellPut breaker_cell s w = w\<lparr>hwBreaker := s\<rparr>"
  "cellGet session_cell w = hwSession w" "cellPut session_cell t w = w\<lparr>hwSession := t\<rparr>"
  by (simp_all add: breaker_cell_def session_cell_def)

section \<open>How often Retry calls\<close>

definition transient :: "error + http_response \<Rightarrow> bool" where
  "transient res = (case res of Inl err \<Rightarrow> \<not> errors_is err AuthFailed | Inr resp \<Rightarrow> isRetryable (respStatus resp))"

definition replayable :: "http_request \<Rightarrow> bool" where
  "replayable req \<longleftrightarrow> rqBody req = None \<or> (\<exists>b. rqGetBody req = Some (Inr b))"

declare retry_rounds.simps [simp del]

lemma retry_rounds_unfold:
  "retry_rounds env opt next req left attempt areq w =
     (let (res, w1) = next areq w in
      if \<not> transient res \<or> left = 0 then (res, w1)
      else if rqBody req \<noteq> None \<and> rqGetBody req = None then (res, w1)
      else
        (let (delay, w2) = calcDelay env (Suc attempt) res opt w1 in
         case (if rqBody req = None then Inr areq
               else case rqGetBody req of
                 Some (Inl e) \<Rightarrow> Inl e
               | Some (Inr body) \<Rightarrow> Inr (req\<lparr>rqBody := Some body\<rparr>)
               | None \<Rightarrow> Inr areq) of
           Inl e \<Rightarrow> (Inl e, w2)
         | Inr areq' \<Rightarrow>
             (case heWait env delay w2 of
                (Some e, w3) \<Rightarrow> (Inl e, w3)
              | (None, w3) \<Rightarrow> retry_rounds env opt next req (left - 1) (Suc attempt) areq' w3)))"
proof -
  obtain res w1 where n: "next areq w = (res, w1)" by (cases "next areq w")
  have t: "(case res of Inl err \<Rightarrow> errors_is err AuthFailed | Inr resp \<Rightarrow> \<not> isRetryable (respStatus resp))
      \<longleftrightarrow> \<not> transient res"
    by (simp add: transient_def split: sum.splits)
  show ?thesis
  proof (cases left)
    case 0
    show ?thesis unfolding 0 by (subst retry_rounds.simps) (simp add: n t)
  next
    case (Suc k)
    show ?thesis unfolding Suc diff_Suc_1 by (subst retry_rounds.simps) (simp add: n t)
  qed
qed

text \<open>
  A count of the calls of \<open>next\<close> that waiting and randomness do not change.
\<close>

definition counts_calls :: "('w \<Rightarrow> nat) \<Rightarrow> 'w http_env \<Rightarrow> 'w transport \<Rightarrow> bool" where
  "counts_calls m env next \<longleftrightarrow>
     (\<forall>r w. m (snd (next r w)) = m w + 1) \<and> (\<forall>d w. m (snd (heWait env d w)) = m w) \<and>
     (\<forall>w. m (snd (heRand env w)) = m w)"

lemma calcDelay_count:
  "counts_calls m env next \<Longrightarrow> m (snd (calcDelay env a l opt w)) = m w"
  by (auto simp: calcDelay_def counts_calls_def split: option.splits sum.splits prod.splits) (metis snd_conv)+

lemma retry_rounds_calls:
  assumes "counts_calls m env next"
  shows "m w + 1 \<le> m (snd (retry_rounds env opt next req left attempt areq w)) \<and>
    m (snd (retry_rounds env opt next req left attempt areq w)) \<le> m w + 1 + left \<and>
    (replayable req \<longrightarrow> (\<forall>d w. fst (heWait env d w) = None) \<longrightarrow>
      m (snd (retry_rounds env opt next req left attempt areq w)) < m w + 1 + left \<longrightarrow>
      \<not> transient (fst (retry_rounds env opt next req left attempt areq w)))"
proof (induction left arbitrary: attempt areq w)
  case 0
  obtain res w1 where n: "next areq w = (res, w1)" by (cases "next areq w")
  moreover have "m (snd (next areq w)) = m w + 1" using assms by (simp add: counts_calls_def)
  ultimately show ?case by (subst (1 2 3 4) retry_rounds_unfold) simp
next
  case (Suc left)
  obtain res w1 where n: "next areq w = (res, w1)" by (cases "next areq w")
  have m1: "m w1 = m w + 1" using assms n unfolding counts_calls_def by (metis snd_conv)
  obtain delay w2 where d: "calcDelay env (Suc attempt) res opt w1 = (delay, w2)"
    by (cases "calcDelay env (Suc attempt) res opt w1")
  have m2: "m w2 = m w + 1" using calcDelay_count [OF assms, where a = "Suc attempt" and l = res and opt = opt and w = w1] d m1 by simp
  obtain e w3 where wt: "heWait env delay w2 = (e, w3)" by (cases "heWait env delay w2")
  have m3: "m w3 = m w + 1" using assms wt m2 unfolding counts_calls_def by (metis snd_conv)
  let ?next = "if rqBody req = None then Inr areq
     else case rqGetBody req of Some (Inl e) \<Rightarrow> Inl e | Some (Inr body) \<Rightarrow> Inr (req\<lparr>rqBody := Some body\<rparr>)
       | None \<Rightarrow> Inr areq"
  show ?case
  proof (cases "\<not> transient res \<or> (rqBody req \<noteq> None \<and> rqGetBody req = None)")
    case True
    then have "retry_rounds env opt next req (Suc left) attempt areq w = (res, w1)"
      by (subst retry_rounds_unfold) (auto simp: n)
    with True m1 show ?thesis by (auto simp: replayable_def)
  next
    case False
    then have r: "retry_rounds env opt next req (Suc left) attempt areq w =
      (case ?next of Inl e \<Rightarrow> (Inl e, w2)
       | Inr areq' \<Rightarrow> (case e of Some e \<Rightarrow> (Inl e, w3)
          | None \<Rightarrow> retry_rounds env opt next req left (Suc attempt) areq' w3))"
      by (subst retry_rounds_unfold) (auto simp: n d wt split: sum.splits option.splits)
    show ?thesis
    proof (cases ?next)
      case (Inl x)
      then have "\<not> replayable req" by (auto simp: replayable_def split: if_splits option.splits sum.splits)
      with r Inl m2 show ?thesis by simp
    next
      case (Inr areq')
      show ?thesis
      proof (cases e)
        case None
        with r Inr have "retry_rounds env opt next req (Suc left) attempt areq w
            = retry_rounds env opt next req left (Suc attempt) areq' w3" by simp
        with Suc.IH [where attempt = "Suc attempt" and areq = areq' and w = w3] m3 show ?thesis by simp
      next
        case (Some x)
        then have "\<exists>d w. fst (heWait env d w) \<noteq> None" using wt by (metis fst_conv option.distinct(1))
        with r Inr Some m3 show ?thesis by auto
      qed
    qed
  qed
qed

text \<open>
  C29. \<open>Retry\<close> makes at least one and at most \<open>MaxAttempts\<close> calls, so it always returns. When the
  body can be replayed and the context is not cancelled while waiting, it stops earlier only
  with a final answer: never with a network error, a 429 or a retryable 5xx.
\<close>

theorem Retry_attempts:
  assumes "counts_calls m env next"
  shows "m w + 1 \<le> m (snd (Retry env opts next req w)) \<and>
    m (snd (Retry env opts next req w)) \<le> m w + nat (MaxAttempts (withDefaults opts)) \<and>
    (replayable req \<longrightarrow> (\<forall>d w. fst (heWait env d w) = None) \<longrightarrow>
      m (snd (Retry env opts next req w)) < m w + nat (MaxAttempts (withDefaults opts)) \<longrightarrow>
      \<not> transient (fst (Retry env opts next req w)))"
proof -
  have "1 \<le> nat (MaxAttempts (withDefaults opts))"
    by (auto simp: withDefaults_def defaultMaxAttempts_def)
  then have k: "m w + 1 + (nat (MaxAttempts (withDefaults opts)) - 1)
      = m w + nat (MaxAttempts (withDefaults opts))" by simp
  show ?thesis
    using retry_rounds_calls [OF assms, of w "withDefaults opts" req "nat (MaxAttempts (withDefaults opts)) - 1" 0 req]
    unfolding Retry_def Let_def k by simp
qed

text \<open>A service that is always overloaded, over a world that counts the calls and never cancels.\<close>

definition count_env :: "nat http_env" where
  "count_env = \<lparr>heNow = (\<lambda>w. 0), heWait = (\<lambda>d w. (None, w)), heRand = (\<lambda>w. (1 / 2, w))\<rparr>"

definition answer :: "int \<Rightarrow> (string \<times> string list) list \<Rightarrow> http_response" where
  "answer code h = \<lparr>respStatus = code, respHeader = h, respBody = ''''\<rparr>"

definition plain_get :: http_request where
  "plain_get = \<lparr>rqMethod = ''GET'', rqURL = ''http://dns.lan'', rqHeader = [], rqBody = None, rqGetBody = None,
     rqDeadline = None\<rparr>"

definition counting :: "error + http_response \<Rightarrow> nat transport" where
  "counting res req w = (res, w + 1)"

lemma counting_counts: "counts_calls (\<lambda>w. w) count_env (counting res)"
  by (simp add: counts_calls_def count_env_def counting_def)

theorem Retry_attempts_witness:
  "counts_calls (\<lambda>w. w) count_env (counting (Inr (answer 503 []))) \<and>
   snd (Retry count_env \<lparr>MaxAttempts = 4, BaseDelay = 0, MaxDelay = 0\<rparr> (counting (Inr (answer 503 []))) plain_get 0) \<le> 4"
  using counting_counts [of "Inr (answer 503 [])"]
    Retry_attempts [OF counting_counts, where res1 = "Inr (answer 503 [])" and w = 0 and req = plain_get
      and opts = "\<lparr>MaxAttempts = 4, BaseDelay = 0, MaxDelay = 0\<rparr>"]
  by (simp add: withDefaults_def)

section \<open>The delays of Retry\<close>

lemma float_to_int64_bounds:
  assumes "0 \<le> x" "x \<le> of_int max_int64"
  shows "float_to_int64 x = \<lfloor>x\<rfloor>"
proof -
  have "\<lfloor>x\<rfloor> \<le> max_int64" using assms(2) by (simp add: floor_le_iff)
  with assms(1) show ?thesis by (simp add: float_to_int64_def in_int64_def min_int64_def Let_def)
qed

lemma atoi_nonempty: "atoi ra = (secs, True) \<Longrightarrow> ra \<noteq> ''''"
  by (auto simp: atoi_def atoi_signed_def parse_nat_def)

lemma retry_after_exact:
  assumes "respStatus resp = 429" "atoi (header_get (respHeader resp) ''Retry-After'') = (secs, True)"
    "0 < secs" "secs * second_ns \<le> max_int64"
  shows "retry_after opt resp = Some (min (secs * second_ns) (MaxDelay opt))"
proof -
  have "wrap64 (secs * second_ns) = secs * second_ns"
    using assms(3,4) by (intro wrap64_id) (simp add: in_int64_def min_int64_def second_ns_def)
  then show ?thesis
    using assms(1-3) atoi_nonempty [OF assms(2)] by (simp add: retry_after_def Let_def min_def)
qed

lemma retry_after_le: "retry_after opt resp = Some d \<Longrightarrow> d \<le> MaxDelay opt"
  by (auto simp: retry_after_def Let_def split: if_splits prod.splits bool.splits)

lemma backoff_delay_le: "backoff_delay opt attempt r \<le> MaxDelay opt"
  by (simp add: backoff_delay_def Let_def)

lemma backoff_delay_jitter:
  fixes r :: rat
  assumes "0 < BaseDelay opt" "0 \<le> r" "r \<le> 1" "5 * (BaseDelay opt * 2 ^ (attempt - 1)) \<le> 4 * max_int64"
  shows "min (MaxDelay opt) (3 * (BaseDelay opt * 2 ^ (attempt - 1)) div 4) \<le> backoff_delay opt attempt r \<and>
    4 * backoff_delay opt attempt r \<le> 5 * (BaseDelay opt * 2 ^ (attempt - 1))"
proof -
  define b :: int where "b = BaseDelay opt * 2 ^ (attempt - 1)"
  define x :: rat where "x = of_int b + of_int b * (r * (1/2) - 1/4)"
  have b: "0 < b" using assms(1) by (simp add: b_def)
  have lo: "of_int b * (3/4) \<le> x" and hi: "x \<le> of_int b * (5/4)"
    using assms(2,3) b mult_left_mono [of 0 r "of_int b"] mult_left_mono [of r 1 "of_int b"]
    by (simp_all add: x_def algebra_simps)
  have "of_int b * (5/4) \<le> (of_int max_int64 :: rat)"
    using of_int_le_iff [where 'a = rat, of "5 * b" "4 * max_int64"] assms(4) b_def by simp
  then have x: "float_to_int64 x = \<lfloor>x\<rfloor>"
    using lo hi b by (intro float_to_int64_bounds) (auto intro: order_trans [of 0 "of_int b * (3/4)"])
  have "(3 * b) div 4 = \<lfloor>of_int b * (3/4) :: rat\<rfloor>"
    using floor_divide_of_int_eq [where 'a = rat, of "3 * b" 4] by (simp add: algebra_simps)
  then have l: "(3 * b) div 4 \<le> \<lfloor>x\<rfloor>" using lo by (simp add: floor_mono)
  have "of_int (4 * \<lfloor>x\<rfloor>) \<le> (of_int (5 * b) :: rat)" using hi of_int_floor_le [of x] by (auto simp del: of_int_floor_le)
  then have h: "4 * \<lfloor>x\<rfloor> \<le> 5 * b" by (simp only: of_int_le_iff)
  have "backoff_delay opt attempt r = min (MaxDelay opt) \<lfloor>x\<rfloor>"
    using x by (simp add: backoff_delay_def Let_def x_def b_def min_def)
  with l h show ?thesis by (auto simp: b_def min_def)
qed

text \<open>
  C30. The wait before a retry never exceeds \<open>MaxDelay\<close>. A 429 with a positive number of seconds in
  \<open>Retry-After\<close>, small enough for a 64-bit duration, is honoured exactly up to that cap; otherwise
  the wait before attempt \<open>n + 1\<close> is the base doubled \<open>n - 1\<close> times, off by at most a quarter
  either way, as long as that fits into 64 bits.
\<close>

theorem calcDelay_bounds:
  assumes "0 < BaseDelay opt" "0 \<le> fst (heRand env w)" "fst (heRand env w) \<le> 1"
    "5 * (BaseDelay opt * 2 ^ (attempt - 1)) \<le> 4 * max_int64"
  shows "fst (calcDelay env attempt prev opt w) \<le> MaxDelay opt \<and>
    (\<forall>resp secs. prev = Inr resp \<and> respStatus resp = 429 \<and>
       atoi (header_get (respHeader resp) ''Retry-After'') = (secs, True) \<and> 0 < secs \<and>
       secs * second_ns \<le> max_int64 \<longrightarrow>
       calcDelay env attempt prev opt w = (min (secs * second_ns) (MaxDelay opt), w)) \<and>
    ((case prev of Inl _ \<Rightarrow> True | Inr resp \<Rightarrow> respStatus resp \<noteq> 429) \<longrightarrow>
       min (MaxDelay opt) (3 * (BaseDelay opt * 2 ^ (attempt - 1)) div 4) \<le> fst (calcDelay env attempt prev opt w) \<and>
       4 * fst (calcDelay env attempt prev opt w) \<le> 5 * (BaseDelay opt * 2 ^ (attempt - 1)))"
proof (intro conjI impI)
  show "fst (calcDelay env attempt prev opt w) \<le> MaxDelay opt"
    by (auto simp: calcDelay_def retry_after_le backoff_delay_le split: sum.splits option.splits prod.splits)
  show "\<forall>resp secs. prev = Inr resp \<and> respStatus resp = 429 \<and>
       atoi (header_get (respHeader resp) ''Retry-After'') = (secs, True) \<and> 0 < secs \<and>
       secs * second_ns \<le> max_int64 \<longrightarrow>
       calcDelay env attempt prev opt w = (min (secs * second_ns) (MaxDelay opt), w)"
    by (auto simp: calcDelay_def retry_after_exact)
next
  assume "case prev of Inl _ \<Rightarrow> True | Inr resp \<Rightarrow> respStatus resp \<noteq> 429"
  then have "fst (calcDelay env attempt prev opt w) = backoff_delay opt attempt (fst (heRand env w))"
    by (auto simp: calcDelay_def retry_after_def split: sum.splits prod.splits)
  with backoff_delay_jitter [OF assms(1-4)]
  show "min (MaxDelay opt) (3 * (BaseDelay opt * 2 ^ (attempt - 1)) div 4) \<le> fst (calcDelay env attempt prev opt w)"
    "4 * fst (calcDelay env attempt prev opt w) \<le> 5 * (BaseDelay opt * 2 ^ (attempt - 1))"
    by simp_all
qed

definition sample_retry :: RetryOptions where
  "sample_retry = withDefaults \<lparr>MaxAttempts = 0, BaseDelay = 0, MaxDelay = 0\<rparr>"

theorem calcDelay_bounds_witness:
  "0 < BaseDelay sample_retry \<and>
   fst (calcDelay count_env 2 (Inr (answer 503 [])) sample_retry 0) \<le> MaxDelay sample_retry"
proof
  show b: "0 < BaseDelay sample_retry"
    by (simp add: sample_retry_def withDefaults_def defaultBaseDelay_def millisecond_ns_def)
  show "fst (calcDelay count_env 2 (Inr (answer 503 [])) sample_retry 0) \<le> MaxDelay sample_retry"
    using calcDelay_bounds [OF b, of count_env 0 2]
    by (simp add: count_env_def sample_retry_def withDefaults_def defaultBaseDelay_def millisecond_ns_def max_int64_def)
qed

text \<open>
  Without the proviso the multiplication by a second wraps: 9223372037 seconds become a negative
  duration, below the cap, and the retry follows at once.
\<close>

lemma retry_after_overflow:
  "retry_after sample_retry (answer 429 [(''Retry-After'', [''9223372037''])]) = Some (- 9223372036709551616)"
proof -
  have k: "header_get [(''Retry-After'', [''9223372037''])] ''Retry-After'' = ''9223372037''" by code_simp
  have a: "atoi ''9223372037'' = (9223372037, True)"
    by (simp add: atoi_def atoi_signed_def parse_nat_def char_digit_def min_int64_def max_int64_def)
  have w: "wrap64 (9223372037 * second_ns) = - 9223372036709551616" by code_simp
  have m: "MaxDelay sample_retry = 30000000000" by code_simp
  show ?thesis
    unfolding retry_after_def answer_def by (simp add: k a w m Let_def)
qed

section \<open>The circuit breaker against its contract\<close>

text \<open>
  The contract: \<open>rs\<close> are the answers seen so far, oldest first. A refused login is an answer 401 or
  403 or an error that wraps \<open>ErrAuthFailed\<close>; other errors are neutral; the streak is the number
  of refusals since the last other answer, and the circuit is open once a streak has reached \<open>k\<close>.
\<close>

definition auth_refused :: "error + http_response \<Rightarrow> bool" where
  "auth_refused res = (case res of Inl err \<Rightarrow> errors_is err AuthFailed | Inr resp \<Rightarrow> respStatus resp \<in> {401, 403})"

definition answered :: "error + http_response \<Rightarrow> bool" where
  "answered res = (case res of Inl err \<Rightarrow> errors_is err AuthFailed | Inr resp \<Rightarrow> True)"

definition auth_streak :: "(error + http_response) list \<Rightarrow> nat" where
  "auth_streak rs = length (takeWhile auth_refused (filter answered (rev rs)))"

definition circuit_open :: "int \<Rightarrow> (error + http_response) list \<Rightarrow> bool" where
  "circuit_open k rs \<longleftrightarrow> (\<exists>n \<le> length rs. k \<le> int (auth_streak (take n rs)))"

fun breaker_spec ::
  "int \<Rightarrow> 'n transport \<Rightarrow> http_request list \<Rightarrow> (error + http_response) list \<Rightarrow> 'n
     \<Rightarrow> (error + http_response) list \<times> (error + http_response) list \<times> 'n" where
  "breaker_spec k net [] rs n = ([], rs, n)"
| "breaker_spec k net (req # reqs) rs n =
     (if circuit_open k rs then
        (let (answers, rs', n') = breaker_spec k net reqs rs n in (Inl CircuitOpen # answers, rs', n'))
      else
        (let (res, n1) = net req n;
             (answers, rs', n') = breaker_spec k net reqs (rs @ [res]) n1
         in (res # answers, rs', n')))"

text \<open>A client that sends its requests one after the other, and a transport that uses only the network.\<close>

fun send_all :: "'w transport \<Rightarrow> http_request list \<Rightarrow> 'w \<Rightarrow> (error + http_response) list \<times> 'w" where
  "send_all t [] w = ([], w)"
| "send_all t (req # reqs) w =
     (let (res, w1) = t req w; (answers, w2) = send_all t reqs w1 in (res # answers, w2))"

definition over_net :: "'n transport \<Rightarrow> 'n http_world transport" where
  "over_net net req w = (let (res, n) = net req (hwNet w) in (res, w\<lparr>hwNet := n\<rparr>))"

definition breaker_abs :: "int \<Rightarrow> (error + http_response) list \<Rightarrow> breaker_state" where
  "breaker_abs k rs = \<lparr>cbFailures = int (auth_streak rs), cbDisabled = circuit_open k rs\<rparr>"

lemma auth_streak_snoc:
  "auth_streak (rs @ [r]) =
     (if auth_refused r then auth_streak rs + 1 else if answered r then 0 else auth_streak rs)"
  by (auto simp: auth_streak_def auth_refused_def answered_def split: sum.splits)

lemma circuit_open_snoc:
  "circuit_open k (rs @ [r]) \<longleftrightarrow> circuit_open k rs \<or> k \<le> int (auth_streak (rs @ [r]))"
proof
  assume "circuit_open k (rs @ [r])"
  then obtain n where n: "n \<le> Suc (length rs)" "k \<le> int (auth_streak (take n (rs @ [r])))"
    by (auto simp: circuit_open_def)
  show "circuit_open k rs \<or> k \<le> int (auth_streak (rs @ [r]))"
  proof (cases "n \<le> length rs")
    case True
    with n show ?thesis by (auto simp: circuit_open_def)
  next
    case False
    with n show ?thesis by simp
  qed
next
  assume "circuit_open k rs \<or> k \<le> int (auth_streak (rs @ [r]))"
  then show "circuit_open k (rs @ [r])"
  proof
    assume "circuit_open k rs"
    then obtain n where "n \<le> length rs" "k \<le> int (auth_streak (take n rs))"
      by (auto simp: circuit_open_def)
    then show ?thesis unfolding circuit_open_def by (intro exI [of _ n]) simp
  next
    assume "k \<le> int (auth_streak (rs @ [r]))"
    then show ?thesis unfolding circuit_open_def by (intro exI [of _ "length (rs @ [r])"]) simp
  qed
qed

lemma wrap32_id: "- (2 ^ 31) \<le> n \<Longrightarrow> n < 2 ^ 31 \<Longrightarrow> wrap32 n = n"
  by (simp add: wrap32_def)

text \<open>One answer: the counter and the flag follow the contract.\<close>

lemma breaker_settle_abs:
  assumes "\<not> circuit_open k rs" "0 < k" "k < 2 ^ 31"
  shows "breaker_settle k r (breaker_abs k rs) = breaker_abs k (rs @ [r])"
proof -
  have s: "\<not> k \<le> int (auth_streak rs)"
    using assms(1) unfolding circuit_open_def by (metis order_refl take_all)
  with assms(3) have w: "wrap32 (int (auth_streak rs) + 1) = int (auth_streak rs) + 1"
    by (intro wrap32_id) simp_all
  with s assms(1,2) show ?thesis
    by (auto simp: breaker_settle_def breaker_abs_def recordAuthFailure_def isAuthError_def circuit_open_snoc
        auth_streak_snoc auth_refused_def answered_def Let_def split: sum.splits)
qed

lemma breaker_threshold_range: "0 < breaker_threshold m" "breaker_threshold m < 2 ^ 31"
  by (simp_all add: breaker_threshold_def defaultMaxAuthFailures_def wrap32_def Let_def)

lemma breaker_abs_Nil: "breaker_abs (breaker_threshold m) [] = \<lparr>cbFailures = 0, cbDisabled = False\<rparr>"
  using breaker_threshold_range(1) [of m]
  by (simp add: breaker_abs_def auth_streak_def circuit_open_def)

lemma CircuitBreaker_refines_spec:
  assumes "hwBreaker w = breaker_abs (breaker_threshold m) rs"
  shows "send_all (CircuitBreaker breaker_cell m (over_net net)) reqs w
    = (case breaker_spec (breaker_threshold m) net reqs rs (hwNet w) of
         (answers, rs', n) \<Rightarrow> (answers, w\<lparr>hwBreaker := breaker_abs (breaker_threshold m) rs', hwNet := n\<rparr>))"
  using assms
proof (induction reqs arbitrary: rs w)
  case Nil
  then show ?case by (cases w) simp
next
  case (Cons req reqs)
  show ?case
  proof (cases "circuit_open (breaker_threshold m) rs")
    case True
    then have "CircuitBreaker breaker_cell m (over_net net) req w = (Inl CircuitOpen, w)"
      using Cons.prems by (simp add: CircuitBreaker_def breaker_abs_def)
    with True Cons.IH [of w rs] Cons.prems show ?thesis by (simp split: prod.splits)
  next
    case False
    obtain res n1 where n: "net req (hwNet w) = (res, n1)" by (cases "net req (hwNet w)")
    let ?w1 = "w\<lparr>hwNet := n1, hwBreaker := breaker_abs (breaker_threshold m) (rs @ [res])\<rparr>"
    have "breaker_settle (breaker_threshold m) res (hwBreaker w)
        = breaker_abs (breaker_threshold m) (rs @ [res])"
      using breaker_settle_abs [OF False breaker_threshold_range] Cons.prems by simp
    moreover have "\<not> cbDisabled (hwBreaker w)" using False Cons.prems by (simp add: breaker_abs_def)
    ultimately have c: "CircuitBreaker breaker_cell m (over_net net) req w = (res, ?w1)"
      by (simp add: CircuitBreaker_def over_net_def n)
    from Cons.IH [of ?w1 "rs @ [res]"] False c n show ?thesis by (simp split: prod.splits)
  qed
qed

text \<open>
  C31. \<open>CircuitBreaker\<close> implements its contract: over any sequence of requests its answers are those of the abstract breaker, which passes a request on until a streak of refused
  logins has reached the threshold and from then on answers \<open>ErrCircuitOpen\<close> without touching the
  network; its counter and flag are the streak and the state of the circuit.
\<close>

theorem CircuitBreaker_refines:
  assumes "hwBreaker w = \<lparr>cbFailures = 0, cbDisabled = False\<rparr>"
  shows "send_all (CircuitBreaker breaker_cell m (over_net net)) reqs w
    = (case breaker_spec (breaker_threshold m) net reqs [] (hwNet w) of
         (answers, rs, n) \<Rightarrow> (answers, w\<lparr>hwBreaker := breaker_abs (breaker_threshold m) rs, hwNet := n\<rparr>))"
  using assms by (intro CircuitBreaker_refines_spec) (simp add: breaker_abs_Nil)

text \<open>The requests of a client whose token is refused: the third is not sent any more.\<close>

definition fresh_world :: "nat http_world" where
  "fresh_world = \<lparr>hwBreaker = \<lparr>cbFailures = 0, cbDisabled = False\<rparr>,
     hwSession = \<lparr>saToken = '''', saExpiresAt = 0, saHaveToken = False, saGeneration = 0\<rparr>, hwNet = 0\<rparr>"

theorem CircuitBreaker_refines_witness:
  "hwBreaker fresh_world = \<lparr>cbFailures = 0, cbDisabled = False\<rparr> \<and>
   (let out = send_all (CircuitBreaker breaker_cell 2 (over_net (counting (Inr (answer 403 [])))))
      [plain_get, plain_get, plain_get] fresh_world
    in fst out = [Inr (answer 403 []), Inr (answer 403 []), Inl CircuitOpen] \<and> hwNet (snd out) = 2)"
proof -
  have f: "hwBreaker fresh_world = \<lparr>cbFailures = 0, cbDisabled = False\<rparr>" by (simp add: fresh_world_def)
  have o: "circuit_open 2 [] = False" "circuit_open 2 [Inr (answer 403 [])] = False"
    "circuit_open 2 [Inr (answer 403 []), Inr (answer 403 [])] = True"
    using circuit_open_snoc [of 2 "[]"] circuit_open_snoc [of 2 "[Inr (answer 403 [])]"]
    by (simp_all add: circuit_open_def auth_streak_def auth_refused_def answered_def answer_def)
  have t: "breaker_threshold 2 = 2" by (simp add: breaker_threshold_def wrap32_def)
  show ?thesis
    using f CircuitBreaker_refines [OF f, of 2 "counting (Inr (answer 403 []))" "[plain_get, plain_get, plain_get]"]
    by (simp add: t o counting_def fresh_world_def Let_def)
qed

section \<open>One authentication for all rejected callers\<close>

text \<open>
  Callers whose requests were rejected with a token of generation \<open>gen\<close> take the lock one after the
  other; before each of them the rest of the program may have changed the network.
\<close>

definition auth_net :: "'n authenticator \<Rightarrow> 'n http_world authenticator" where
  "auth_net a w = (let (r, n) = a (hwNet w) in (r, w\<lparr>hwNet := n\<rparr>))"

fun rejected_callers ::
  "'n http_world http_env \<Rightarrow> int \<Rightarrow> 'n authenticator \<Rightarrow> nat \<Rightarrow> ('n \<Rightarrow> 'n) list \<Rightarrow> 'n http_world
     \<Rightarrow> (error + string \<times> nat) list \<times> 'n http_world" where
  "rejected_callers env early a gen [] w = ([], w)"
| "rejected_callers env early a gen (u # us) w =
     (let (res, w1) = ensureToken env session_cell early (auth_net a) gen (w\<lparr>hwNet := u (hwNet w)\<rparr>);
          (rest, w2) = rejected_callers env early a gen us w1
      in (res # rest, w2))"

lemma rejected_callers_newer:
  assumes "gen \<noteq> 0" "saGeneration (hwSession w) \<noteq> gen"
  shows "rejected_callers env early a gen us w
    = (replicate (length us) (Inr (saToken (hwSession w), saGeneration (hwSession w))),
       w\<lparr>hwNet := fold (\<lambda>u. u) us (hwNet w)\<rparr>)"
  using assms(2)
proof (induction us arbitrary: w)
  case (Cons u us)
  have "ensureToken env session_cell early (auth_net a) gen (w\<lparr>hwNet := u (hwNet w)\<rparr>)
      = (Inr (saToken (hwSession w), saGeneration (hwSession w)), w\<lparr>hwNet := u (hwNet w)\<rparr>)"
    using assms(1) Cons.prems by (simp add: ensureToken_def Let_def)
  with Cons.IH [of "w\<lparr>hwNet := u (hwNet w)\<rparr>"] Cons.prems show ?case by simp
qed simp

text \<open>
  C32. Any number of callers rejected on the same token cause one call of \<open>Authenticate\<close>: when the
  first of them gets a new session, every caller, itself included, is given that session's token,
  and nothing but that one call and the other users of the network has touched the network.
\<close>

theorem session_single_reauth:
  assumes "0 < saGeneration (hwSession w)" "saGeneration (hwSession w) < 2 ^ 64 - 1"
    "a (u (hwNet w)) = (Inr sess, n)"
  shows "\<exists>s. rejected_callers env early a (saGeneration (hwSession w)) (u # us) w
      = (replicate (Suc (length us)) (Inr (sessToken sess, saGeneration (hwSession w) + 1)),
         w\<lparr>hwNet := fold (\<lambda>u. u) us n, hwSession := s\<rparr>) \<and>
    saToken s = sessToken sess \<and> saHaveToken s \<and> saGeneration s = saGeneration (hwSession w) + 1 \<and>
    saExpiresAt s = heNow env (w\<lparr>hwNet := n\<rparr>) + session_ttl early (sessExpiresIn sess)"
proof -
  let ?g = "saGeneration (hwSession w)"
  let ?s = "\<lparr>saToken = sessToken sess, saExpiresAt = heNow env (w\<lparr>hwNet := n\<rparr>) + session_ttl early (sessExpiresIn sess),
    saHaveToken = True, saGeneration = ?g + 1\<rparr>"
  let ?w1 = "w\<lparr>hwNet := n, hwSession := ?s\<rparr>"
  have "(?g + 1) mod 2 ^ 64 = ?g + 1" using assms(2) by simp
  then have "ensureToken env session_cell early (auth_net a) ?g (w\<lparr>hwNet := u (hwNet w)\<rparr>)
      = (Inr (sessToken sess, ?g + 1), ?w1)"
    using assms(1,3) by (simp add: ensureToken_def auth_net_def Let_def)
  moreover have "rejected_callers env early a ?g us ?w1
      = (replicate (length us) (Inr (sessToken sess, ?g + 1)), ?w1\<lparr>hwNet := fold (\<lambda>u. u) us n\<rparr>)"
    using assms(1) rejected_callers_newer [of ?g ?w1] by simp
  ultimately show ?thesis by (intro exI [of _ ?s]) simp
qed

text \<open>Three callers of a service that hands out one session per call.\<close>

definition session_world :: "nat http_world" where
  "session_world = fresh_world\<lparr>hwSession := \<lparr>saToken = ''old'', saExpiresAt = 9, saHaveToken = True, saGeneration = 1\<rparr>\<rparr>"

definition login :: "nat authenticator" where
  "login n = (Inr \<lparr>sessToken = ''sid'' @ nat_decimal n, sessExpiresIn = 300\<rparr>, n + 1)"

definition still_env :: "nat http_world http_env" where
  "still_env = \<lparr>heNow = (\<lambda>w. 5), heWait = (\<lambda>d w. (None, w)), heRand = (\<lambda>w. (1 / 2, w))\<rparr>"

theorem session_single_reauth_witness:
  "let (tokens, w) = rejected_callers still_env 30 login 1 [\<lambda>n. n, \<lambda>n. n, \<lambda>n. n] session_world
   in tokens = [Inr (''sid0'', 2), Inr (''sid0'', 2), Inr (''sid0'', 2)] \<and> hwNet w = 1"
proof -
  have "login (hwNet session_world) = (Inr \<lparr>sessToken = ''sid0'', sessExpiresIn = 300\<rparr>, 1)"
    by code_simp
  then show ?thesis
    using session_single_reauth [of session_world login "\<lambda>n. n" "\<lparr>sessToken = ''sid0'', sessExpiresIn = 300\<rparr>" 1
        still_env 30 "[\<lambda>n. n, \<lambda>n. n]"]
    by (auto simp: session_world_def)
qed

section \<open>The whole client\<close>

text \<open>\<open>next\<close> costs at most \<open>k\<close> in the measure \<open>m\<close>; the clock, waiting and randomness cost nothing.\<close>

definition costs_at_most :: "nat \<Rightarrow> ('w \<Rightarrow> nat) \<Rightarrow> 'w transport \<Rightarrow> bool" where
  "costs_at_most k m next \<longleftrightarrow> (\<forall>r w. m (snd (next r w)) \<le> m w + k)"

definition free_env :: "('w \<Rightarrow> nat) \<Rightarrow> 'w http_env \<Rightarrow> bool" where
  "free_env m env \<longleftrightarrow> (\<forall>d w. m (snd (heWait env d w)) = m w) \<and> (\<forall>w. m (snd (heRand env w)) = m w)"

definition free_cell :: "('w \<Rightarrow> nat) \<Rightarrow> ('s, 'w) cell \<Rightarrow> bool" where
  "free_cell m c \<longleftrightarrow> (\<forall>s w. m (cellPut c s w) = m w)"

lemma costsD: "costs_at_most k m next \<Longrightarrow> next r w = (res, w1) \<Longrightarrow> m w1 \<le> m w + k"
  unfolding costs_at_most_def by (metis snd_conv)

lemma calcDelay_free: "free_env m env \<Longrightarrow> calcDelay env a l opt w = (d, w1) \<Longrightarrow> m w1 = m w"
  by (auto simp: calcDelay_def free_env_def split: option.splits sum.splits prod.splits) (metis snd_conv)+

lemma heWait_free: "free_env m env \<Longrightarrow> heWait env d w = (e, w1) \<Longrightarrow> m w1 = m w"
  unfolding free_env_def by (metis snd_conv)

lemma retry_rounds_cost:
  assumes "costs_at_most k m next" "free_env m env"
  shows "m (snd (retry_rounds env opt next req left attempt areq w)) \<le> m w + k * Suc left"
proof (induction left arbitrary: attempt areq w)
  case 0
  show ?case using costsD [OF assms(1)] by (subst retry_rounds.simps) (auto split: prod.splits)
next
  case (Suc left)
  obtain res w1 where n: "next areq w = (res, w1)" by (cases "next areq w")
  obtain d w2 where d: "calcDelay env (Suc attempt) res opt w1 = (d, w2)"
    by (cases "calcDelay env (Suc attempt) res opt w1")
  obtain e w3 where wt: "heWait env d w2 = (e, w3)" by (cases "heWait env d w2")
  have m: "m w1 \<le> m w + k" "m w2 = m w1" "m w3 = m w1"
    using costsD [OF assms(1) n] calcDelay_free [OF assms(2) d] heWait_free [OF assms(2) wt] by simp_all
  have ih: "m (snd (retry_rounds env opt next req left (Suc attempt) r w3)) \<le> m w + (k + (k + k * left))" for r
    using Suc.IH [where attempt = "Suc attempt" and areq = r and w = w3] m by simp
  show ?case
    using m ih by (subst retry_rounds.simps) (auto simp: n d wt split: sum.splits option.splits)
qed

lemma Retry_cost:
  assumes "costs_at_most k m next" "free_env m env"
  shows "costs_at_most (k * nat (MaxAttempts (withDefaults opts))) m (Retry env opts next)"
proof -
  have "Suc (nat (MaxAttempts (withDefaults opts)) - 1) = nat (MaxAttempts (withDefaults opts))"
    by (auto simp: withDefaults_def defaultMaxAttempts_def)
  then show ?thesis
    unfolding costs_at_most_def Retry_def Let_def using retry_rounds_cost [OF assms] by metis
qed

lemma CircuitBreaker_cost:
  "costs_at_most k m next \<Longrightarrow> free_cell m c \<Longrightarrow> costs_at_most k m (CircuitBreaker c f next)"
  by (auto simp: costs_at_most_def CircuitBreaker_def free_cell_def split: prod.splits) (metis snd_conv)

lemma Metrics_cost:
  assumes "costs_at_most k m next" "\<And>f n q s w. rec = Some f \<Longrightarrow> m (f n q s w) = m w"
  shows "costs_at_most k m (Metrics name rec next)"
  using assms by (auto simp: costs_at_most_def Metrics_def split: prod.splits option.splits) (metis snd_conv)

lemma AttemptTimeout_cost: "costs_at_most k m next \<Longrightarrow> costs_at_most k m (AttemptTimeout env t next)"
  by (simp add: costs_at_most_def AttemptTimeout_def Let_def)

lemma ensureToken_cost:
  assumes "\<And>w. m (snd (auth w)) = m w" "free_cell m c" "ensureToken env c early auth g w = (res, w1)"
  shows "m w1 = m w"
proof -
  have a: "m w' = m w" if "auth w = (r, w')" for r w' using assms(1) [of w] that by simp
  show ?thesis
    using assms(2,3) a
    by (auto simp: ensureToken_def Let_def free_cell_def split: if_splits prod.splits sum.splits)
qed

lemma session_attempt_cost:
  assumes "costs_at_most k m next" "session_attempt hdr next req token w = (res, w1)"
  shows "m w1 \<le> m w + k"
  using assms(2) costsD [OF assms(1)]
  by (auto simp: session_attempt_def split: if_splits option.splits sum.splits)

lemma SessionAuth_cost:
  assumes "costs_at_most k m next" "\<And>w. m (snd (auth w)) = m w" "free_cell m c"
  shows "costs_at_most (2 * k) m (SessionAuth env c hdr early auth next)"
  unfolding costs_at_most_def
proof (intro allI)
  fix req w
  obtain t w1 where t: "ensureToken env c (early_expiry early) auth 0 w = (t, w1)"
    by (cases "ensureToken env c (early_expiry early) auth 0 w")
  note e = ensureToken_cost [where m = m, OF assms(2,3)]
  show "m (snd (SessionAuth env c hdr early auth next req w)) \<le> m w + 2 * k"
  proof (cases t)
    case (Inl err)
    with t e [OF t] show ?thesis by (simp add: SessionAuth_def)
  next
    case (Inr tg)
    obtain tok g where tg: "tg = (tok, g)" by (cases tg)
    obtain res w2 where a: "session_attempt hdr next req tok w1 = (res, w2)"
      by (cases "session_attempt hdr next req tok w1")
    obtain t2 w3 where t2: "ensureToken env c (early_expiry early) auth g w2 = (t2, w3)"
      by (cases "ensureToken env c (early_expiry early) auth g w2")
    have m: "m w1 = m w" "m w2 \<le> m w + k" "m w3 = m w2"
      using e [OF t] session_attempt_cost [OF assms(1) a] e [OF t2] by simp_all
    have "m (snd (session_attempt hdr next req tok' w3)) \<le> m w + 2 * k" for tok'
      using m session_attempt_cost [OF assms(1), of hdr req tok' w3] by (cases "session_attempt hdr next req tok' w3") fastforce
    with m show ?thesis
      by (auto simp: SessionAuth_def Let_def t t2 a Inr tg split: sum.splits prod.splits)
  qed
qed


definition sample_client :: "nat http_world ClientOptions" where
  "sample_client = \<lparr>clName = ''pihole'', clTimeout = 0, clRetry = \<lparr>MaxAttempts = 0, BaseDelay = 0, MaxDelay = 0\<rparr>,
     clMaxAuthFailures = 0,
     clAuth = Some (SessionAuth still_env session_cell ''X-FTL-SID'' 0 (\<lambda>w. (Inr \<lparr>sessToken = ''s'', sessExpiresIn = 0\<rparr>, w))),
     clDebug = None, clMetrics = None\<rparr>"


end
