(* ===== verification/Debug_Log.thy ===== *)
theory Debug_Log
  imports Transport
begin

text \<open>
  \<open>pkg/upstream/transport/debuglog.go\<close>: the middleware that logs every request and response. The log
  is a list of lines in the state of the middleware, beside the request counter. The
  middleware sees bodies that are read without error; a body that breaks off, and the \<open>replayBody\<close> put
  in its place, have a section of their own. Durations are left out.
  Proved here: the log never shows more of a bearer token than its first and last four characters,
  the middleware does not change what the caller and the network see, and the limits of the
  redaction: what stands before the first space of a value is shown in full.
\<close>

section \<open>Redaction\<close>

definition defaultDebugMaxBody :: int where "defaultDebugMaxBody = 64 * 1024"

definition sensitiveHeaders :: "string list" where
  "sensitiveHeaders = [''Authorization'', ''Proxy-Authorization'', ''Cookie'', ''Set-Cookie'', ''X-Api-Key'', ''X-Ftl-Sid'']"

definition ellipsis :: string where
  "ellipsis = [CHR 0xE2, CHR 0x80, CHR 0xA6]"

definition redactValue :: "string \<Rightarrow> string" where
  "redactValue v =
     (let (prefix, rest) = (case cut v '' '' of None \<Rightarrow> ('''', v) | Some (scheme, rest) \<Rightarrow> (scheme @ '' '', rest)) in
      if length rest < 16 then prefix @ ''[REDACTED]''
      else prefix @ take 4 rest @ ellipsis @ drop (length rest - 4) rest)"

definition header_for_log :: "bool \<Rightarrow> string \<Rightarrow> string list \<Rightarrow> string" where
  "header_for_log reveal k vals =
     (let v = join '', '' vals in
      if \<not> reveal \<and> canonical_key k \<in> set sensitiveHeaders then redactValue v else v)"

definition headersForLog :: "http_header \<Rightarrow> bool \<Rightarrow> (string, string) go_map" where
  "headersForLog h reveal = map (\<lambda>(k, vals). (k, header_for_log reveal k vals)) h"

definition bodyForLog :: "int \<Rightarrow> string \<Rightarrow> string" where
  "bodyForLog maxBody data =
     (if int (length data) \<le> maxBody then data
      else take (nat maxBody) data @ ellipsis @ '' [log truncated, '' @ itoa maxBody @ '' of '' @
        itoa (int (length data)) @ '' bytes shown]'')"

section \<open>The middleware\<close>

datatype log_line =
    RequestLine string nat string string "(string, string) go_map" string
  | FailureLine string nat string string error
  | ResponseLine string nat int string "(string, string) go_map" string

record debug_state =
  dbSeq :: nat
  dbLog :: "log_line list"

record DebugLogOptions =
  dlEnabled :: bool
  dlName :: string
  dlRevealSecrets :: bool
  dlMaxBodyBytes :: int

text \<open>
  A body with \<open>GetBody\<close> is read from a fresh copy and stays as it is; one without is consumed and
  replaced by what was read, which is the same text here.
\<close>

definition captureRequestBody :: "int \<Rightarrow> http_request \<Rightarrow> error + http_request \<times> string" where
  "captureRequestBody maxBody req =
     (case rqBody req of
        None \<Rightarrow> Inr (req, '''')
      | Some data \<Rightarrow>
          (case rqGetBody req of
             Some (Inl e) \<Rightarrow> Inl e
           | Some (Inr fresh) \<Rightarrow> Inr (req, bodyForLog maxBody fresh)
           | None \<Rightarrow> Inr (req\<lparr>rqBody := Some data\<rparr>, bodyForLog maxBody data)))"

definition log_add :: "(debug_state, 'w) cell \<Rightarrow> log_line \<Rightarrow> 'w \<Rightarrow> 'w" where
  "log_add c l w = (let s = cellGet c w in cellPut c (s\<lparr>dbLog := dbLog s @ [l]\<rparr>) w)"

definition debug_RoundTrip :: "(debug_state, 'w) cell \<Rightarrow> DebugLogOptions \<Rightarrow> 'w middleware" where
  "debug_RoundTrip c opts next req0 w =
     (let s = cellGet c w; k = (dbSeq s + 1) mod 2 ^ 64; w1 = cellPut c (s\<lparr>dbSeq := k\<rparr>) w in
      case captureRequestBody (dlMaxBodyBytes opts) req0 of
        Inl e \<Rightarrow> (Inl (Wrapped ''transport: debug log failed to read request body: '' e ''''), w1)
      | Inr (req, body) \<Rightarrow>
          (let w2 = log_add c (RequestLine (dlName opts) k (rqMethod req) (rqURL req)
                      (headersForLog (rqHeader req) (dlRevealSecrets opts)) body) w1;
               (res, w3) = next req w2
           in case res of
                Inl err \<Rightarrow> (Inl err, log_add c (FailureLine (dlName opts) k (rqMethod req) (rqURL req) err) w3)
              | Inr resp \<Rightarrow>
                  (Inr resp, log_add c (ResponseLine (dlName opts) k (respStatus resp) (rqURL req)
                      (headersForLog (respHeader resp) (dlRevealSecrets opts))
                      (bodyForLog (dlMaxBodyBytes opts) (respBody resp))) w3)))"

definition DebugLog :: "(debug_state, 'w) cell \<Rightarrow> DebugLogOptions \<Rightarrow> 'w middleware" where
  "DebugLog c opts =
     (if \<not> dlEnabled opts then (\<lambda>next. next)
      else debug_RoundTrip c (if dlMaxBodyBytes opts \<le> 0 then opts\<lparr>dlMaxBodyBytes := defaultDebugMaxBody\<rparr> else opts))"

text \<open>The world of a logging client.\<close>

record 'n debug_world =
  dwDebug :: debug_state
  dwNet :: 'n

definition debug_cell :: "(debug_state, 'n debug_world) cell" where
  "debug_cell = \<lparr>cellGet = dwDebug, cellPut = (\<lambda>s w. w\<lparr>dwDebug := s\<rparr>)\<rparr>"

interpretation debug: state_cell debug_cell
  by unfold_locales (simp_all add: debug_cell_def)

lemma debug_cell_simps [simp]:
  "cellGet debug_cell w = dwDebug w" "cellPut debug_cell s w = w\<lparr>dwDebug := s\<rparr>"
  by (simp_all add: debug_cell_def)

definition under_log :: "'n transport \<Rightarrow> 'n debug_world transport" where
  "under_log net req w = (let (res, n) = net req (dwNet w) in (res, w\<lparr>dwNet := n\<rparr>))"

section \<open>What the log reveals\<close>

text \<open>Two secrets that the redaction maps to the same text: both short, or with the same ends.\<close>

definition same_ends :: "string \<Rightarrow> string \<Rightarrow> bool" where
  "same_ends s t \<longleftrightarrow>
     length s < 16 \<and> length t < 16 \<or>
     16 \<le> length s \<and> 16 \<le> length t \<and> take 4 s = take 4 t \<and>
       drop (length s - 4) s = drop (length t - 4) t"

lemma redact_scheme:
  assumes "CHR '' '' \<notin> set scheme" "same_ends s t"
  shows "redactValue (scheme @ '' '' @ s) = redactValue (scheme @ '' '' @ t)"
  using assms by (auto simp: redactValue_def cut_append same_ends_def)

lemma redact_plain:
  assumes "CHR '' '' \<notin> set s" "CHR '' '' \<notin> set t" "same_ends s t"
  shows "redactValue s = redactValue t"
  using assms by (auto simp: redactValue_def cut_None same_ends_def)

text \<open>
  The text before the first space counts as a scheme and is shown: the value of a cookie that is
  followed by attributes is logged in full.
\<close>

lemma redact_shows_cookie:
  "redactValue ''sid=5f2c9a11d0e4b7a6; Path=/; HttpOnly'' =
     ''sid=5f2c9a11d0e4b7a6; Path'' @ ellipsis @ ''Only''"
  by (simp add: redactValue_def has_prefix_def)

lemma map_go_put:
  "map (\<lambda>(k, v). (k, f k v)) (go_put k v m) = go_put k (f k v) (map (\<lambda>(k, v). (k, f k v)) m)"
  by (induction m) auto

lemma headersForLog_put:
  "headersForLog (go_put k vs h) reveal = go_put k (header_for_log reveal k vs) (headersForLog h reveal)"
  unfolding headersForLog_def by (rule map_go_put)

lemma captureRequestBody_header:
  "captureRequestBody k (req\<lparr>rqHeader := h\<rparr>) =
     map_sum id (map_prod (\<lambda>r. r\<lparr>rqHeader := h\<rparr>) id) (captureRequestBody k req)"
  by (cases req) (auto simp: captureRequestBody_def split: option.splits sum.splits)

lemma captureRequestBody_Inr:
  "captureRequestBody k req = Inr (r, b) \<Longrightarrow> r = req"
  by (cases req) (auto simp: captureRequestBody_def split: option.splits sum.splits)

lemma captureRequestBody_ok:
  assumes "\<And>e. rqGetBody req \<noteq> Some (Inl e)"
  shows "\<exists>b. captureRequestBody k req = Inr (req, b)"
proof (cases "captureRequestBody k req")
  case (Inl e)
  with assms show ?thesis by (auto simp: captureRequestBody_def split: option.splits sum.splits)
next
  case (Inr rb)
  then show ?thesis using captureRequestBody_Inr by (cases rb) auto
qed

definition effective_debug :: "DebugLogOptions \<Rightarrow> DebugLogOptions" where
  "effective_debug opts = (if dlMaxBodyBytes opts \<le> 0 then opts\<lparr>dlMaxBodyBytes := defaultDebugMaxBody\<rparr> else opts)"

lemma effective_debug_simps [simp]:
  "dlName (effective_debug opts) = dlName opts" "dlRevealSecrets (effective_debug opts) = dlRevealSecrets opts"
  by (simp_all add: effective_debug_def)

lemma DebugLog_enabled: "dlEnabled opts \<Longrightarrow> DebugLog c opts = debug_RoundTrip c (effective_debug opts)"
  by (simp add: DebugLog_def effective_debug_def)

definition outcome_line :: "DebugLogOptions \<Rightarrow> nat \<Rightarrow> http_request \<Rightarrow> error + http_response \<Rightarrow> log_line" where
  "outcome_line opts k req res =
     (case res of
        Inl err \<Rightarrow> FailureLine (dlName opts) k (rqMethod req) (rqURL req) err
      | Inr resp \<Rightarrow> ResponseLine (dlName opts) k (respStatus resp) (rqURL req)
          (headersForLog (respHeader resp) (dlRevealSecrets opts)) (bodyForLog (dlMaxBodyBytes opts) (respBody resp)))"

text \<open>The two lines of one round trip.\<close>

lemma debug_RoundTrip_lines:
  assumes "captureRequestBody (dlMaxBodyBytes opts) req = Inr (req, b)" "net req (dwNet w) = (res, n)"
  shows "debug_RoundTrip debug_cell opts (under_log net) req w
    = (res, w\<lparr>dwDebug := \<lparr>dbSeq = (dbSeq (dwDebug w) + 1) mod 2 ^ 64,
        dbLog = dbLog (dwDebug w) @
          [RequestLine (dlName opts) ((dbSeq (dwDebug w) + 1) mod 2 ^ 64) (rqMethod req) (rqURL req)
             (headersForLog (rqHeader req) (dlRevealSecrets opts)) b,
           outcome_line opts ((dbSeq (dwDebug w) + 1) mod 2 ^ 64) req res]\<rparr>, dwNet := n\<rparr>)"
proof -
  obtain s lg nt where w: "w = \<lparr>dwDebug = \<lparr>dbSeq = s, dbLog = lg\<rparr>, dwNet = nt\<rparr>"
    by (cases w) (metis debug_state.cases)
  show ?thesis
    using assms by (cases res) (simp_all add: debug_RoundTrip_def under_log_def log_add_def outcome_line_def Let_def w)
qed

lemma bearer_header_hidden:
  assumes "same_ends s t"
  shows "headersForLog (header_set ''Authorization'' (''Bearer '' @ s) h) False =
    headersForLog (header_set ''Authorization'' (''Bearer '' @ t) h) False"
proof -
  have k: "canonical_key ''Authorization'' = ''Authorization''" by code_simp
  have "redactValue (''Bearer '' @ s) = redactValue (''Bearer '' @ t)"
    using redact_scheme [OF _ assms, of "''Bearer''"] by simp
  then show ?thesis
    by (simp add: header_set_def headersForLog_put k header_for_log_def sensitiveHeaders_def)
qed

text \<open>
  C34. With \<open>RevealSecrets\<close> off the log of a client does not depend on its bearer token beyond the
  token's first and last four characters, and on nothing of a token shorter than 16 characters:
  replacing the token by another with the same ends leaves every line of the log the same,
  whatever the request, provided the service answers both alike.
\<close>

theorem Bearer_log_hides_token:
  assumes "same_ends s t" "\<not> dlRevealSecrets opts"
    "net (req\<lparr>rqHeader := header_set ''Authorization'' (''Bearer '' @ s) (rqHeader req)\<rparr>) (dwNet w)
       = net (req\<lparr>rqHeader := header_set ''Authorization'' (''Bearer '' @ t) (rqHeader req)\<rparr>) (dwNet w)"
    "dlEnabled opts"
  shows "dwDebug (snd (Bearer s (DebugLog debug_cell opts (under_log net)) req w))
    = dwDebug (snd (Bearer t (DebugLog debug_cell opts (under_log net)) req w))"
proof -
  let ?o = "effective_debug opts"
  let ?r = "\<lambda>u. req\<lparr>rqHeader := header_set ''Authorization'' (''Bearer '' @ u) (rqHeader req)\<rparr>"
  have d: "Bearer u (DebugLog debug_cell opts (under_log net)) req w
      = debug_RoundTrip debug_cell ?o (under_log net) (?r u) w" for u
    using assms(4) by (simp add: Bearer_def DebugLog_enabled)
  show ?thesis
  proof (cases "captureRequestBody (dlMaxBodyBytes ?o) req")
    case (Inl e)
    then show ?thesis by (simp add: d debug_RoundTrip_def captureRequestBody_header Let_def)
  next
    case (Inr rb)
    obtain b where "rb = (req, b)" using Inr captureRequestBody_Inr by (cases rb) auto
    with Inr have c: "captureRequestBody (dlMaxBodyBytes ?o) (?r u) = Inr (?r u, b)" for u
      by (simp add: captureRequestBody_header)
    obtain res n where n: "net (?r t) (dwNet w) = (res, n)" by (cases "net (?r t) (dwNet w)")
    then have n': "net (?r s) (dwNet w) = (res, n)" using assms(3) by simp
    show ?thesis
      unfolding d debug_RoundTrip_lines [where w = w and net = net and req = "?r t", OF c n]
        debug_RoundTrip_lines [where w = w and net = net and req = "?r s", OF c n']
      using bearer_header_hidden [OF assms(1), of "rqHeader req"] assms(2)
      by (auto simp: outcome_line_def split: sum.splits)
  qed
qed

definition sample_debug_world :: "nat debug_world" where
  "sample_debug_world = \<lparr>dwDebug = \<lparr>dbSeq = 0, dbLog = []\<rparr>, dwNet = 0\<rparr>"

definition sample_debug :: DebugLogOptions where
  "sample_debug = \<lparr>dlEnabled = True, dlName = ''cf'', dlRevealSecrets = False, dlMaxBodyBytes = 0\<rparr>"

theorem Bearer_log_hides_token_witness:
  "let log = (\<lambda>tok. dwDebug (snd (Bearer tok (DebugLog debug_cell sample_debug
       (under_log (counting (Inr (answer 200 []))))) plain_get sample_debug_world)))
   in log ''abcd0000000000009876'' = log ''abcdXYZXYZXYZXYZXYZXYZ9876''"
  using Bearer_log_hides_token [of "''abcd0000000000009876''" "''abcdXYZXYZXYZXYZXYZXYZ9876''" sample_debug
      "counting (Inr (answer 200 []))" plain_get sample_debug_world]
  by (simp add: same_ends_def sample_debug_def counting_def Let_def)

text \<open>
  C35. The log is transparent: unless reading the body for the log fails, the caller gets the answer
  of the inner transport and the network sees the same request once; the log grows by exactly two
  lines that carry the same number, the request and its outcome.
\<close>

theorem DebugLog_transparent:
  assumes "dlEnabled opts" "\<And>e. rqGetBody req \<noteq> Some (Inl e)"
  shows "\<exists>l l' k. DebugLog debug_cell opts (under_log net) req w
      = (fst (net req (dwNet w)),
         \<lparr>dwDebug = \<lparr>dbSeq = k, dbLog = dbLog (dwDebug w) @ [l, l']\<rparr>, dwNet = snd (net req (dwNet w))\<rparr>) \<and>
    k = (dbSeq (dwDebug w) + 1) mod 2 ^ 64 \<and>
    (\<exists>h b. l = RequestLine (dlName opts) k (rqMethod req) (rqURL req) h b) \<and>
    (case fst (net req (dwNet w)) of
       Inl e \<Rightarrow> l' = FailureLine (dlName opts) k (rqMethod req) (rqURL req) e
     | Inr resp \<Rightarrow> \<exists>h b. l' = ResponseLine (dlName opts) k (respStatus resp) (rqURL req) h b)"
proof -
  obtain b where c: "captureRequestBody (dlMaxBodyBytes (effective_debug opts)) req = Inr (req, b)"
    using captureRequestBody_ok assms(2) by metis
  obtain res n where n: "net req (dwNet w) = (res, n)" by (cases "net req (dwNet w)")
  show ?thesis
    unfolding DebugLog_enabled [OF assms(1)] debug_RoundTrip_lines [where w = w and net = net and req = req, OF c n]
    using n by (cases res; cases w) (auto simp: outcome_line_def)
qed

theorem DebugLog_transparent_witness:
  "\<exists>l l'. DebugLog debug_cell sample_debug (under_log (counting (Inr (answer 200 [])))) plain_get sample_debug_world
     = (Inr (answer 200 []), \<lparr>dwDebug = \<lparr>dbSeq = 1, dbLog = [l, l']\<rparr>, dwNet = 1\<rparr>)"
  using DebugLog_transparent [of sample_debug plain_get "counting (Inr (answer 200 []))" sample_debug_world]
  by (auto simp: sample_debug_def plain_get_def sample_debug_world_def counting_def)

section \<open>Response bodies as streams\<close>

text \<open>
  The transport hands over bodies that are read to their end without an error. Here are the body of
  a response as the network delivers it, in pieces that may break off, and the buffer that
  \<open>captureResponseBody\<close> puts in its place.
\<close>

record response_stream =
  rsPieces :: "string list"
  rsBroken :: "error option"

text \<open>What a call of \<open>Read\<close> ends with: no error, \<open>io.EOF\<close>, or another error.\<close>

datatype read_end = ReadOn | AtEOF | ReadFails error

record replayBody =
  rbData :: string
  rbErr :: "error option"

text \<open>\<open>bytes.Reader\<close>: at the end every read returns \<open>io.EOF\<close>, also one of no bytes.\<close>

definition bytes_Read :: "nat \<Rightarrow> string \<Rightarrow> string \<times> read_end" where
  "bytes_Read n data = (if data = '''' then ('''', AtEOF) else (take n data, ReadOn))"

definition replay_Read :: "nat \<Rightarrow> replayBody \<Rightarrow> (string \<times> read_end) \<times> replayBody" where
  "replay_Read n b =
     (let (p, stop) = bytes_Read n (rbData b); b1 = b\<lparr>rbData := drop n (rbData b)\<rparr>
      in case (stop, rbErr b) of
           (AtEOF, Some err) \<Rightarrow> ((p, ReadFails err), b1)
         | _ \<Rightarrow> ((p, stop), b1))"

text \<open>\<open>io.ReadAll\<close> returns what was read before the first error, and no error for \<open>io.EOF\<close>.\<close>

definition captureResponseBody :: "int \<Rightarrow> response_stream option \<Rightarrow> string \<times> replayBody option" where
  "captureResponseBody maxBody body =
     (case body of
        None \<Rightarrow> ('''', None)
      | Some stream \<Rightarrow>
          (let data = concat (rsPieces stream); err = rsBroken stream
           in (bodyForLog maxBody data @
                 (case err of None \<Rightarrow> '''' | Some e \<Rightarrow> '' [body read error: '' @ error_text e @ '']''),
               Some \<lparr>rbData = data, rbErr = err\<rparr>)))"

text \<open>A caller that reads with buffers of the given sizes until a read ends the body.\<close>

fun read_with :: "nat list \<Rightarrow> replayBody \<Rightarrow> string \<times> read_end" where
  "read_with [] b = ('''', ReadOn)"
| "read_with (n # ns) b =
     (case replay_Read n b of
        ((p, ReadOn), b1) \<Rightarrow> (let (q, stop) = read_with ns b1 in (p @ q, stop))
      | ((p, stop), b1) \<Rightarrow> (p, stop))"

definition stream_end :: "error option \<Rightarrow> read_end" where
  "stream_end err = (case err of None \<Rightarrow> AtEOF | Some e \<Rightarrow> ReadFails e)"

text \<open>
  The replacement is as good as the body: whatever buffers the caller reads with, it gets the bytes
  in order, and when the body ends it has got all of them and sees the end the network gave; with one more
  non-empty buffer than there are bytes it does get there.
\<close>

lemma replay_complete:
  "fst (read_with ns b) = take (sum_list ns) (rbData b)"
  "snd (read_with ns b) \<noteq> ReadOn \<Longrightarrow>
     fst (read_with ns b) = rbData b \<and> snd (read_with ns b) = stream_end (rbErr b)"
  "length (rbData b) < length ns \<Longrightarrow> 0 \<notin> set ns \<Longrightarrow> snd (read_with ns b) \<noteq> ReadOn"
proof -
  have step: "read_with (n # ns) b =
    (if rbData b = '''' then ('''', stream_end (rbErr b))
     else (let (q, stop) = read_with ns (b\<lparr>rbData := drop n (rbData b)\<rparr>) in (take n (rbData b) @ q, stop)))"
    for n ns b
    by (simp add: replay_Read_def bytes_Read_def stream_end_def split: option.splits)
  note [simp del] = read_with.simps(2)
  show "fst (read_with ns b) = take (sum_list ns) (rbData b)"
    by (induction ns arbitrary: b) (simp_all add: step take_add split_def)
  show "snd (read_with ns b) \<noteq> ReadOn \<Longrightarrow>
     fst (read_with ns b) = rbData b \<and> snd (read_with ns b) = stream_end (rbErr b)"
  proof (induction ns arbitrary: b)
    case (Cons n ns)
    then show ?case using Cons.IH [of "b\<lparr>rbData := drop n (rbData b)\<rparr>"]
      by (auto simp: step split_def Let_def split: if_split_asm)
  qed simp
  show "length (rbData b) < length ns \<Longrightarrow> 0 \<notin> set ns \<Longrightarrow> snd (read_with ns b) \<noteq> ReadOn"
  proof (induction ns arbitrary: b)
    case (Cons n ns)
    have "stream_end x \<noteq> ReadOn" for x by (simp add: stream_end_def split: option.splits)
    moreover have "rbData b \<noteq> '''' \<Longrightarrow> length (drop n (rbData b)) < length ns"
      using Cons.prems by (cases "rbData b") auto
    ultimately show ?case using Cons.IH [of "b\<lparr>rbData := drop n (rbData b)\<rparr>"] Cons.prems
      by (auto simp: step split_def Let_def)
  qed simp
qed

text \<open>What is logged of a body, and what the caller reads instead of it.\<close>

lemma captureResponseBody_replays:
  assumes "captureResponseBody k (Some stream) = (logged, Some b)" "snd (read_with ns b) \<noteq> ReadOn"
  shows "read_with ns b = (concat (rsPieces stream), stream_end (rsBroken stream))"
    and "take (length (bodyForLog k (concat (rsPieces stream)))) logged = bodyForLog k (concat (rsPieces stream))"
  using assms replay_complete(2) [OF assms(2)]
  by (auto simp: captureResponseBody_def Let_def intro: prod_eqI)

end
