(* ===== verification/Http_Api.thy ===== *)
theory Http_Api
  imports Transport Debug_Log
begin

text \<open>
  The parts of Go's \<open>net/http\<close>, \<open>net/url\<close> and \<open>encoding/json\<close> that the three adapters share: building
  a request, \<open>http.Client.Do\<close>, and \<open>url.Values.Encode\<close>. Redirects are left out. The parser of URLs
  is an argument of the operations that build a request, and so are the JSON codecs.
\<close>

section \<open>Requests\<close>

text \<open>
  \<open>http.NewRequestWithContext\<close>: an unparsable URL is an error; a body from a reader over bytes can be
  read again through \<open>GetBody\<close>.
\<close>

definition new_request ::
  "(string \<Rightarrow> error option) \<Rightarrow> string \<Rightarrow> string \<Rightarrow> string option \<Rightarrow> error + http_request" where
  "new_request url_err method url body =
     (case url_err url of
        Some e \<Rightarrow> Inl e
      | None \<Rightarrow> Inr \<lparr>rqMethod = method, rqURL = url, rqHeader = [], rqBody = body,
          rqGetBody = map_option Inr body, rqDeadline = None\<rparr>)"

text \<open>The text that \<open>url.Error\<close> puts before the error of the transport, e.g. \<open>Get "http://..": \<close>.\<close>

definition url_error_op :: "string \<Rightarrow> string" where
  "url_error_op method = take 1 method @ to_lower (drop 1 method)"

definition client_Do :: "'w transport \<Rightarrow> 'w transport" where
  "client_Do t req w =
     (case t req w of
        (Inl e, w1) \<Rightarrow> (Inl (Wrapped (url_error_op (rqMethod req) @ '' '' @ go_quote (rqURL req) @ '': '') e ''''), w1)
      | (Inr resp, w1) \<Rightarrow> (Inr resp, w1))"

definition StatusOK :: int where [go_consts]: "StatusOK = 200"
definition StatusNoContent :: int where [go_consts]: "StatusNoContent = 204"

definition trim_right :: "string \<Rightarrow> char \<Rightarrow> string" where
  "trim_right s c = rev (dropWhile (\<lambda>x. x = c) (rev s))"

text \<open>\<open>fmt.Errorf(pre + "%w", err)\<close> and the common continuation on an error.\<close>

definition wrap_err :: "string \<Rightarrow> error \<Rightarrow> error" where
  "wrap_err pre e = Wrapped pre e ''''"

section \<open>Query parameters\<close>

text \<open>
  \<open>url.Values\<close> with one value per key, and \<open>Encode\<close>: sorted by key, both parts escaped.
\<close>

type_synonym url_values = "(string, string) go_map"

definition unreserved :: "char \<Rightarrow> bool" where
  "unreserved c \<longleftrightarrow> (let n = of_char c :: nat in
     48 \<le> n \<and> n \<le> 57 \<or> 65 \<le> n \<and> n \<le> 90 \<or> 97 \<le> n \<and> n \<le> 122 \<or> n \<in> {45, 46, 95, 126})"

definition upper_hex :: "nat \<Rightarrow> char" where
  "upper_hex d = (if d < 10 then char_of (48 + d) else char_of (55 + d))"

definition query_escape :: "string \<Rightarrow> string" where
  "query_escape s = concat (map (\<lambda>c. if c = CHR '' '' then ''+'' else if unreserved c then [c]
     else let n = of_char c :: nat in [CHR ''%'', upper_hex (n div 16), upper_hex (n mod 16)]) s)"

fun byte_le :: "string \<Rightarrow> string \<Rightarrow> bool" where
  "byte_le [] ys = True"
| "byte_le (x # xs) [] = False"
| "byte_le (x # xs) (y # ys) =
     ((of_char x :: nat) < of_char y \<or> x = y \<and> byte_le xs ys)"

fun insert_key :: "string \<times> string \<Rightarrow> url_values \<Rightarrow> url_values" where
  "insert_key p [] = [p]"
| "insert_key p (q # qs) = (if byte_le (fst p) (fst q) then p # q # qs else q # insert_key p qs)"

definition values_encode :: "url_values \<Rightarrow> string" where
  "values_encode vs =
     join ''&'' (map (\<lambda>(k, v). query_escape k @ ''='' @ query_escape v) (foldr insert_key vs []))"

section \<open>A codec for samples\<close>

text \<open>A codec for lists of entries: each character after a dot, each entry closed by a semicolon.\<close>

fun enc_entries :: "string list \<Rightarrow> string" where
  "enc_entries [] = ''''"
| "enc_entries (s # ss) = concat (map (\<lambda>c. [CHR ''.'', c]) s) @ '';'' @ enc_entries ss"

fun dec_entries :: "string \<Rightarrow> string \<Rightarrow> string list" where
  "dec_entries w [] = []"
| "dec_entries w [c] = [w]"
| "dec_entries w (c # d # cs) = (if c = CHR ''.'' then dec_entries (w @ [d]) cs else w # dec_entries [] (d # cs))"

lemma dec_word: "dec_entries w (concat (map (\<lambda>c. [CHR ''.'', c]) s) @ cs) = dec_entries (w @ s) cs"
  by (induction s arbitrary: w) simp_all

lemma dec_enc [simp]: "dec_entries [] (enc_entries ss) = ss"
proof (induction ss)
  case (Cons s ss)
  have "dec_entries s (CHR '';'' # enc_entries ss) = s # dec_entries [] (enc_entries ss)"
    by (cases "enc_entries ss") simp_all
  with Cons show ?case by (simp add: dec_word)
qed simp

end
