(* ===== verification/Pihole.thy ===== *)
theory Pihole
  imports Http_Api
begin

text \<open>
  \<open>pkg/upstream/pihole/pihole.go\<close>: the adapter for Pi-hole, whose API only replaces whole lists of
  entries. \<open>encoding/json\<close> and the URL parser are the record \<open>pihole_lib\<close>; a round tripper carries the
  requests. Logging is left out. Proved here: what \<open>applyByName\<close> does to a list of entries, that an
  upserted record is listed afterwards without drift and a deleted one is not, both with every
  other entry kept; and two limits of the read-modify-write of whole lists.
\<close>

section \<open>Entries\<close>

text \<open>The entries of a name that are already there: how many, and whether one is the wanted one.\<close>

fun apply_scan :: "string list \<Rightarrow> string \<Rightarrow> string \<Rightarrow> (string \<Rightarrow> string) \<Rightarrow> string list \<Rightarrow> int \<Rightarrow> bool
    \<Rightarrow> string list \<times> int \<times> bool" where
  "apply_scan [] name entry nameOf out owned exact = (out, owned, exact)"
| "apply_scan (e # es) name entry nameOf out owned exact =
     (if nameOf e = name then apply_scan es name entry nameOf out (owned + 1) (exact \<or> e = entry)
      else apply_scan es name entry nameOf (out @ [e]) owned exact)"

definition applyByName :: "string list \<Rightarrow> string \<Rightarrow> string \<Rightarrow> bool \<Rightarrow> (string \<Rightarrow> string) \<Rightarrow> string list \<times> bool" where
  "applyByName entries name entry remove nameOf =
     (let (out, owned, exact) = apply_scan entries name entry nameOf [] 0 False in
      if remove then (out, 0 < owned)
      else (out @ [entry], \<not> exact \<or> owned \<noteq> 1))"

definition hostName :: "string \<Rightarrow> string" where
  "hostName entry = (case index_byte entry (CHR '' '') of Some i \<Rightarrow> trim_space (drop (i + 1) entry) | None \<Rightarrow> '''')"

definition cnameAlias :: "string \<Rightarrow> string" where
  "cnameAlias entry = (case index_byte entry (CHR '','') of Some i \<Rightarrow> take i entry | None \<Rightarrow> entry)"

definition splitHostEntry :: "string \<Rightarrow> (string \<times> string) option" where
  "splitHostEntry entry =
     (case index_byte entry (CHR '' '') of
        None \<Rightarrow> None
      | Some i \<Rightarrow>
          (let ip = take i entry; rest = trim_space (drop (i + 1) entry) in
           if rest = '''' \<or> contains_any rest [CHR '' '', CHR 0x09] then None else Some (ip, rest)))"

definition hostRecordType :: "string \<Rightarrow> RecordType" where
  "hostRecordType ip = (if CHR '':'' \<in> set ip then RecordTypeAAAA else RecordTypeA)"

definition splitCNAMEEntry :: "string \<Rightarrow> string \<times> string \<times> int" where
  "splitCNAMEEntry entry =
     (let parts = split_n 3 (CHR '','') entry in
      (parts ! 0, if 1 < length parts then parts ! 1 else '''', if 2 < length parts then fst (atoi (parts ! 2)) else 0))"

section \<open>The adapter\<close>

definition pihole_attemptTimeout :: int where "pihole_attemptTimeout = 10 * second_ns"
definition sidHeader :: string where "sidHeader = ''X-FTL-SID''"

record auth_response =
  arValid :: bool
  arSID :: string
  arValidity :: int
  arMessage :: string

record pihole_lib =
  plUrlErr :: "string \<Rightarrow> error option"
  plAuthRequest :: "string \<Rightarrow> string"
  plAuthResponse :: "string \<Rightarrow> error + auth_response"
  plHosts :: "string \<Rightarrow> error + string list"
  plCnames :: "string \<Rightarrow> error + string list"
  plPatchHosts :: "string list \<Rightarrow> string"
  plPatchCnames :: "string list \<Rightarrow> string"
  plErrBody :: "string \<Rightarrow> string"

record 'w pihole =
  phName :: string
  phBaseURL :: string
  phPassword :: string
  phClient :: "'w transport"
  phAuthClient :: "'w transport"

definition authenticate :: "pihole_lib \<Rightarrow> string \<Rightarrow> string \<Rightarrow> 'w transport \<Rightarrow> 'w authenticator" where
  "authenticate lib baseURL password authClient w =
     (case new_request (plUrlErr lib) ''POST'' (baseURL @ ''/api/auth'') (Some (plAuthRequest lib password)) of
        Inl e \<Rightarrow> (Inl e, w)
      | Inr req \<Rightarrow>
     (case client_Do authClient (req\<lparr>rqHeader := header_set ''Content-Type'' ''application/json'' (rqHeader req)\<rparr>) w of
        (Inl e, w1) \<Rightarrow> (Inl e, w1)
      | (Inr resp, w1) \<Rightarrow>
     (case plAuthResponse lib (respBody resp) of
        Inl e \<Rightarrow> (Inl (wrap_err ''pihole: failed to decode auth response: '' e), w1)
      | Inr ar \<Rightarrow>
          if \<not> arValid ar then (Inl (Wrapped ''pihole: '' AuthFailed ('': '' @ arMessage ar)), w1)
          else (Inr \<lparr>sessToken = arSID ar, sessExpiresIn = wrap64 (arValidity ar * second_ns)\<rparr>, w1))))"

record 'w pihole_options =
  poName :: string
  poBaseURL :: string
  poPassword :: string
  poRetry :: RetryOptions
  poMaxAuthFailures :: int
  poDebug :: DebugLogOptions
  poMetrics :: "(string \<Rightarrow> string \<Rightarrow> int \<Rightarrow> 'w \<Rightarrow> 'w) option"

definition pihole_New ::
  "'w http_env \<Rightarrow> (breaker_state, 'w) cell \<Rightarrow> (session_state, 'w) cell \<Rightarrow> (debug_state, 'w) cell \<Rightarrow> pihole_lib
     \<Rightarrow> 'w pihole_options \<Rightarrow> 'w transport \<Rightarrow> 'w pihole" where
  "pihole_New env cb cs cd lib opts base =
     (let d = poDebug opts;
          authDebug = d\<lparr>dlEnabled := dlEnabled d \<and> dlRevealSecrets d, dlName := poName opts @ '' (auth)''\<rparr>;
          url = trim_right (poBaseURL opts) (CHR ''/'');
          authClient = Chain base [Retry env (poRetry opts), AttemptTimeout env pihole_attemptTimeout, DebugLog cd authDebug]
      in \<lparr>phName = poName opts, phBaseURL = url, phPassword = poPassword opts,
          phClient = NewClient env cb
            \<lparr>clName = poName opts, clTimeout = pihole_attemptTimeout, clRetry = poRetry opts,
             clMaxAuthFailures = poMaxAuthFailures opts,
             clAuth = Some (SessionAuth env cs sidHeader 0 (authenticate lib url (poPassword opts) authClient)),
             clDebug = (if dlEnabled d then Some (DebugLog cd (if dlName d = '''' then d\<lparr>dlName := poName opts\<rparr> else d))
               else None),
             clMetrics = poMetrics opts\<rparr> base,
          phAuthClient = authClient\<rparr>)"

text \<open>\<open>get\<close> with the decoder of the caller, and \<open>patch\<close> with the marshalled payload.\<close>

definition pihole_get :: "pihole_lib \<Rightarrow> 'w pihole \<Rightarrow> string \<Rightarrow> (string \<Rightarrow> error + 'a) \<Rightarrow> 'w \<Rightarrow> (error + 'a) \<times> 'w" where
  "pihole_get lib u path decode w =
     (case new_request (plUrlErr lib) ''GET'' (phBaseURL u @ path) None of
        Inl e \<Rightarrow> (Inl e, w)
      | Inr req \<Rightarrow>
     (case client_Do (phClient u) req w of
        (Inl e, w1) \<Rightarrow> (Inl e, w1)
      | (Inr resp, w1) \<Rightarrow>
          if respStatus resp \<noteq> StatusOK then
            (Inl (OtherError (''pihole: GET '' @ path @ '' returned '' @ itoa (respStatus resp))), w1)
          else (decode (respBody resp), w1)))"

definition pihole_patch :: "pihole_lib \<Rightarrow> 'w pihole \<Rightarrow> string \<Rightarrow> 'w \<Rightarrow> error option \<times> 'w" where
  "pihole_patch lib u body w =
     (case new_request (plUrlErr lib) ''PATCH'' (phBaseURL u @ ''/api/config'') (Some body) of
        Inl e \<Rightarrow> (Some e, w)
      | Inr req \<Rightarrow>
     (case client_Do (phClient u) (req\<lparr>rqHeader := header_set ''Content-Type'' ''application/json'' (rqHeader req)\<rparr>) w of
        (Inl e, w1) \<Rightarrow> (Some e, w1)
      | (Inr resp, w1) \<Rightarrow>
          if respStatus resp \<noteq> StatusOK \<and> respStatus resp \<noteq> StatusNoContent then
            (Some (OtherError (''pihole: PATCH /api/config returned '' @ itoa (respStatus resp) @ '': '' @
              plErrBody lib (respBody resp))), w1)
          else (None, w1)))"

definition getHosts :: "pihole_lib \<Rightarrow> 'w pihole \<Rightarrow> 'w \<Rightarrow> (error + string list) \<times> 'w" where
  "getHosts lib u = pihole_get lib u ''/api/config/dns/hosts'' (plHosts lib)"

definition getCNAMERecords :: "pihole_lib \<Rightarrow> 'w pihole \<Rightarrow> 'w \<Rightarrow> (error + string list) \<times> 'w" where
  "getCNAMERecords lib u = pihole_get lib u ''/api/config/dns/cnameRecords'' (plCnames lib)"

definition patchHosts :: "pihole_lib \<Rightarrow> 'w pihole \<Rightarrow> Record \<Rightarrow> bool \<Rightarrow> 'w \<Rightarrow> error option \<times> 'w" where
  "patchHosts lib u r remove w =
     (case getHosts lib u w of
        (Inl e, w1) \<Rightarrow> (Some e, w1)
      | (Inr current, w1) \<Rightarrow>
          (let (desired, changed) = applyByName current (Name r) (Value r @ '' '' @ Name r) remove hostName in
           if \<not> changed then (None, w1) else pihole_patch lib u (plPatchHosts lib desired) w1))"

definition cname_entry :: "Record \<Rightarrow> string" where
  "cname_entry r =
     (let entry = Name r @ '','' @ Value r in if 0 < TTL r then entry @ '','' @ itoa (TTL r) else entry)"

definition patchCNAME :: "pihole_lib \<Rightarrow> 'w pihole \<Rightarrow> Record \<Rightarrow> bool \<Rightarrow> 'w \<Rightarrow> error option \<times> 'w" where
  "patchCNAME lib u r remove w =
     (case getCNAMERecords lib u w of
        (Inl e, w1) \<Rightarrow> (Some e, w1)
      | (Inr current, w1) \<Rightarrow>
          (let (desired, changed) = applyByName current (Name r) (cname_entry r) remove cnameAlias in
           if \<not> changed then (None, w1) else pihole_patch lib u (plPatchCnames lib desired) w1))"

definition pihole_change :: "pihole_lib \<Rightarrow> 'w pihole \<Rightarrow> bool \<Rightarrow> Record \<Rightarrow> 'w \<Rightarrow> error option \<times> 'w" where
  "pihole_change lib u remove r w =
     (if Type r = RecordTypeA \<or> Type r = RecordTypeAAAA then patchHosts lib u r remove w
      else if Type r = RecordTypeCNAME then patchCNAME lib u r remove w
      else (Some (OtherError (''pihole: unsupported record type '' @ Type r)), w))"

definition pihole_Upsert :: "pihole_lib \<Rightarrow> 'w pihole \<Rightarrow> Record \<Rightarrow> 'w \<Rightarrow> error option \<times> 'w" where
  "pihole_Upsert lib u = pihole_change lib u False"

definition pihole_Delete :: "pihole_lib \<Rightarrow> 'w pihole \<Rightarrow> Record \<Rightarrow> 'w \<Rightarrow> error option \<times> 'w" where
  "pihole_Delete lib u = pihole_change lib u True"

definition pihole_DriftEqual :: "Record \<Rightarrow> Record \<Rightarrow> bool" where
  "pihole_DriftEqual want got =
     (if Type want \<noteq> Type got \<or> Name want \<noteq> Name got \<or> Value want \<noteq> Value got then False
      else if Type got = RecordTypeCNAME \<and> TTL want \<noteq> TTL got then False
      else True)"

fun host_records :: "string \<Rightarrow> string list \<Rightarrow> Record list" where
  "host_records up [] = []"
| "host_records up (entry # es) =
     (case splitHostEntry entry of
        None \<Rightarrow> host_records up es
      | Some (ip, name) \<Rightarrow>
          zero_record\<lparr>Upstream := up, Type := hostRecordType ip, Name := name, Value := ip\<rparr> # host_records up es)"

definition cname_record :: "string \<Rightarrow> string \<Rightarrow> Record" where
  "cname_record up entry =
     (case splitCNAMEEntry entry of (alias, target, ttl) \<Rightarrow>
        zero_record\<lparr>Upstream := up, Type := RecordTypeCNAME, Name := alias, Value := target, TTL := ttl\<rparr>)"

definition pihole_List :: "pihole_lib \<Rightarrow> 'w pihole \<Rightarrow> 'w \<Rightarrow> (error + Record list) \<times> 'w" where
  "pihole_List lib u w =
     (case getHosts lib u w of
        (Inl e, w1) \<Rightarrow> (Inl (wrap_err ''pihole list hosts: '' e), w1)
      | (Inr hosts, w1) \<Rightarrow>
     (case getCNAMERecords lib u w1 of
        (Inl e, w2) \<Rightarrow> (Inl (wrap_err ''pihole list cname records: '' e), w2)
      | (Inr cnames, w2) \<Rightarrow>
          (Inr (host_records (phName u) hosts @ map (cname_record (phName u)) cnames), w2)))"

text \<open>The adapter as the reconciler sees it.\<close>

definition pihole_upstream :: "pihole_lib \<Rightarrow> 'w pihole \<Rightarrow> 'w upstream" where
  "pihole_upstream lib u =
     \<lparr>upName = phName u,
      upUpsert = (\<lambda>r w. case pihole_Upsert lib u r w of (e, w1) \<Rightarrow> (Returned e, w1)),
      upDelete = (\<lambda>r w. case pihole_Delete lib u r w of (e, w1) \<Rightarrow> (Returned e, w1)),
      upList = Some (\<lambda>w. case pihole_List lib u w of (e, w1) \<Rightarrow> (Returned e, w1)),
      upDriftEqual = Some pihole_DriftEqual\<rparr>"

section \<open>What applyByName does to a list\<close>

lemma apply_scan_eq:
  "apply_scan es name entry nameOf out owned exact =
     (out @ filter (\<lambda>e. nameOf e \<noteq> name) es,
      owned + int (length (filter (\<lambda>e. nameOf e = name) es)),
      exact \<or> entry \<in> set (filter (\<lambda>e. nameOf e = name) es))"
  by (induction es arbitrary: out owned exact) auto

lemma mset_filter_split:
  "mset es = mset (filter P es) + mset (filter (\<lambda>e. \<not> P e) es)"
  by (simp add: mset_filter multiset_partition)

lemma singleton_list_iff: "(entry \<in> set xs \<and> length xs = 1) \<longleftrightarrow> mset xs = {#entry#}"
proof -
  have "mset xs = {#entry#} \<longleftrightarrow> xs = [entry]" by (metis mset_single_iff)
  then show ?thesis by (cases xs) auto
qed

text \<open>
  \<open>applyByName\<close> keeps every entry of another name in its place and leaves exactly the wanted
  entry, or none, for the name itself; the flag \<open>changed\<close> is right: a PATCH is skipped exactly
  when the list would hold the same entries as before.
\<close>

theorem applyByName_spec:
  "fst (applyByName es name entry remove nameOf)
     = filter (\<lambda>e. nameOf e \<noteq> name) es @ (if remove then [] else [entry]) \<and>
   (snd (applyByName es name entry remove nameOf)
     \<longleftrightarrow> mset (fst (applyByName es name entry remove nameOf)) \<noteq> mset es)"
proof -
  let ?own = "filter (\<lambda>e. nameOf e = name) es" and ?other = "filter (\<lambda>e. nameOf e \<noteq> name) es"
  have p: "mset es = mset ?own + mset ?other" using mset_filter_split [of es "\<lambda>e. nameOf e = name"] by simp
  show ?thesis
  proof (cases remove)
    case True
    have "0 < int (length ?own) \<longleftrightarrow> mset ?own \<noteq> {#}"
      by (simp only: of_nat_0_less_iff length_greater_0_conv mset_zero_iff not_False_eq_True)
    moreover have "mset ?other \<noteq> mset es \<longleftrightarrow> mset ?own \<noteq> {#}"
      unfolding p by (simp del: mset_filter)
    ultimately show ?thesis using True by (simp add: applyByName_def apply_scan_eq del: mset_filter)
  next
    case False
    then have f: "fst (applyByName es name entry remove nameOf) = ?other @ [entry]"
      "snd (applyByName es name entry remove nameOf) \<longleftrightarrow> \<not> (entry \<in> set ?own \<and> length ?own = 1)"
      by (auto simp: applyByName_def apply_scan_eq)
    have "mset (?other @ [entry]) = {#entry#} + mset ?other" by (simp del: mset_filter)
    then have "mset (?other @ [entry]) \<noteq> mset es \<longleftrightarrow> mset ?own \<noteq> {#entry#}"
      unfolding p by (metis add_right_cancel)
    then show ?thesis unfolding f singleton_list_iff using False by simp
  qed
qed

text \<open>What the properties of the adapter use.\<close>

lemma applyByName_out:
  "fst (applyByName es name entry remove nameOf)
     = filter (\<lambda>e. nameOf e \<noteq> name) es @ (if remove then [] else [entry])"
  by (simp add: applyByName_def apply_scan_eq)

lemma applyByName_unchanged:
  "\<not> snd (applyByName es name entry remove nameOf) \<Longrightarrow>
     filter (\<lambda>e. nameOf e = name) es = (if remove then [] else [entry])"
  by (cases remove; cases "filter (\<lambda>e. nameOf e = name) es") (auto simp: applyByName_def apply_scan_eq)

section \<open>A Pi-hole that keeps its lists\<close>

text \<open>
  The documented API, as the adapter meets it: the two GETs return the two lists of the Pi-hole and
  change neither; a PATCH of one list stores that list and leaves the other alone.
\<close>

definition get_request :: "'w pihole \<Rightarrow> string \<Rightarrow> http_request" where
  "get_request u path = \<lparr>rqMethod = ''GET'', rqURL = phBaseURL u @ path, rqHeader = [], rqBody = None,
     rqGetBody = None, rqDeadline = None\<rparr>"

definition patch_request :: "'w pihole \<Rightarrow> string \<Rightarrow> http_request" where
  "patch_request u body = \<lparr>rqMethod = ''PATCH'', rqURL = phBaseURL u @ ''/api/config'',
     rqHeader = header_set ''Content-Type'' ''application/json'' [], rqBody = Some body,
     rqGetBody = Some (Inr body), rqDeadline = None\<rparr>"

definition pihole_serves :: "pihole_lib \<Rightarrow> 'w pihole \<Rightarrow> ('w \<Rightarrow> string list) \<Rightarrow> ('w \<Rightarrow> string list) \<Rightarrow> bool" where
  "pihole_serves lib u hosts cnames \<longleftrightarrow>
     (\<forall>url. plUrlErr lib url = None) \<and>
     (\<forall>w. \<exists>resp w1. phClient u (get_request u ''/api/config/dns/hosts'') w = (Inr resp, w1) \<and>
        respStatus resp = 200 \<and> plHosts lib (respBody resp) = Inr (hosts w) \<and> hosts w1 = hosts w \<and> cnames w1 = cnames w) \<and>
     (\<forall>w. \<exists>resp w1. phClient u (get_request u ''/api/config/dns/cnameRecords'') w = (Inr resp, w1) \<and>
        respStatus resp = 200 \<and> plCnames lib (respBody resp) = Inr (cnames w) \<and> hosts w1 = hosts w \<and> cnames w1 = cnames w) \<and>
     (\<forall>xs w. \<exists>resp w1. phClient u (patch_request u (plPatchHosts lib xs)) w = (Inr resp, w1) \<and>
        respStatus resp \<in> {200, 204} \<and> hosts w1 = xs \<and> cnames w1 = cnames w) \<and>
     (\<forall>xs w. \<exists>resp w1. phClient u (patch_request u (plPatchCnames lib xs)) w = (Inr resp, w1) \<and>
        respStatus resp \<in> {200, 204} \<and> hosts w1 = hosts w \<and> cnames w1 = xs)"

lemma getHosts_serves:
  assumes "pihole_serves lib u hosts cnames"
  shows "\<exists>w1. getHosts lib u w = (Inr (hosts w), w1) \<and> hosts w1 = hosts w \<and> cnames w1 = cnames w"
proof -
  obtain resp w1 where "phClient u (get_request u ''/api/config/dns/hosts'') w = (Inr resp, w1)"
    "respStatus resp = 200" "plHosts lib (respBody resp) = Inr (hosts w)" "hosts w1 = hosts w" "cnames w1 = cnames w"
    using assms unfolding pihole_serves_def by meson
  with assms show ?thesis
    by (auto simp: getHosts_def pihole_get_def new_request_def client_Do_def get_request_def StatusOK_def pihole_serves_def)
qed

lemma getCNAMERecords_serves:
  assumes "pihole_serves lib u hosts cnames"
  shows "\<exists>w1. getCNAMERecords lib u w = (Inr (cnames w), w1) \<and> hosts w1 = hosts w \<and> cnames w1 = cnames w"
proof -
  obtain resp w1 where "phClient u (get_request u ''/api/config/dns/cnameRecords'') w = (Inr resp, w1)"
    "respStatus resp = 200" "plCnames lib (respBody resp) = Inr (cnames w)" "hosts w1 = hosts w" "cnames w1 = cnames w"
    using assms unfolding pihole_serves_def by meson
  with assms show ?thesis
    by (auto simp: getCNAMERecords_def pihole_get_def new_request_def client_Do_def get_request_def StatusOK_def pihole_serves_def)
qed

lemma pihole_patch_serves:
  assumes "phClient u (patch_request u body) w = (Inr resp, w1)" "respStatus resp \<in> {200, 204}" "\<And>url. plUrlErr lib url = None"
  shows "pihole_patch lib u body w = (None, w1)"
  using assms
  by (auto simp: pihole_patch_def new_request_def client_Do_def patch_request_def StatusOK_def StatusNoContent_def)

text \<open>A change through such a Pi-hole: the entries of the name and those of the others.\<close>

lemma patchHosts_serves:
  assumes "pihole_serves lib u hosts cnames" "hostName (Value r @ '' '' @ Name r) = Name r"
  shows "\<exists>w1. patchHosts lib u r remove w = (None, w1) \<and> cnames w1 = cnames w \<and>
    filter (\<lambda>e. hostName e = Name r) (hosts w1) = (if remove then [] else [Value r @ '' '' @ Name r]) \<and>
    filter (\<lambda>e. hostName e \<noteq> Name r) (hosts w1) = filter (\<lambda>e. hostName e \<noteq> Name r) (hosts w)"
proof -
  obtain w1 where w1: "getHosts lib u w = (Inr (hosts w), w1)" "hosts w1 = hosts w" "cnames w1 = cnames w"
    using getHosts_serves [OF assms(1)] by blast
  obtain desired changed where d: "applyByName (hosts w) (Name r) (Value r @ '' '' @ Name r) remove hostName = (desired, changed)"
    by (cases "applyByName (hosts w) (Name r) (Value r @ '' '' @ Name r) remove hostName")
  show ?thesis
  proof (cases changed)
    case False
    with d have "filter (\<lambda>e. hostName e = Name r) (hosts w) = (if remove then [] else [Value r @ '' '' @ Name r])"
      using applyByName_unchanged [of "hosts w" "Name r" "Value r @ '' '' @ Name r" remove hostName] by simp
    with False d w1 show ?thesis by (simp add: patchHosts_def)
  next
    case True
    obtain resp w2 where p: "phClient u (patch_request u (plPatchHosts lib desired)) w1 = (Inr resp, w2)"
      "respStatus resp \<in> {200, 204}" "hosts w2 = desired" "cnames w2 = cnames w1"
      using assms(1) unfolding pihole_serves_def by meson
    have "pihole_patch lib u (plPatchHosts lib desired) w1 = (None, w2)"
      using pihole_patch_serves [OF p(1,2)] assms(1) by (simp add: pihole_serves_def)
    moreover have "desired = filter (\<lambda>e. hostName e \<noteq> Name r) (hosts w) @ (if remove then [] else [Value r @ '' '' @ Name r])"
      using applyByName_out [of "hosts w" "Name r" "Value r @ '' '' @ Name r" remove hostName] d by simp
    ultimately show ?thesis using True d w1 p assms(2) by (simp add: patchHosts_def)
  qed
qed

lemma patchCNAME_serves:
  assumes "pihole_serves lib u hosts cnames" "cnameAlias (cname_entry r) = Name r"
  shows "\<exists>w1. patchCNAME lib u r remove w = (None, w1) \<and> hosts w1 = hosts w \<and>
    filter (\<lambda>e. cnameAlias e = Name r) (cnames w1) = (if remove then [] else [cname_entry r]) \<and>
    filter (\<lambda>e. cnameAlias e \<noteq> Name r) (cnames w1) = filter (\<lambda>e. cnameAlias e \<noteq> Name r) (cnames w)"
proof -
  obtain w1 where w1: "getCNAMERecords lib u w = (Inr (cnames w), w1)" "hosts w1 = hosts w" "cnames w1 = cnames w"
    using getCNAMERecords_serves [OF assms(1)] by blast
  obtain desired changed where d: "applyByName (cnames w) (Name r) (cname_entry r) remove cnameAlias = (desired, changed)"
    by (cases "applyByName (cnames w) (Name r) (cname_entry r) remove cnameAlias")
  show ?thesis
  proof (cases changed)
    case False
    with d have "filter (\<lambda>e. cnameAlias e = Name r) (cnames w) = (if remove then [] else [cname_entry r])"
      using applyByName_unchanged [of "cnames w" "Name r" "cname_entry r" remove cnameAlias] by simp
    with False d w1 show ?thesis by (simp add: patchCNAME_def)
  next
    case True
    obtain resp w2 where p: "phClient u (patch_request u (plPatchCnames lib desired)) w1 = (Inr resp, w2)"
      "respStatus resp \<in> {200, 204}" "hosts w2 = hosts w1" "cnames w2 = desired"
      using assms(1) unfolding pihole_serves_def by meson
    have "pihole_patch lib u (plPatchCnames lib desired) w1 = (None, w2)"
      using pihole_patch_serves [OF p(1,2)] assms(1) by (simp add: pihole_serves_def)
    moreover have "desired = filter (\<lambda>e. cnameAlias e \<noteq> Name r) (cnames w) @ (if remove then [] else [cname_entry r])"
      using applyByName_out [of "cnames w" "Name r" "cname_entry r" remove cnameAlias] d by simp
    ultimately show ?thesis using True d w1 p assms(2) by (simp add: patchCNAME_def)
  qed
qed

section \<open>Entries read back\<close>

definition listed :: "string \<Rightarrow> string list \<Rightarrow> string list \<Rightarrow> Record list" where
  "listed up hosts cnames = host_records up hosts @ map (cname_record up) cnames"

lemma pihole_List_serves:
  assumes "pihole_serves lib u hosts cnames"
  shows "\<exists>w2. pihole_List lib u w = (Inr (listed (phName u) (hosts w) (cnames w)), w2)"
proof -
  obtain w1 where w1: "getHosts lib u w = (Inr (hosts w), w1)" "cnames w1 = cnames w"
    using getHosts_serves [OF assms] by blast
  obtain w2 where "getCNAMERecords lib u w1 = (Inr (cnames w1), w2)"
    using getCNAMERecords_serves [OF assms] by blast
  with w1 show ?thesis by (simp add: pihole_List_def listed_def)
qed

lemma host_records_filter:
  "host_records up es = concat (map (\<lambda>e. host_records up [e]) es)"
  by (induction es) (auto split: option.splits)

lemma split_host_name: "splitHostEntry e = Some (ip, n) \<Longrightarrow> hostName e = n"
  by (auto simp: splitHostEntry_def hostName_def Let_def split: option.splits if_splits)

lemma host_record_name: "got \<in> set (host_records up [e]) \<Longrightarrow> Name got = hostName e \<and> Type got \<noteq> RecordTypeCNAME"
  by (auto simp: split_host_name hostRecordType_def go_consts split: option.splits if_splits)

lemma cname_record_name: "Name (cname_record up e) = cnameAlias e" "Type (cname_record up e) = RecordTypeCNAME"
  by (auto simp: cname_record_def splitCNAMEEntry_def cnameAlias_def numeral_3_eq_3 split: option.splits)

lemma host_entry_parts:
  assumes "CHR '' '' \<notin> set v" "n \<noteq> ''''" "list_all (\<lambda>c. \<not> is_space c) n"
  shows "splitHostEntry (v @ '' '' @ n) = Some (v, n)" "hostName (v @ '' '' @ n) = n"
proof -
  have "\<not> contains_any n [CHR '' '', CHR 0x09]"
    using assms(3) by (auto simp: contains_any_def list_ex_iff list_all_iff is_space_def)
  then show "splitHostEntry (v @ '' '' @ n) = Some (v, n)" "hostName (v @ '' '' @ n) = n"
    using assms by (simp_all add: splitHostEntry_def hostName_def index_byte_append trim_space_id Let_def)
qed

lemma cname_entry_parts:
  assumes "CHR '','' \<notin> set (Name r)" "CHR '','' \<notin> set (Value r)" "0 \<le> TTL r" "TTL r \<le> max_int64"
  shows "splitCNAMEEntry (cname_entry r) = (Name r, Value r, TTL r)" "cnameAlias (cname_entry r) = Name r"
proof -
  have t: "atoi (itoa (TTL r)) = (TTL r, True)"
    using assms(3,4) by (intro atoi_itoa) (simp add: in_int64_def min_int64_def)
  have s: "split_n 3 (CHR '','') (Name r @ CHR '','' # x) = Name r # split_n 2 (CHR '','') x" for x
    using split_n_snoc [OF assms(1), of 1 x] by (simp add: numeral_3_eq_3 numeral_2_eq_2)
  have s2: "split_n 2 (CHR '','') (Value r @ CHR '','' # x) = [Value r, x]" for x
    using split_n_snoc [OF assms(2), of 0 x] by (simp add: numeral_2_eq_2)
  have s3: "split_n 2 (CHR '','') (Value r) = [Value r]"
    using split_n_last [OF assms(2), of 1] by (simp add: numeral_2_eq_2)
  show "splitCNAMEEntry (cname_entry r) = (Name r, Value r, TTL r)"
    using assms(3) t by (auto simp: splitCNAMEEntry_def cname_entry_def s s2 s3 Let_def)
  show "cnameAlias (cname_entry r) = Name r"
    using assms(1) by (simp add: cnameAlias_def cname_entry_def index_byte_append Let_def)
qed

text \<open>Records of which Pi-hole entries can hold every field it keeps.\<close>

definition pihole_record_ok :: "Record \<Rightarrow> bool" where
  "pihole_record_ok r \<longleftrightarrow>
     (Type r = RecordTypeA \<or> Type r = RecordTypeAAAA) \<and> hostRecordType (Value r) = Type r \<and>
       CHR '' '' \<notin> set (Value r) \<and> Name r \<noteq> '''' \<and> list_all (\<lambda>c. \<not> is_space c) (Name r) \<or>
     Type r = RecordTypeCNAME \<and> CHR '','' \<notin> set (Name r) \<and> CHR '','' \<notin> set (Value r) \<and>
       0 \<le> TTL r \<and> TTL r \<le> max_int64"

text \<open>The records of the list (hosts or CNAMEs) that \<open>r\<close> goes into and that bear its name.\<close>

definition same_slot :: "Record \<Rightarrow> Record \<Rightarrow> bool" where
  "same_slot r got \<longleftrightarrow> Name got = Name r \<and> (Type got = RecordTypeCNAME \<longleftrightarrow> Type r = RecordTypeCNAME)"

lemma host_records_mem: "got \<in> set (host_records up es) \<longleftrightarrow> (\<exists>e\<in>set es. got \<in> set (host_records up [e]))"
  by (subst host_records_filter) simp

text \<open>The records listed in another slot come from the entries of other names.\<close>

lemma listed_other_slot:
  assumes "\<not> same_slot r got"
  shows "Type r \<noteq> RecordTypeCNAME \<Longrightarrow> got \<in> set (listed up hs cs) \<longleftrightarrow>
      got \<in> set (listed up (filter (\<lambda>e. hostName e \<noteq> Name r) hs) cs)"
    "Type r = RecordTypeCNAME \<Longrightarrow> got \<in> set (listed up hs cs) \<longleftrightarrow>
      got \<in> set (listed up hs (filter (\<lambda>e. cnameAlias e \<noteq> Name r) cs))"
  using assms
  by (auto simp: listed_def same_slot_def host_records_mem [of _ _ hs] host_records_mem [of _ _ "filter _ hs"]
      host_record_name cname_record_name simp del: host_records.simps)

text \<open>The records listed in the slot come from the entries of the name.\<close>

lemma listed_same_slot:
  assumes "same_slot r got"
  shows "Type r \<noteq> RecordTypeCNAME \<Longrightarrow> got \<in> set (listed up hs cs) \<longleftrightarrow>
      got \<in> set (host_records up (filter (\<lambda>e. hostName e = Name r) hs))"
    "Type r = RecordTypeCNAME \<Longrightarrow> got \<in> set (listed up hs cs) \<longleftrightarrow>
      got \<in> set (map (cname_record up) (filter (\<lambda>e. cnameAlias e = Name r) cs))"
  using assms
  by (auto simp: listed_def same_slot_def host_records_mem [of _ _ hs] host_records_mem [of _ _ "filter _ hs"]
      host_record_name cname_record_name simp del: host_records.simps)

text \<open>Both operations, on the listing.\<close>

definition kept_record :: "pihole_lib \<Rightarrow> 'w pihole \<Rightarrow> Record \<Rightarrow> Record" where
  "kept_record lib u r = zero_record\<lparr>Upstream := phName u, Type := Type r, Name := Name r, Value := Value r,
     TTL := (if Type r = RecordTypeCNAME then TTL r else 0)\<rparr>"

lemma pihole_change_listed:
  assumes "pihole_serves lib u hosts cnames" "pihole_record_ok r"
  shows "\<exists>w1. pihole_change lib u remove r w = (None, w1) \<and>
    (\<forall>got. got \<in> set (listed (phName u) (hosts w1) (cnames w1)) \<longleftrightarrow>
       (if same_slot r got then \<not> remove \<and> got = kept_record lib u r
        else got \<in> set (listed (phName u) (hosts w) (cnames w))))"
proof (cases "Type r = RecordTypeCNAME")
  case True
  then have ok: "CHR '','' \<notin> set (Name r)" "CHR '','' \<notin> set (Value r)" "0 \<le> TTL r" "TTL r \<le> max_int64"
    using assms(2) by (auto simp: pihole_record_ok_def go_consts)
  note parts = cname_entry_parts [OF ok]
  obtain w1 where w1: "patchCNAME lib u r remove w = (None, w1)" "hosts w1 = hosts w"
    "filter (\<lambda>e. cnameAlias e = Name r) (cnames w1) = (if remove then [] else [cname_entry r])"
    "filter (\<lambda>e. cnameAlias e \<noteq> Name r) (cnames w1) = filter (\<lambda>e. cnameAlias e \<noteq> Name r) (cnames w)"
    using patchCNAME_serves [OF assms(1) parts(2)] by blast
  have "pihole_change lib u remove r w = (None, w1)"
    using True w1(1) by (simp add: pihole_change_def go_consts)
  moreover have "got \<in> set (listed (phName u) (hosts w1) (cnames w1)) \<longleftrightarrow> \<not> remove \<and> got = kept_record lib u r"
    if "same_slot r got" for got
    using listed_same_slot(2) [OF that True, of "phName u" "hosts w1" "cnames w1"] w1(3) True parts(1)
    by (auto simp: cname_record_def kept_record_def)
  moreover have "got \<in> set (listed (phName u) (hosts w1) (cnames w1)) \<longleftrightarrow> got \<in> set (listed (phName u) (hosts w) (cnames w))"
    if "\<not> same_slot r got" for got
    using listed_other_slot(2) [OF that True] w1(2,4) by metis
  ultimately show ?thesis by auto
next
  case False
  then have ok: "CHR '' '' \<notin> set (Value r)" "Name r \<noteq> ''''" "list_all (\<lambda>c. \<not> is_space c) (Name r)"
    "hostRecordType (Value r) = Type r" "Type r = RecordTypeA \<or> Type r = RecordTypeAAAA"
    using assms(2) by (auto simp: pihole_record_ok_def)
  note parts = host_entry_parts [OF ok(1-3)]
  obtain w1 where w1: "patchHosts lib u r remove w = (None, w1)" "cnames w1 = cnames w"
    "filter (\<lambda>e. hostName e = Name r) (hosts w1) = (if remove then [] else [Value r @ '' '' @ Name r])"
    "filter (\<lambda>e. hostName e \<noteq> Name r) (hosts w1) = filter (\<lambda>e. hostName e \<noteq> Name r) (hosts w)"
    using patchHosts_serves [OF assms(1) parts(2)] by blast
  have "pihole_change lib u remove r w = (None, w1)"
    using ok(5) w1(1) by (simp add: pihole_change_def)
  moreover have "got \<in> set (listed (phName u) (hosts w1) (cnames w1)) \<longleftrightarrow> \<not> remove \<and> got = kept_record lib u r"
    if "same_slot r got" for got
  proof -
    have "host_records (phName u) [Value r @ '' '' @ Name r] = [kept_record lib u r]"
      using parts(1) ok(4) False by (simp add: kept_record_def zero_record_def)
    then show ?thesis
      unfolding listed_same_slot(1) [OF that False] w1(3) by simp
  qed
  moreover have "got \<in> set (listed (phName u) (hosts w1) (cnames w1)) \<longleftrightarrow> got \<in> set (listed (phName u) (hosts w) (cnames w))"
    if "\<not> same_slot r got" for got
    using listed_other_slot(1) [OF that False] w1(2,4) by metis
  ultimately show ?thesis by auto
qed


section \<open>A sample Pi-hole\<close>

definition sample_pihole_lib :: pihole_lib where
  "sample_pihole_lib = \<lparr>plUrlErr = (\<lambda>s. None), plAuthRequest = (\<lambda>s. s),
     plAuthResponse = (\<lambda>s. Inr \<lparr>arValid = True, arSID = s, arValidity = 300, arMessage = ''''\<rparr>),
     plHosts = (\<lambda>s. Inr (dec_entries [] s)), plCnames = (\<lambda>s. Inr (dec_entries [] s)),
     plPatchHosts = (\<lambda>xs. CHR ''h'' # enc_entries xs), plPatchCnames = (\<lambda>xs. CHR ''c'' # enc_entries xs),
     plErrBody = (\<lambda>s. s)\<rparr>"

definition text_answer :: "string \<Rightarrow> http_response" where
  "text_answer s = \<lparr>respStatus = 200, respHeader = [], respBody = s\<rparr>"

text \<open>The server: its state is the pair of lists.\<close>

definition sample_pihole_net :: "(string list \<times> string list) transport" where
  "sample_pihole_net req w =
     (if rqMethod req = ''GET'' then
        (Inr (text_answer (enc_entries (if has_suffix (rqURL req) ''hosts'' then fst w else snd w))), w)
      else case rqBody req of
        Some (c # body) \<Rightarrow>
          (Inr (text_answer ''''), if c = CHR ''h'' then (dec_entries [] body, snd w) else (fst w, dec_entries [] body))
      | _ \<Rightarrow> (Inr (text_answer ''''), w))"

definition sample_pihole :: "(string list \<times> string list) pihole" where
  "sample_pihole = \<lparr>phName = ''pi'', phBaseURL = ''http://pi'', phPassword = ''pw'',
     phClient = sample_pihole_net, phAuthClient = sample_pihole_net\<rparr>"

lemma sample_pihole_serves: "pihole_serves sample_pihole_lib sample_pihole fst snd"
  by (simp add: pihole_serves_def sample_pihole_lib_def sample_pihole_def sample_pihole_net_def get_request_def
      patch_request_def text_answer_def has_suffix_def)

definition sample_host :: Record where
  "sample_host = zero_record\<lparr>Type := RecordTypeA, Name := ''nas.lan'', Value := ''10.0.0.9''\<rparr>"


section \<open>Limits of replacing whole lists\<close>

lemma pihole_patchHosts_stores:
  assumes "pihole_serves lib u hosts cnames"
  shows "\<exists>w1. pihole_patch lib u (plPatchHosts lib xs) w = (None, w1) \<and> hosts w1 = xs \<and> cnames w1 = cnames w"
proof -
  obtain resp w1 where p: "phClient u (patch_request u (plPatchHosts lib xs)) w = (Inr resp, w1)"
    "respStatus resp \<in> {200, 204}" "hosts w1 = xs" "cnames w1 = cnames w"
    using assms unfolding pihole_serves_def by meson
  with assms pihole_patch_serves [OF p(1,2)] show ?thesis by (simp add: pihole_serves_def)
qed

text \<open>
  Two workers of one pass: both read the list before either writes it. Both calls succeed, and the
  entry of the worker that writes first is gone.
\<close>

lemma pihole_lost_update:
  assumes "pihole_serves lib u hosts cnames" "n1 \<noteq> n2" "e1 \<noteq> e2" "hostName e2 = n2" "e2 \<notin> set (hosts w)"
  shows "\<exists>w1 w2 w3 w4. getHosts lib u w = (Inr (hosts w), w1) \<and> getHosts lib u w1 = (Inr (hosts w), w2) \<and>
    pihole_patch lib u (plPatchHosts lib (fst (applyByName (hosts w) n2 e2 False hostName))) w2 = (None, w3) \<and>
    e2 \<in> set (hosts w3) \<and>
    pihole_patch lib u (plPatchHosts lib (fst (applyByName (hosts w) n1 e1 False hostName))) w3 = (None, w4) \<and>
    e2 \<notin> set (hosts w4)"
proof -
  obtain w1 where w1: "getHosts lib u w = (Inr (hosts w), w1)" "hosts w1 = hosts w"
    using getHosts_serves [OF assms(1)] by blast
  obtain w2 where w2: "getHosts lib u w1 = (Inr (hosts w), w2)" using getHosts_serves [OF assms(1), of w1] w1(2) by auto
  obtain w3 where w3: "pihole_patch lib u (plPatchHosts lib (fst (applyByName (hosts w) n2 e2 False hostName))) w2 = (None, w3)"
    "hosts w3 = fst (applyByName (hosts w) n2 e2 False hostName)"
    using pihole_patchHosts_stores [OF assms(1)] by blast
  obtain w4 where w4: "pihole_patch lib u (plPatchHosts lib (fst (applyByName (hosts w) n1 e1 False hostName))) w3 = (None, w4)"
    "hosts w4 = fst (applyByName (hosts w) n1 e1 False hostName)"
    using pihole_patchHosts_stores [OF assms(1)] by blast
  have "e2 \<in> set (hosts w3)" "e2 \<notin> set (hosts w4)"
    using w3(2) w4(2) assms(2,3,5) by (auto simp: applyByName_out)
  with w1 w2 w3 w4 show ?thesis by blast
qed

text \<open>The two address families of a host share one name, so an AAAA record evicts the A record.\<close>

lemma pihole_evicts_other_family:
  assumes "pihole_serves lib u hosts cnames" "pihole_record_ok r" "Type r = RecordTypeAAAA"
    "pihole_Upsert lib u r w = (None, w1)" "got \<in> set (listed (phName u) (hosts w1) (cnames w1))" "Name got = Name r"
  shows "Type got \<noteq> RecordTypeA"
proof
  assume a: "Type got = RecordTypeA"
  then have "same_slot r got" using assms(3,6) by (simp add: same_slot_def go_consts)
  then have "got = kept_record lib u r"
    using pihole_change_listed [OF assms(1,2), of False w] assms(4,5) by (auto simp: pihole_Upsert_def)
  with a assms(3) show False by (simp add: kept_record_def go_consts)
qed

end
