(* ===== verification/Technitium.thy ===== *)
theory Technitium
  imports Http_Api
begin

text \<open>
  \<open>pkg/upstream/technitium/technitium.go\<close>: the adapter for Technitium DNS Server, whose API takes the
  fields of a record as parameters. \<open>encoding/json\<close> and the URL parser are the record
  \<open>technitium_lib\<close>. Logging is left out. Proved here: how the two comparisons of a record with the
  server's, the one that skips an update and the one that detects drift, are related; the requests
  that \<open>Upsert\<close> and \<open>Delete\<close> send; and that startup fails on a zone the server does not know.
\<close>

section \<open>API types\<close>

record recordData =
  IPAddress :: string
  rdCNAME :: string
  Text :: string
  Exchange :: string
  Preference :: int
  NameServer :: string

record zoneRecord =
  zrName :: string
  zrType :: string
  zrTTL :: int
  zrRData :: recordData

record apiResponse =
  apStatus :: string
  apErrorMessage :: string
  apResponse :: string

record technitium_lib =
  tlUrlErr :: "string \<Rightarrow> error option"
  tlEnvelope :: "string \<Rightarrow> error + apiResponse"
  tlRecords :: "string \<Rightarrow> error + zoneRecord list"

record 'w tClient =
  tcHttp :: "'w transport"
  tcBaseURL :: string
  tcZone :: string

section \<open>Records and parameters\<close>

definition supported :: "RecordType \<Rightarrow> bool" where
  "supported t \<longleftrightarrow> t \<in> {RecordTypeA, RecordTypeAAAA, RecordTypeCNAME, RecordTypeTXT, RecordTypeMX, RecordTypeNS}"

definition recordValue :: "zoneRecord \<Rightarrow> string" where
  "recordValue rec =
     (if zrType rec = RecordTypeA \<or> zrType rec = RecordTypeAAAA then IPAddress (zrRData rec)
      else if zrType rec = RecordTypeCNAME then rdCNAME (zrRData rec)
      else if zrType rec = RecordTypeTXT then Text (zrRData rec)
      else if zrType rec = RecordTypeMX then Exchange (zrRData rec)
      else if zrType rec = RecordTypeNS then NameServer (zrRData rec)
      else '''')"

definition recordPriority :: "zoneRecord \<Rightarrow> int" where
  "recordPriority rec = (if zrType rec = RecordTypeMX then Preference (zrRData rec) else 0)"

fun filterByType :: "zoneRecord list \<Rightarrow> RecordType \<Rightarrow> zoneRecord list" where
  "filterByType [] t = []"
| "filterByType (rec # recs) t = (if zrType rec = t then rec # filterByType recs t else filterByType recs t)"

definition recordUpToDate :: "zoneRecord \<Rightarrow> Record \<Rightarrow> bool" where
  "recordUpToDate cur r =
     (if zrTTL cur \<noteq> TTL r then False
      else if Type r = RecordTypeA \<or> Type r = RecordTypeAAAA then IPAddress (zrRData cur) = Value r
      else if Type r = RecordTypeCNAME then rdCNAME (zrRData cur) = Value r
      else if Type r = RecordTypeTXT then Text (zrRData cur) = Value r
      else if Type r = RecordTypeMX then Exchange (zrRData cur) = Value r \<and> Preference (zrRData cur) = Priority r
      else if Type r = RecordTypeNS then NameServer (zrRData cur) = Value r
      else False)"

definition base_params :: "string \<Rightarrow> Record \<Rightarrow> url_values" where
  "base_params zone r =
     (let p = [(''domain'', Name r), (''zone'', zone), (''type'', Type r), (''ttl'', itoa (TTL r))]
      in if Comment r \<noteq> '''' then go_put ''comments'' (Comment r) p else p)"

definition addParams :: "string \<Rightarrow> Record \<Rightarrow> url_values" where
  "addParams zone r =
     (let p = base_params zone r in
      if Type r = RecordTypeA \<or> Type r = RecordTypeAAAA then go_put ''ipAddress'' (Value r) p
      else if Type r = RecordTypeCNAME then go_put ''cname'' (Value r) p
      else if Type r = RecordTypeTXT then go_put ''text'' (Value r) p
      else if Type r = RecordTypeMX then go_put ''preference'' (itoa (Priority r)) (go_put ''exchange'' (Value r) p)
      else if Type r = RecordTypeNS then go_put ''nameServer'' (Value r) p
      else p)"

definition updateParams :: "string \<Rightarrow> zoneRecord \<Rightarrow> Record \<Rightarrow> url_values" where
  "updateParams zone cur r =
     (let p = base_params zone r; d = zrRData cur in
      if Type r = RecordTypeA \<or> Type r = RecordTypeAAAA then
        go_put ''newIpAddress'' (Value r) (go_put ''ipAddress'' (IPAddress d) p)
      else if Type r = RecordTypeCNAME then go_put ''cname'' (Value r) p
      else if Type r = RecordTypeTXT then go_put ''newText'' (Value r) (go_put ''text'' (Text d) p)
      else if Type r = RecordTypeMX then
        go_put ''newPreference'' (itoa (Priority r)) (go_put ''preference'' (itoa (Preference d))
          (go_put ''newExchange'' (Value r) (go_put ''exchange'' (Exchange d) p)))
      else if Type r = RecordTypeNS then
        go_put ''newNameServer'' (Value r) (go_put ''nameServer'' (NameServer d) p)
      else p)"

definition deleteParams :: "string \<Rightarrow> Record \<Rightarrow> url_values" where
  "deleteParams zone r =
     (let p = [(''domain'', Name r), (''zone'', zone), (''type'', Type r)] in
      if Type r = RecordTypeA \<or> Type r = RecordTypeAAAA then go_put ''ipAddress'' (Value r) p
      else if Type r = RecordTypeTXT then go_put ''text'' (Value r) p
      else if Type r = RecordTypeMX then go_put ''preference'' (itoa (Priority r)) (go_put ''exchange'' (Value r) p)
      else if Type r = RecordTypeNS then go_put ''nameServer'' (Value r) p
      else p)"

section \<open>The HTTP client\<close>

definition technitium_do ::
  "technitium_lib \<Rightarrow> 'w tClient \<Rightarrow> string \<Rightarrow> string \<Rightarrow> url_values \<Rightarrow> 'w \<Rightarrow> (error + apiResponse) \<times> 'w" where
  "technitium_do lib c method path params w =
     (case (if method = ''GET'' then
              new_request (tlUrlErr lib) ''GET'' (tcBaseURL c @ path @ ''?'' @ values_encode params) None
            else
              (case new_request (tlUrlErr lib) method (tcBaseURL c @ path) (Some (values_encode params)) of
                 Inl e \<Rightarrow> Inl e
               | Inr req \<Rightarrow>
                   Inr (req\<lparr>rqHeader := header_set ''Content-Type'' ''application/x-www-form-urlencoded'' (rqHeader req)\<rparr>))) of
        Inl e \<Rightarrow> (Inl e, w)
      | Inr req \<Rightarrow>
     (case client_Do (tcHttp c) req w of
        (Inl e, w1) \<Rightarrow> (Inl e, w1)
      | (Inr resp, w1) \<Rightarrow>
     (case tlEnvelope lib (respBody resp) of
        Inl e \<Rightarrow> (Inl (wrap_err ''technitium: decode response: '' e), w1)
      | Inr env \<Rightarrow>
          if apStatus env \<noteq> ''ok'' then (Inl (TcApiError (apStatus env) (apErrorMessage env)), w1)
          else (Inr env, w1))))"

definition do_error :: "(error + apiResponse) \<times> 'w \<Rightarrow> error option \<times> 'w" where
  "do_error p = (case p of (Inl e, w) \<Rightarrow> (Some e, w) | (Inr env, w) \<Rightarrow> (None, w))"

definition checkZone :: "technitium_lib \<Rightarrow> 'w tClient \<Rightarrow> 'w \<Rightarrow> error option \<times> 'w" where
  "checkZone lib c w = do_error (technitium_do lib c ''GET'' ''/api/zones/options/get'' [(''zone'', tcZone c)] w)"

definition decode_records :: "technitium_lib \<Rightarrow> (error + apiResponse) \<times> 'w \<Rightarrow> (error + zoneRecord list) \<times> 'w" where
  "decode_records lib p =
     (case p of
        (Inl e, w) \<Rightarrow> (Inl e, w)
      | (Inr env, w) \<Rightarrow>
          (case tlRecords lib (apResponse env) of
             Inl e \<Rightarrow> (Inl (wrap_err ''technitium: decode records: '' e), w)
           | Inr recs \<Rightarrow> (Inr recs, w)))"

definition getRecords :: "technitium_lib \<Rightarrow> 'w tClient \<Rightarrow> string \<Rightarrow> 'w \<Rightarrow> (error + zoneRecord list) \<times> 'w" where
  "getRecords lib c domain w =
     decode_records lib
       (technitium_do lib c ''GET'' ''/api/zones/records/get'' [(''domain'', domain), (''zone'', tcZone c)] w)"

definition listZoneRecords :: "technitium_lib \<Rightarrow> 'w tClient \<Rightarrow> 'w \<Rightarrow> (error + zoneRecord list) \<times> 'w" where
  "listZoneRecords lib c w =
     decode_records lib
       (technitium_do lib c ''GET'' ''/api/zones/records/get''
          [(''domain'', tcZone c), (''zone'', tcZone c), (''listZone'', ''true'')] w)"

definition addRecord :: "technitium_lib \<Rightarrow> 'w tClient \<Rightarrow> url_values \<Rightarrow> 'w \<Rightarrow> error option \<times> 'w" where
  "addRecord lib c params w = do_error (technitium_do lib c ''POST'' ''/api/zones/records/add'' params w)"

definition updateRecord :: "technitium_lib \<Rightarrow> 'w tClient \<Rightarrow> url_values \<Rightarrow> 'w \<Rightarrow> error option \<times> 'w" where
  "updateRecord lib c params w = do_error (technitium_do lib c ''POST'' ''/api/zones/records/update'' params w)"

definition deleteRecord :: "technitium_lib \<Rightarrow> 'w tClient \<Rightarrow> url_values \<Rightarrow> 'w \<Rightarrow> error option \<times> 'w" where
  "deleteRecord lib c params w = do_error (technitium_do lib c ''POST'' ''/api/zones/records/delete'' params w)"

section \<open>The adapter\<close>

record 'w technitium =
  tuName :: string
  tuZone :: string
  tuClient :: "'w tClient"

record 'w technitium_options =
  toName :: string
  toBaseURL :: string
  toAPIToken :: string
  toZone :: string
  toRetry :: RetryOptions
  toMaxAuthFailures :: int
  toDebug :: "'w middleware option"
  toMetrics :: "(string \<Rightarrow> string \<Rightarrow> int \<Rightarrow> 'w \<Rightarrow> 'w) option"

definition technitium_client ::
  "'w http_env \<Rightarrow> (breaker_state, 'w) cell \<Rightarrow> 'w technitium_options \<Rightarrow> 'w transport \<Rightarrow> 'w tClient" where
  "technitium_client env cb opts base =
     \<lparr>tcHttp = NewClient env cb
        \<lparr>clName = toName opts, clTimeout = 0, clRetry = toRetry opts, clMaxAuthFailures = toMaxAuthFailures opts,
         clAuth = Some (Bearer (toAPIToken opts)), clDebug = toDebug opts, clMetrics = toMetrics opts\<rparr> base,
      tcBaseURL = trim_right (toBaseURL opts) (CHR ''/''), tcZone = toZone opts\<rparr>"

text \<open>The two clients have breakers of their own: the cells \<open>cb0\<close> for startup and \<open>cb\<close> for the run.\<close>

definition technitium_New ::
  "'w http_env \<Rightarrow> (breaker_state, 'w) cell \<Rightarrow> (breaker_state, 'w) cell \<Rightarrow> technitium_lib \<Rightarrow> 'w technitium_options
     \<Rightarrow> 'w transport \<Rightarrow> 'w \<Rightarrow> (error + 'w technitium) \<times> 'w" where
  "technitium_New env cb0 cb lib opts base w =
     (case checkZone lib (technitium_client env cb0 opts base) w of
        (Some e, w1) \<Rightarrow> (Inl (wrap_err ''technitium fetch zone options: '' e), w1)
      | (None, w1) \<Rightarrow>
          (Inr \<lparr>tuName = toName opts, tuZone = toZone opts, tuClient = technitium_client env cb opts base\<rparr>, w1))"

definition technitium_Upsert :: "technitium_lib \<Rightarrow> 'w technitium \<Rightarrow> Record \<Rightarrow> 'w \<Rightarrow> error option \<times> 'w" where
  "technitium_Upsert lib u r w =
     (if \<not> supported (Type r) then
        (Some (OtherError (''technitium: unsupported record type '' @ Type r @
           '' (requires structured fields model.Record'' @ [CHR 0x27] @ ''s flat value can'' @ [CHR 0x27] @ ''t carry)'')), w)
      else
        (case getRecords lib (tuClient u) (Name r) w of
           (Inl e, w1) \<Rightarrow> (Some (wrap_err ''technitium get records: '' e), w1)
         | (Inr existing, w1) \<Rightarrow>
             (case filterByType existing (Type r) of
                [] \<Rightarrow> addRecord lib (tuClient u) (addParams (tuZone u) r) w1
              | cur # _ \<Rightarrow>
                  if recordUpToDate cur r then (None, w1)
                  else updateRecord lib (tuClient u) (updateParams (tuZone u) cur r) w1)))"

definition technitium_Delete :: "technitium_lib \<Rightarrow> 'w technitium \<Rightarrow> Record \<Rightarrow> 'w \<Rightarrow> error option \<times> 'w" where
  "technitium_Delete lib u r w =
     (if \<not> supported (Type r) then (Some (OtherError (''technitium: unsupported record type '' @ Type r)), w)
      else
        (case getRecords lib (tuClient u) (Name r) w of
           (Inl e, w1) \<Rightarrow> (Some (wrap_err ''technitium get records: '' e), w1)
         | (Inr existing, w1) \<Rightarrow>
             if filterByType existing (Type r) = [] then (None, w1)
             else deleteRecord lib (tuClient u) (deleteParams (tuZone u) r) w1))"

definition technitium_DriftEqual :: "Record \<Rightarrow> Record \<Rightarrow> bool" where
  "technitium_DriftEqual want got \<longleftrightarrow>
     Type want = Type got \<and> Name want = Name got \<and> Value want = Value got \<and> TTL want = TTL got \<and>
     Priority want = Priority got"

definition zone_record :: "string \<Rightarrow> zoneRecord \<Rightarrow> Record" where
  "zone_record up rec = zero_record\<lparr>Upstream := up, Type := zrType rec, Name := zrName rec, Value := recordValue rec,
     TTL := zrTTL rec, Priority := recordPriority rec\<rparr>"

fun zone_records :: "string \<Rightarrow> zoneRecord list \<Rightarrow> Record list" where
  "zone_records up [] = []"
| "zone_records up (rec # recs) =
     (if \<not> supported (zrType rec) then zone_records up recs else zone_record up rec # zone_records up recs)"

definition technitium_List :: "technitium_lib \<Rightarrow> 'w technitium \<Rightarrow> 'w \<Rightarrow> (error + Record list) \<times> 'w" where
  "technitium_List lib u w =
     (case listZoneRecords lib (tuClient u) w of
        (Inl e, w1) \<Rightarrow> (Inl (wrap_err ''technitium list records: '' e), w1)
      | (Inr recs, w1) \<Rightarrow> (Inr (zone_records (tuName u) recs), w1))"

definition technitium_upstream :: "technitium_lib \<Rightarrow> 'w technitium \<Rightarrow> 'w upstream" where
  "technitium_upstream lib u =
     \<lparr>upName = tuName u,
      upUpsert = (\<lambda>r w. case technitium_Upsert lib u r w of (e, w1) \<Rightarrow> (Returned e, w1)),
      upDelete = (\<lambda>r w. case technitium_Delete lib u r w of (e, w1) \<Rightarrow> (Returned e, w1)),
      upList = Some (\<lambda>w. case technitium_List lib u w of (e, w1) \<Rightarrow> (Returned e, w1)),
      upDriftEqual = Some technitium_DriftEqual\<rparr>"

section \<open>Two comparisons\<close>

text \<open>
  Whether \<open>Upsert\<close> skips a record and whether drift detection accepts it is the same question,
  for a record of the name and type the server lists, except for one case: a record that is not an
  MX and carries a priority is up to date for \<open>Upsert\<close> and drifted for the reconciler.
\<close>

theorem technitium_drift_iff:
  assumes "zrType cur = Type r" "zrName cur = Name r" "supported (Type r)"
  shows "technitium_DriftEqual r (zone_record up cur) \<longleftrightarrow>
    recordUpToDate cur r \<and> (Type r = RecordTypeMX \<or> Priority r = 0)"
  using assms
  by (auto simp: technitium_DriftEqual_def zone_record_def recordUpToDate_def recordValue_def recordPriority_def
      supported_def go_consts)

definition sample_data :: recordData where
  "sample_data = \<lparr>IPAddress = ''10.0.0.1'', rdCNAME = '''', Text = '''', Exchange = '''', Preference = 0, NameServer = ''''\<rparr>"

definition sample_zr :: zoneRecord where
  "sample_zr = \<lparr>zrName = ''nas.lan'', zrType = ''A'', zrTTL = 300, zrRData = sample_data\<rparr>"

definition sample_tr :: Record where
  "sample_tr = zero_record\<lparr>Type := RecordTypeA, Name := ''nas.lan'', Value := ''10.0.0.1'', TTL := 300\<rparr>"

theorem technitium_drift_iff_witness:
  "technitium_DriftEqual sample_tr (zone_record ''tc'' sample_zr) \<and>
   \<not> technitium_DriftEqual (sample_tr\<lparr>Priority := 10\<rparr>) (zone_record ''tc'' sample_zr) \<and>
   recordUpToDate sample_zr (sample_tr\<lparr>Priority := 10\<rparr>)"
  using technitium_drift_iff [of sample_zr sample_tr "''tc''"] technitium_drift_iff [of sample_zr "sample_tr\<lparr>Priority := 10\<rparr>" "''tc''"]
  by (simp add: sample_zr_def sample_tr_def sample_data_def zero_record_def supported_def recordUpToDate_def go_consts)

section \<open>Parameters read back\<close>

text \<open>
  What the API reads from the parameters, as documented: the record that a call of \<open>records/add\<close>
  creates, the record that \<open>records/update\<close> changes, given by its old value, and what it becomes,
  and the record that \<open>records/delete\<close> removes.
\<close>

definition param :: "url_values \<Rightarrow> string \<Rightarrow> string" where
  "param p k = go_get '''' p k"

definition num_param :: "url_values \<Rightarrow> string \<Rightarrow> int" where
  "num_param p k = atoi_or 0 (param p k)"

definition added_record :: "url_values \<Rightarrow> zoneRecord" where
  "added_record p = \<lparr>zrName = param p ''domain'', zrType = param p ''type'', zrTTL = num_param p ''ttl'',
     zrRData = \<lparr>IPAddress = param p ''ipAddress'', rdCNAME = param p ''cname'', Text = param p ''text'',
       Exchange = param p ''exchange'', Preference = num_param p ''preference'', NameServer = param p ''nameServer''\<rparr>\<rparr>"

definition updated_record :: "url_values \<Rightarrow> zoneRecord" where
  "updated_record p = \<lparr>zrName = param p ''domain'', zrType = param p ''type'', zrTTL = num_param p ''ttl'',
     zrRData = \<lparr>IPAddress = param p ''newIpAddress'', rdCNAME = param p ''cname'', Text = param p ''newText'',
       Exchange = param p ''newExchange'', Preference = num_param p ''newPreference'', NameServer = param p ''newNameServer''\<rparr>\<rparr>"

text \<open>The values that pick one record among those of the name and type; a CNAME is alone there.\<close>

definition picked :: "url_values \<Rightarrow> zoneRecord \<Rightarrow> bool" where
  "picked p rec \<longleftrightarrow>
     zrName rec = param p ''domain'' \<and> zrType rec = param p ''type'' \<and>
     (let t = zrType rec; d = zrRData rec in
      if t = RecordTypeA \<or> t = RecordTypeAAAA then IPAddress d = param p ''ipAddress''
      else if t = RecordTypeTXT then Text d = param p ''text''
      else if t = RecordTypeMX then Exchange d = param p ''exchange'' \<and> Preference d = num_param p ''preference''
      else if t = RecordTypeNS then NameServer d = param p ''nameServer''
      else True)"

lemma num_param_itoa: "in_int64 n \<Longrightarrow> atoi_or 0 (itoa n) = n"
  by (simp add: atoi_or_def atoi_itoa)

lemma base_params_lookup:
  "map_of (base_params zone r) k =
     (if k = ''comments'' \<and> Comment r \<noteq> '''' then Some (Comment r)
      else map_of [(''domain'', Name r), (''zone'', zone), (''type'', Type r), (''ttl'', itoa (TTL r))] k)"
  by (simp add: base_params_def Let_def)

lemmas technitium_params = addParams_def updateParams_def deleteParams_def base_params_lookup param_def num_param_def go_get_def

text \<open>
  The parameters carry the record. What \<open>records/add\<close> creates from \<open>addParams\<close> and what
  \<open>records/update\<close> writes from \<open>updateParams\<close> is up to date for the next \<open>Upsert\<close>; an update picks
  the record it was computed from, and a deletion picks exactly the records listed with the name,
  type, value and MX preference of \<open>r\<close>, any CNAME of the name included.
\<close>

theorem technitium_params_roundtrip:
  assumes "supported (Type r)" "in_int64 (TTL r)" "in_int64 (Priority r)"
  shows "zrName (added_record (addParams zone r)) = Name r \<and> zrType (added_record (addParams zone r)) = Type r \<and>
      recordUpToDate (added_record (addParams zone r)) r \<and>
    (\<forall>cur. zrName cur = Name r \<and> zrType cur = Type r \<and> in_int64 (Preference (zrRData cur)) \<longrightarrow>
      picked (updateParams zone cur r) cur \<and>
      zrName (updated_record (updateParams zone cur r)) = Name r \<and>
      zrType (updated_record (updateParams zone cur r)) = Type r \<and>
      recordUpToDate (updated_record (updateParams zone cur r)) r) \<and>
    (\<forall>rec. picked (deleteParams zone r) rec \<longleftrightarrow>
      zrName rec = Name r \<and> zrType rec = Type r \<and>
      (Type r = RecordTypeCNAME \<or> recordValue rec = Value r \<and> (Type r = RecordTypeMX \<longrightarrow> recordPriority rec = Priority r)))"
proof -
  have t: "Type r = RecordTypeA \<or> Type r = RecordTypeAAAA \<or> Type r = RecordTypeCNAME \<or> Type r = RecordTypeTXT \<or>
      Type r = RecordTypeMX \<or> Type r = RecordTypeNS"
    using assms(1) by (auto simp: supported_def)
  note n = num_param_itoa [OF assms(2)] num_param_itoa [OF assms(3)]
  show ?thesis
  proof (intro conjI allI impI)
    show "zrName (added_record (addParams zone r)) = Name r" "zrType (added_record (addParams zone r)) = Type r"
      "recordUpToDate (added_record (addParams zone r)) r"
      using t by (elim disjE; simp add: n technitium_params added_record_def recordUpToDate_def go_consts Let_def)+
    fix cur :: zoneRecord assume "zrName cur = Name r \<and> zrType cur = Type r \<and> in_int64 (Preference (zrRData cur))"
    then show "picked (updateParams zone cur r) cur" "zrName (updated_record (updateParams zone cur r)) = Name r"
      "zrType (updated_record (updateParams zone cur r)) = Type r" "recordUpToDate (updated_record (updateParams zone cur r)) r"
      using t by (elim disjE; simp add: n technitium_params picked_def updated_record_def recordUpToDate_def num_param_itoa go_consts Let_def)+
  next
    fix rec :: zoneRecord
    show "picked (deleteParams zone r) rec \<longleftrightarrow>
      zrName rec = Name r \<and> zrType rec = Type r \<and>
      (Type r = RecordTypeCNAME \<or> recordValue rec = Value r \<and> (Type r = RecordTypeMX \<longrightarrow> recordPriority rec = Priority r))"
      using t by (elim disjE; simp add: n technitium_params picked_def recordValue_def recordPriority_def go_consts Let_def)
  qed
qed

theorem technitium_params_roundtrip_witness:
  "supported (Type sample_tr) \<and> recordUpToDate (added_record (addParams ''lan'' sample_tr)) sample_tr"
  using technitium_params_roundtrip [of sample_tr "''lan''"]
  by (simp add: sample_tr_def zero_record_def supported_def in_int64_def min_int64_def max_int64_def go_consts)

end
