(* ===== verification/Cloudflare.thy ===== *)
theory Cloudflare
  imports Http_Api
begin

text \<open>
  \<open>pkg/upstream/cloudflare/cloudflare.go\<close>: the adapter for the Cloudflare API. \<open>encoding/json\<close> and the
  URL parser are the record \<open>cf_lib\<close>; a round tripper carries the requests. Logging is left out. The
  loop over the pages of a listing has no bound of its own: it is a partial function, whose value
  is \<open>None\<close> when it never stops. Proved here: against a server that pages a list of records the
  loop stops and returns the list; names survive the way to the zone and back; a deletion deletes
  exactly the listed records of name, type and value; \<open>Upsert\<close> brings the record up to date and
  leaves the others alone.
\<close>

section \<open>API types\<close>

definition apiBase :: string where "apiBase = ''https://api.cloudflare.com/client/v4''"
definition errAlreadyExists :: int where "errAlreadyExists = 81058"

record cf_response =
  cfSuccess :: bool
  cfErrors :: "(int \<times> string) list"
  cfResult :: string
  cfTotalPages :: int

record cf_zone =
  czID :: string
  czName :: string

record dnsRecord =
  drID :: string
  drType :: string
  drName :: string
  drContent :: string
  drTTL :: int
  drComment :: string
  drPriority :: "int option"

record dnsRecordRequest =
  qrType :: string
  qrName :: string
  qrContent :: string
  qrTTL :: int
  qrComment :: string
  qrPriority :: "int option"

record cf_lib =
  cflUrlErr :: "string \<Rightarrow> error option"
  cflEnvelope :: "string \<Rightarrow> error + cf_response"
  cflZone :: "string \<Rightarrow> error + cf_zone"
  cflRecords :: "string \<Rightarrow> error + dnsRecord list"
  cflRecord :: "string \<Rightarrow> error + dnsRecord"
  cflBody :: "dnsRecordRequest \<Rightarrow> string"

record 'w cfClient =
  ccHttp :: "'w transport"
  ccZoneID :: string
  ccBaseURL :: string

text \<open>A missing priority equals only a missing priority.\<close>

definition priorityEqual :: "int option \<Rightarrow> int option \<Rightarrow> bool" where
  "priorityEqual a b = (if a = None \<or> b = None then a = None \<and> b = None else the a = the b)"

definition cf_recordUpToDate :: "dnsRecord \<Rightarrow> dnsRecordRequest \<Rightarrow> bool" where
  "cf_recordUpToDate existing req =
     (if drContent existing \<noteq> qrContent req \<or> drTTL existing \<noteq> qrTTL req \<or> drComment existing \<noteq> qrComment req
      then False else priorityEqual (drPriority existing) (qrPriority req))"

fun HasCode :: "(int \<times> string) list \<Rightarrow> int \<Rightarrow> bool" where
  "HasCode [] code = False"
| "HasCode (ae # aes) code = (if fst ae = code then True else HasCode aes code)"

text \<open>\<open>errors.As(err, &apiErr)\<close>: the first API error along the chain of wrapped errors.\<close>

fun as_api_error :: "error \<Rightarrow> (int \<times> string) list option" where
  "as_api_error (CfApiError es) = Some es"
| "as_api_error (Wrapped pre e post) = as_api_error e"
| "as_api_error _ = None"

section \<open>The HTTP client\<close>

definition doRaw ::
  "cf_lib \<Rightarrow> 'w cfClient \<Rightarrow> string \<Rightarrow> string \<Rightarrow> string option \<Rightarrow> 'w \<Rightarrow> (error + cf_response) \<times> 'w" where
  "doRaw lib c method path body w =
     (case new_request (cflUrlErr lib) method (ccBaseURL c @ path) body of
        Inl e \<Rightarrow> (Inl e, w)
      | Inr req0 \<Rightarrow>
     (let req = (if body \<noteq> None then req0\<lparr>rqHeader := header_set ''Content-Type'' ''application/json'' (rqHeader req0)\<rparr>
                 else req0) in
      case client_Do (ccHttp c) req w of
        (Inl e, w1) \<Rightarrow> (Inl e, w1)
      | (Inr resp, w1) \<Rightarrow>
     (case cflEnvelope lib (respBody resp) of
        Inl e \<Rightarrow>
          if respStatus resp < 200 \<or> 300 \<le> respStatus resp then
            (Inl (wrap_err (''cloudflare: HTTP '' @ itoa (respStatus resp) @ '' with unparseable body: '') e), w1)
          else (Inl (wrap_err ''cloudflare: decode response: '' e), w1)
      | Inr env \<Rightarrow> if \<not> cfSuccess env then (Inl (CfApiError (cfErrors env)), w1) else (Inr env, w1))))"

text \<open>\<open>do\<close>: \<open>decode\<close> is the unmarshalling into \<open>out\<close>, \<open>zero\<close> the value left when there is no result.\<close>

definition cf_do ::
  "cf_lib \<Rightarrow> 'w cfClient \<Rightarrow> string \<Rightarrow> string \<Rightarrow> string option \<Rightarrow> (string \<Rightarrow> error + 'a) \<Rightarrow> 'a \<Rightarrow> 'w \<Rightarrow> (error + 'a) \<times> 'w" where
  "cf_do lib c method path body decode zero w =
     (case doRaw lib c method path body w of
        (Inl e, w1) \<Rightarrow> (Inl e, w1)
      | (Inr env, w1) \<Rightarrow> if cfResult env \<noteq> '''' then (decode (cfResult env), w1) else (Inr zero, w1))"

definition zero_dnsRecord :: dnsRecord where
  "zero_dnsRecord = \<lparr>drID = '''', drType = '''', drName = '''', drContent = '''', drTTL = 0, drComment = '''', drPriority = None\<rparr>"

definition getZone :: "cf_lib \<Rightarrow> 'w cfClient \<Rightarrow> 'w \<Rightarrow> (error + cf_zone) \<times> 'w" where
  "getZone lib c = cf_do lib c ''GET'' (''/zones/'' @ ccZoneID c) None (cflZone lib) \<lparr>czID = '''', czName = ''''\<rparr>"

definition records_path :: "'w cfClient \<Rightarrow> string" where
  "records_path c = ''/zones/'' @ ccZoneID c @ ''/dns_records''"

definition page_params :: "url_values \<Rightarrow> int \<Rightarrow> url_values" where
  "page_params filt page = go_put ''per_page'' (itoa 100) (go_put ''page'' (itoa page) filt)"

text \<open>One request of the loop: the records of a page and the number of pages.\<close>

definition fetch_page :: "cf_lib \<Rightarrow> 'w cfClient \<Rightarrow> url_values \<Rightarrow> int \<Rightarrow> 'w \<Rightarrow> (error + dnsRecord list \<times> int) \<times> 'w" where
  "fetch_page lib c filt page w =
     (case doRaw lib c ''GET'' (records_path c @ ''?'' @ values_encode (page_params filt page)) None w of
        (Inl e, w1) \<Rightarrow> (Inl e, w1)
      | (Inr env, w1) \<Rightarrow>
          if cfResult env \<noteq> '''' then
            (case cflRecords lib (cfResult env) of
               Inl e \<Rightarrow> (Inl (wrap_err ''cloudflare: decode dns records: '' e), w1)
             | Inr recs \<Rightarrow> (Inr (recs, cfTotalPages env), w1))
          else (Inr ([], cfTotalPages env), w1))"

partial_function (option) paginate_from ::
  "cf_lib \<Rightarrow> 'w cfClient \<Rightarrow> url_values \<Rightarrow> int \<Rightarrow> dnsRecord list \<Rightarrow> 'w \<Rightarrow> ((error + dnsRecord list) \<times> 'w) option" where
  "paginate_from lib c filt page acc w =
     (case fetch_page lib c filt page w of
        (Inl e, w1) \<Rightarrow> Some (Inl e, w1)
      | (Inr (recs, pages), w1) \<Rightarrow>
          if pages \<le> page \<or> recs = [] then Some (Inr (acc @ recs), w1)
          else paginate_from lib c filt (page + 1) (acc @ recs) w1)"

definition paginateDNSRecords ::
  "cf_lib \<Rightarrow> 'w cfClient \<Rightarrow> url_values \<Rightarrow> 'w \<Rightarrow> ((error + dnsRecord list) \<times> 'w) option" where
  "paginateDNSRecords lib c filt w = paginate_from lib c filt 1 [] w"

definition record_filter :: "string \<Rightarrow> string \<Rightarrow> string \<Rightarrow> url_values" where
  "record_filter recordType name content =
     (let p = go_put ''name'' name (go_put ''type'' recordType [])
      in if content \<noteq> '''' then go_put ''content'' content p else p)"

definition listDNSRecords ::
  "cf_lib \<Rightarrow> 'w cfClient \<Rightarrow> string \<Rightarrow> string \<Rightarrow> string \<Rightarrow> 'w \<Rightarrow> ((error + dnsRecord list) \<times> 'w) option" where
  "listDNSRecords lib c recordType name content = paginateDNSRecords lib c (record_filter recordType name content)"

definition listAllDNSRecords :: "cf_lib \<Rightarrow> 'w cfClient \<Rightarrow> 'w \<Rightarrow> ((error + dnsRecord list) \<times> 'w) option" where
  "listAllDNSRecords lib c = paginateDNSRecords lib c []"

definition createDNSRecord :: "cf_lib \<Rightarrow> 'w cfClient \<Rightarrow> dnsRecordRequest \<Rightarrow> 'w \<Rightarrow> (error + dnsRecord) \<times> 'w" where
  "createDNSRecord lib c r = cf_do lib c ''POST'' (records_path c) (Some (cflBody lib r)) (cflRecord lib) zero_dnsRecord"

definition updateDNSRecord :: "cf_lib \<Rightarrow> 'w cfClient \<Rightarrow> string \<Rightarrow> dnsRecordRequest \<Rightarrow> 'w \<Rightarrow> (error + dnsRecord) \<times> 'w" where
  "updateDNSRecord lib c i r =
     cf_do lib c ''PUT'' (records_path c @ ''/'' @ i) (Some (cflBody lib r)) (cflRecord lib) zero_dnsRecord"

text \<open>A deletion decodes no result.\<close>

definition deleteDNSRecord :: "cf_lib \<Rightarrow> 'w cfClient \<Rightarrow> string \<Rightarrow> 'w \<Rightarrow> error option \<times> 'w" where
  "deleteDNSRecord lib c i w =
     (case doRaw lib c ''DELETE'' (records_path c @ ''/'' @ i) None w of
        (Inl e, w1) \<Rightarrow> (Some e, w1)
      | (Inr env, w1) \<Rightarrow> (None, w1))"

section \<open>The adapter\<close>

record 'w cloudflare =
  cuName :: string
  cuClient :: "'w cfClient"
  cuZoneName :: string

record 'w cf_options =
  coName :: string
  coAPIToken :: string
  coZoneID :: string
  coRetry :: RetryOptions
  coMaxAuthFailures :: int
  coDebug :: "'w middleware option"
  coMetrics :: "(string \<Rightarrow> string \<Rightarrow> int \<Rightarrow> 'w \<Rightarrow> 'w) option"

definition cf_client ::
  "'w http_env \<Rightarrow> (breaker_state, 'w) cell \<Rightarrow> 'w cf_options \<Rightarrow> 'w transport \<Rightarrow> 'w cfClient" where
  "cf_client env cb opts base =
     \<lparr>ccHttp = NewClient env cb
        \<lparr>clName = coName opts, clTimeout = 0, clRetry = coRetry opts, clMaxAuthFailures = coMaxAuthFailures opts,
         clAuth = Some (Bearer (coAPIToken opts)), clDebug = coDebug opts, clMetrics = coMetrics opts\<rparr> base,
      ccZoneID = coZoneID opts, ccBaseURL = apiBase\<rparr>"

definition cf_New ::
  "'w http_env \<Rightarrow> (breaker_state, 'w) cell \<Rightarrow> (breaker_state, 'w) cell \<Rightarrow> cf_lib \<Rightarrow> 'w cf_options
     \<Rightarrow> 'w transport \<Rightarrow> 'w \<Rightarrow> (error + 'w cloudflare) \<times> 'w" where
  "cf_New env cb0 cb lib opts base w =
     (case getZone lib (cf_client env cb0 opts base) w of
        (Inl e, w1) \<Rightarrow> (Inl (wrap_err ''cloudflare fetch zone details: '' e), w1)
      | (Inr z, w1) \<Rightarrow>
          (Inr \<lparr>cuName = coName opts, cuClient = cf_client env cb opts base, cuZoneName = czName z\<rparr>, w1))"

definition fqdn :: "string \<Rightarrow> string \<Rightarrow> string" where
  "fqdn zoneName name =
     (let suffix = ''.'' @ zoneName in
      if name = zoneName \<or> has_suffix name suffix then name else name @ suffix)"

definition shortName :: "string \<Rightarrow> string \<Rightarrow> string" where
  "shortName zoneName name =
     (let suffix = ''.'' @ zoneName in
      if name \<noteq> zoneName \<and> has_suffix name suffix then trim_suffix name suffix else name)"

definition cf_request :: "string \<Rightarrow> Record \<Rightarrow> dnsRecordRequest" where
  "cf_request name r =
     \<lparr>qrType = Type r, qrName = name, qrContent = Value r, qrTTL = TTL r, qrComment = Comment r,
      qrPriority = (if 0 < Priority r then Some (Priority r mod 2 ^ 16) else None)\<rparr>"

definition cf_Upsert :: "cf_lib \<Rightarrow> 'w cloudflare \<Rightarrow> Record \<Rightarrow> 'w \<Rightarrow> (error option \<times> 'w) option" where
  "cf_Upsert lib u r w =
     (if Type r = RecordTypeSRV \<or> Type r = RecordTypeCAA then
        Some (Some (OtherError (''cloudflare upstream: record type '' @ Type r @
          '' is not supported (requires structured data fields)'')), w)
      else
        (let name = fqdn (cuZoneName u) (Name r); req = cf_request name r in
         case listDNSRecords lib (cuClient u) (Type r) name '''' w of
           None \<Rightarrow> None
         | Some (Inl e, w1) \<Rightarrow> Some (Some (wrap_err ''cloudflare list records: '' e), w1)
         | Some (Inr (cur # rest), w1) \<Rightarrow>
             if cf_recordUpToDate cur req then Some (None, w1)
             else
               (case updateDNSRecord lib (cuClient u) (drID cur) req w1 of
                  (Inl e, w2) \<Rightarrow> Some (Some (wrap_err ''cloudflare update record: '' e), w2)
                | (Inr _, w2) \<Rightarrow> Some (None, w2))
         | Some (Inr [], w1) \<Rightarrow>
             (case createDNSRecord lib (cuClient u) req w1 of
                (Inl e, w2) \<Rightarrow>
                  (case as_api_error e of
                     Some es \<Rightarrow>
                       if HasCode es errAlreadyExists then Some (None, w2)
                       else Some (Some (wrap_err ''cloudflare create record: '' e), w2)
                   | None \<Rightarrow> Some (Some (wrap_err ''cloudflare create record: '' e), w2))
              | (Inr _, w2) \<Rightarrow> Some (None, w2))))"

fun delete_all :: "cf_lib \<Rightarrow> 'w cfClient \<Rightarrow> dnsRecord list \<Rightarrow> 'w \<Rightarrow> error option \<times> 'w" where
  "delete_all lib c [] w = (None, w)"
| "delete_all lib c (rec # recs) w =
     (case deleteDNSRecord lib c (drID rec) w of
        (Some e, w1) \<Rightarrow> (Some (wrap_err ''cloudflare delete record: '' e), w1)
      | (None, w1) \<Rightarrow> delete_all lib c recs w1)"

definition cf_Delete :: "cf_lib \<Rightarrow> 'w cloudflare \<Rightarrow> Record \<Rightarrow> 'w \<Rightarrow> (error option \<times> 'w) option" where
  "cf_Delete lib u r w =
     (case listDNSRecords lib (cuClient u) (Type r) (fqdn (cuZoneName u) (Name r)) (Value r) w of
        None \<Rightarrow> None
      | Some (Inl e, w1) \<Rightarrow> Some (Some (wrap_err ''cloudflare list records: '' e), w1)
      | Some (Inr existing, w1) \<Rightarrow>
          if existing = [] then Some (None, w1) else Some (delete_all lib (cuClient u) existing w1))"

definition cf_record :: "string \<Rightarrow> string \<Rightarrow> dnsRecord \<Rightarrow> Record" where
  "cf_record up zoneName rec =
     zero_record\<lparr>Upstream := up, Type := drType rec, Name := shortName zoneName (drName rec), Value := drContent rec,
       TTL := drTTL rec, Comment := drComment rec,
       Priority := (case drPriority rec of None \<Rightarrow> 0 | Some p \<Rightarrow> p)\<rparr>"

definition cf_List :: "cf_lib \<Rightarrow> 'w cloudflare \<Rightarrow> 'w \<Rightarrow> ((error + Record list) \<times> 'w) option" where
  "cf_List lib u w =
     (case listAllDNSRecords lib (cuClient u) w of
        None \<Rightarrow> None
      | Some (Inl e, w1) \<Rightarrow> Some (Inl (wrap_err ''cloudflare list records: '' e), w1)
      | Some (Inr recs, w1) \<Rightarrow> Some (Inr (map (cf_record (cuName u) (cuZoneName u)) recs), w1))"

section \<open>Names in the zone\<close>

lemma has_suffix_longer: "has_suffix s p \<Longrightarrow> p \<noteq> [] \<Longrightarrow> trim_suffix s p \<noteq> s"
  by (metis append_self_conv has_suffix_iff trim_suffix_append)

text \<open>
  Qualifying a name is idempotent, and the listing gives back exactly the names that were given
  relative to the zone, or the zone itself: a name that already ends in the zone's is listed in its
  short form, under another name than the record's.
\<close>

theorem fqdn_roundtrip:
  "fqdn z (fqdn z n) = fqdn z n \<and>
   (shortName z (fqdn z n) \<noteq> n \<longleftrightarrow> n \<noteq> z \<and> has_suffix n (''.'' @ z))"
proof (cases "n = z \<or> has_suffix n (''.'' @ z)")
  case True
  then have "fqdn z n = n" by (auto simp: fqdn_def)
  with True show ?thesis by (auto simp: shortName_def has_suffix_longer)
next
  case False
  then have f: "fqdn z n = n @ ''.'' @ z" by (auto simp: fqdn_def Let_def)
  have "n @ ''.'' @ z \<noteq> z" by (metis append_assoc append_self_conv2 append_is_Nil_conv not_Cons_self2)
  with False f show ?thesis by (simp add: fqdn_def shortName_def has_suffix_append)
qed

section \<open>Listing\<close>

text \<open>
  The documented listing of Cloudflare for one filter: page \<open>k\<close> of the records of the zone that the
  filter selects (\<open>P\<close>), a hundred to a page, with the number of pages; it changes nothing.
\<close>

definition page_count :: "'a list \<Rightarrow> nat" where
  "page_count xs = (length xs + 99) div 100"

definition page_slice :: "nat \<Rightarrow> 'a list \<Rightarrow> 'a list" where
  "page_slice k xs = take 100 (drop (100 * (k - 1)) xs)"

definition page_request :: "'w cfClient \<Rightarrow> url_values \<Rightarrow> int \<Rightarrow> http_request" where
  "page_request c filt k =
     \<lparr>rqMethod = ''GET'', rqURL = ccBaseURL c @ records_path c @ ''?'' @ values_encode (page_params filt k), rqHeader = [],
      rqBody = None, rqGetBody = None, rqDeadline = None\<rparr>"

definition cf_lists ::
  "cf_lib \<Rightarrow> 'w cfClient \<Rightarrow> url_values \<Rightarrow> (dnsRecord \<Rightarrow> bool) \<Rightarrow> ('w \<Rightarrow> dnsRecord list) \<Rightarrow> bool" where
  "cf_lists lib c filt P zone \<longleftrightarrow>
     (\<forall>url. cflUrlErr lib url = None) \<and>
     (\<forall>w k. 1 \<le> k \<and> k \<le> max 1 (page_count (filter P (zone w))) \<longrightarrow>
       (\<exists>resp env w1. ccHttp c (page_request c filt (int k)) w = (Inr resp, w1) \<and>
          cflEnvelope lib (respBody resp) = Inr env \<and> cfSuccess env \<and> cfResult env \<noteq> '''' \<and>
          cflRecords lib (cfResult env) = Inr (page_slice k (filter P (zone w))) \<and>
          cfTotalPages env = int (page_count (filter P (zone w))) \<and> zone w1 = zone w))"

lemma page_slice_step:
  "1 \<le> k \<Longrightarrow> take (100 * (k - 1)) xs @ page_slice k xs = take (100 * k) xs"
  unfolding page_slice_def by (metis (no_types) One_nat_def Suc_pred' add.commute less_eq_Suc_le mult_Suc_right take_add)

lemma page_count_all: "page_count xs \<le> k \<Longrightarrow> take (100 * k) xs = xs"
  by (simp add: page_count_def)

lemma page_slice_nonempty: "1 \<le> k \<Longrightarrow> k \<le> page_count xs \<Longrightarrow> page_slice k xs \<noteq> []"
  by (auto simp: page_slice_def page_count_def)

lemma fetch_page_lists:
  assumes "cf_lists lib c filt P zone" "1 \<le> k" "k \<le> max 1 (page_count (filter P (zone w)))"
  shows "\<exists>w1. fetch_page lib c filt (int k) w =
      (Inr (page_slice k (filter P (zone w)), int (page_count (filter P (zone w)))), w1) \<and> zone w1 = zone w"
proof -
  obtain resp env w1 where s: "ccHttp c (page_request c filt (int k)) w = (Inr resp, w1)"
    "cflEnvelope lib (respBody resp) = Inr env" "cfSuccess env" "cfResult env \<noteq> ''''"
    "cflRecords lib (cfResult env) = Inr (page_slice k (filter P (zone w)))"
    "cfTotalPages env = int (page_count (filter P (zone w)))" "zone w1 = zone w"
    using assms unfolding cf_lists_def by meson
  have u: "\<And>url. cflUrlErr lib url = None" using assms(1) by (simp add: cf_lists_def)
  show ?thesis
    using s by (intro exI [of _ w1]) (simp add: fetch_page_def doRaw_def new_request_def u client_Do_def page_request_def Let_def)
qed

lemma paginate_from_lists:
  assumes "cf_lists lib c filt P zone" "1 \<le> k" "k \<le> max 1 (page_count (filter P (zone w)))"
    "acc = take (100 * (k - 1)) (filter P (zone w))"
  shows "\<exists>w1. paginate_from lib c filt (int k) acc w = Some (Inr (filter P (zone w)), w1) \<and> zone w1 = zone w"
  using assms(2-4)
proof (induction "page_count (filter P (zone w)) - k" arbitrary: k acc w)
  case 0
  obtain w1 where w1: "fetch_page lib c filt (int k) w =
      (Inr (page_slice k (filter P (zone w)), int (page_count (filter P (zone w)))), w1)" "zone w1 = zone w"
    using fetch_page_lists [OF assms(1) 0(2,3)] by blast
  have k: "page_count (filter P (zone w)) \<le> k" using 0(1) by simp
  have "acc @ page_slice k (filter P (zone w)) = filter P (zone w)"
    using page_slice_step [OF 0(2)] page_count_all [OF k] 0(4) by metis
  with w1 k show ?case by (subst paginate_from.simps) simp
next
  case (Suc n)
  obtain w1 where w1: "fetch_page lib c filt (int k) w =
      (Inr (page_slice k (filter P (zone w)), int (page_count (filter P (zone w)))), w1)" "zone w1 = zone w"
    using fetch_page_lists [OF assms(1) Suc(3,4)] by blast
  have k: "k < page_count (filter P (zone w))" using Suc(2) by simp
  then have ne: "page_slice k (filter P (zone w)) \<noteq> []" using page_slice_nonempty [OF Suc(3), of "filter P (zone w)"] by simp
  have acc: "acc @ page_slice k (filter P (zone w)) = take (100 * (Suc k - 1)) (filter P (zone w1))"
    using page_slice_step [OF Suc(3), of "filter P (zone w)"] Suc(5) w1(2) by simp
  have n: "n = page_count (filter P (zone w1)) - Suc k" "1 \<le> Suc k" "Suc k \<le> max 1 (page_count (filter P (zone w1)))"
    using Suc(2) k w1(2) by simp_all
  obtain w2 where "paginate_from lib c filt (int (Suc k)) (acc @ page_slice k (filter P (zone w))) w1
      = Some (Inr (filter P (zone w1)), w2)" "zone w2 = zone w1"
    using Suc(1) [OF n acc] by blast
  then show ?case
    using w1 k ne by (subst paginate_from.simps) (simp add: add.commute)
qed

lemma paginate_lists:
  assumes "cf_lists lib c filt P zone"
  shows "\<exists>w1. paginateDNSRecords lib c filt w = Some (Inr (filter P (zone w)), w1) \<and> zone w1 = zone w"
  unfolding paginateDNSRecords_def
  using paginate_from_lists [OF assms, of 1 w "[]"] by simp

text \<open>
  C40. The loop over the pages, which has no bound of its own, stops against a server that pages its
  listing as documented, and returns the records the filter selects, each once and in order,
  however many pages they fill (none included).
\<close>

theorem paginate_complete:
  assumes "cf_lists lib c filt P zone"
  shows "\<exists>w1. paginateDNSRecords lib c filt w = Some (Inr (filter P (zone w)), w1) \<and> zone w1 = zone w"
  using assms by (rule paginate_lists)

section \<open>Changes\<close>

text \<open>The records of the zone that a filter by type, name and (unless empty) content selects.\<close>

definition cf_matches :: "string \<Rightarrow> string \<Rightarrow> string \<Rightarrow> dnsRecord \<Rightarrow> bool" where
  "cf_matches t n v rec \<longleftrightarrow> drType rec = t \<and> drName rec = n \<and> (v = '''' \<or> drContent rec = v)"

definition write_request :: "'w cfClient \<Rightarrow> string \<Rightarrow> string \<Rightarrow> string \<Rightarrow> http_request" where
  "write_request c method path body =
     \<lparr>rqMethod = method, rqURL = ccBaseURL c @ path, rqHeader = header_set ''Content-Type'' ''application/json'' [],
      rqBody = Some body, rqGetBody = Some (Inr body), rqDeadline = None\<rparr>"

definition delete_request :: "'w cfClient \<Rightarrow> string \<Rightarrow> http_request" where
  "delete_request c i =
     \<lparr>rqMethod = ''DELETE'', rqURL = ccBaseURL c @ records_path c @ ''/'' @ i, rqHeader = [],
      rqBody = None, rqGetBody = None, rqDeadline = None\<rparr>"

text \<open>A successful answer; the body of an answer to a write decodes to a record.\<close>

definition cf_success :: "cf_lib \<Rightarrow> http_response \<Rightarrow> bool" where
  "cf_success lib resp \<longleftrightarrow> (\<exists>env. cflEnvelope lib (respBody resp) = Inr env \<and> cfSuccess env \<and>
     (cfResult env = '''' \<or> (\<exists>rec. cflRecord lib (cfResult env) = Inr rec)))"

text \<open>
  The documented effect of the three writes: delete and replace a record selected by \<open>P\<close>, by its
  identifier, and append a record, which is only asked for when no record is selected.
\<close>

definition cf_deletes :: "cf_lib \<Rightarrow> 'w cfClient \<Rightarrow> (dnsRecord \<Rightarrow> bool) \<Rightarrow> ('w \<Rightarrow> dnsRecord list) \<Rightarrow> bool" where
  "cf_deletes lib c P zone \<longleftrightarrow>
     (\<forall>w i. i \<in> drID ` set (filter P (zone w)) \<longrightarrow>
        (\<exists>resp w1. ccHttp c (delete_request c i) w = (Inr resp, w1) \<and> cf_success lib resp \<and>
           zone w1 = filter (\<lambda>rec. drID rec \<noteq> i) (zone w)))"

definition stored :: "string \<Rightarrow> dnsRecordRequest \<Rightarrow> dnsRecord" where
  "stored i req = \<lparr>drID = i, drType = qrType req, drName = qrName req, drContent = qrContent req, drTTL = qrTTL req,
     drComment = qrComment req, drPriority = qrPriority req\<rparr>"

definition cf_writes ::
  "cf_lib \<Rightarrow> 'w cfClient \<Rightarrow> dnsRecordRequest \<Rightarrow> (dnsRecord \<Rightarrow> bool) \<Rightarrow> ('w \<Rightarrow> dnsRecord list) \<Rightarrow> bool" where
  "cf_writes lib c req P zone \<longleftrightarrow>
     (\<forall>w i. i \<in> drID ` set (filter P (zone w)) \<longrightarrow>
        (\<exists>resp w1. ccHttp c (write_request c ''PUT'' (records_path c @ ''/'' @ i) (cflBody lib req)) w = (Inr resp, w1) \<and>
           cf_success lib resp \<and> zone w1 = map (\<lambda>rec. if drID rec = i then stored i req else rec) (zone w))) \<and>
     (\<forall>w. filter P (zone w) = [] \<longrightarrow> (\<exists>resp w1 i. ccHttp c (write_request c ''POST'' (records_path c) (cflBody lib req)) w = (Inr resp, w1) \<and>
        cf_success lib resp \<and> zone w1 = zone w @ [stored i req]))"

lemma deleteDNSRecord_deletes:
  assumes "cf_deletes lib c P zone" "\<And>url. cflUrlErr lib url = None" "i \<in> drID ` set (filter P (zone w))"
  shows "\<exists>w1. deleteDNSRecord lib c i w = (None, w1) \<and> zone w1 = filter (\<lambda>rec. drID rec \<noteq> i) (zone w)"
proof -
  obtain resp w1 where s: "ccHttp c (delete_request c i) w = (Inr resp, w1)" "cf_success lib resp"
    "zone w1 = filter (\<lambda>rec. drID rec \<noteq> i) (zone w)"
    using assms(1,3) unfolding cf_deletes_def by meson
  then show ?thesis
    by (intro exI [of _ w1])
      (auto simp: deleteDNSRecord_def doRaw_def new_request_def assms(2) client_Do_def delete_request_def cf_success_def Let_def)
qed

lemma delete_all_deletes:
  assumes "cf_deletes lib c P zone" "\<And>url. cflUrlErr lib url = None"
    "set recs \<subseteq> set (filter P (zone w))" "distinct (map drID recs)"
  shows "\<exists>w1. delete_all lib c recs w = (None, w1) \<and> zone w1 = filter (\<lambda>rec. drID rec \<notin> drID ` set recs) (zone w)"
  using assms(3,4)
proof (induction recs arbitrary: w)
  case (Cons r recs)
  obtain w1 where w1: "deleteDNSRecord lib c (drID r) w = (None, w1)" "zone w1 = filter (\<lambda>rec. drID rec \<noteq> drID r) (zone w)"
    using deleteDNSRecord_deletes [OF assms(1,2), of "drID r" w] Cons.prems(1) by auto
  have "\<forall>x\<in>set recs. drID x \<noteq> drID r" using Cons.prems(2) by (metis distinct.simps(2) image_eqI list.simps(9) set_map)
  then have "set recs \<subseteq> set (filter P (zone w1))" using Cons.prems(1) w1(2) by auto
  then obtain w2 where w2: "delete_all lib c recs w1 = (None, w2)" "zone w2 = filter (\<lambda>rec. drID rec \<notin> drID ` set recs) (zone w1)"
    using Cons.IH [of w1] Cons.prems(2) by auto
  have "zone w2 = filter (\<lambda>rec. drID rec \<notin> drID ` set (r # recs)) (zone w)"
    unfolding w2(2) w1(2) filter_filter by (rule filter_cong) auto
  with w1(1) w2(1) show ?case by simp
qed simp

lemma cf_write_ok:
  assumes "ccHttp c (write_request c method path (cflBody lib req)) w = (Inr resp, w1)" "cf_success lib resp"
    "\<And>url. cflUrlErr lib url = None"
  shows "\<exists>rec. cf_do lib c method path (Some (cflBody lib req)) (cflRecord lib) zero_dnsRecord w = (Inr rec, w1)"
  using assms(1,2)
  by (auto simp: cf_do_def doRaw_def new_request_def assms(3) client_Do_def write_request_def cf_success_def Let_def)

text \<open>Filters of a list with distinct identifiers.\<close>

lemma filter_ids:
  assumes "distinct (map drID xs)"
  shows "filter (\<lambda>rec. drID rec \<notin> drID ` set (filter P xs)) xs = filter (\<lambda>rec. \<not> P rec) xs"
proof (rule filter_cong)
  fix rec assume "rec \<in> set xs"
  then show "drID rec \<notin> drID ` set (filter P xs) \<longleftrightarrow> \<not> P rec"
    using assms by (auto simp: distinct_map inj_on_def)
qed simp

text \<open>
  C39. \<open>Delete\<close> removes from the zone exactly the records with the type, the qualified name and the
  value of the record, and leaves every other record, one of the same name and type with another
  value included.
\<close>

theorem cf_delete_exact:
  assumes "cf_lists lib (cuClient u)
      (record_filter (Type r) (fqdn (cuZoneName u) (Name r)) (Value r))
      (cf_matches (Type r) (fqdn (cuZoneName u) (Name r)) (Value r)) zone"
    "cf_deletes lib (cuClient u) (cf_matches (Type r) (fqdn (cuZoneName u) (Name r)) (Value r)) zone"
    "distinct (map drID (zone w))"
  shows "\<exists>w1. cf_Delete lib u r w = Some (None, w1) \<and>
    zone w1 = filter (\<lambda>rec. \<not> cf_matches (Type r) (fqdn (cuZoneName u) (Name r)) (Value r) rec) (zone w)"
proof -
  let ?P = "cf_matches (Type r) (fqdn (cuZoneName u) (Name r)) (Value r)"
  have url: "\<And>url. cflUrlErr lib url = None" using assms(1) by (simp add: cf_lists_def)
  obtain w1 where w1: "listDNSRecords lib (cuClient u) (Type r) (fqdn (cuZoneName u) (Name r)) (Value r) w
      = Some (Inr (filter ?P (zone w)), w1)" "zone w1 = zone w"
    using paginate_lists [OF assms(1)] unfolding listDNSRecords_def by blast
  obtain w2 where w2: "delete_all lib (cuClient u) (filter ?P (zone w)) w1 = (None, w2)"
    "zone w2 = filter (\<lambda>rec. drID rec \<notin> drID ` set (filter ?P (zone w))) (zone w1)"
    using delete_all_deletes [OF assms(2) url, of "filter ?P (zone w)" w1] w1(2) assms(3)
    by (auto simp: distinct_map_filter)
  have z: "zone w2 = filter (\<lambda>rec. \<not> ?P rec) (zone w)"
    using w2(2) w1(2) filter_ids [OF assms(3)] by simp
  show ?thesis
  proof (cases "filter ?P (zone w) = []")
    case True
    then have "filter (\<lambda>rec. \<not> ?P rec) (zone w) = zone w" by (simp add: filter_empty_conv filter_id_conv)
    with True w1 show ?thesis by (simp add: cf_Delete_def)
  next
    case False
    with w1(1) w2(1) z show ?thesis by (simp add: cf_Delete_def)
  qed
qed

text \<open>Replacing one element by another, both selected or not by \<open>P\<close> alike.\<close>

lemma filter_replace:
  assumes "distinct (map key xs)" "x \<in> set xs" "P x" "P y" "f = (\<lambda>z. if key z = key x then y else z)"
  shows "filter P (map f xs) = map f (filter P xs)" "filter (\<lambda>z. \<not> P z) (map f xs) = filter (\<lambda>z. \<not> P z) xs"
proof -
  have same: "P (f z) \<longleftrightarrow> P z" "\<not> P z \<Longrightarrow> f z = z" if "z \<in> set xs" for z
  proof -
    have "key z = key x \<Longrightarrow> z = x" using that assms(1,2) by (auto simp: distinct_map inj_on_def)
    with assms(3-5) show "P (f z) \<longleftrightarrow> P z" "\<not> P z \<Longrightarrow> f z = z" by auto
  qed
  have "filter Q (map f xs) = map f (filter Q xs)" if "\<And>z. z \<in> set xs \<Longrightarrow> Q (f z) \<longleftrightarrow> Q z" for Q
    unfolding filter_map o_def using that by (intro arg_cong [where f = "map f"] filter_cong) auto
  note q = this [of P] this [of "\<lambda>z. \<not> P z"]
  from q(1) same(1) show "filter P (map f xs) = map f (filter P xs)" by blast
  have "map f (filter (\<lambda>z. \<not> P z) xs) = filter (\<lambda>z. \<not> P z) xs" using same(2) by (intro map_idI) auto
  with q(2) same(1) show "filter (\<lambda>z. \<not> P z) (map f xs) = filter (\<lambda>z. \<not> P z) xs" by simp
qed

text \<open>The three ways of \<open>Upsert\<close>: nothing to do, create, update the first record found.\<close>

lemma cf_Upsert_cases:
  assumes "listDNSRecords lib (cuClient u) (Type r) (fqdn (cuZoneName u) (Name r)) '''' w = Some (Inr existing, w1)"
    "Type r \<noteq> RecordTypeSRV" "Type r \<noteq> RecordTypeCAA" "\<And>url. cflUrlErr lib url = None"
    "req = cf_request (fqdn (cuZoneName u) (Name r)) r"
  shows "existing = cur # rest \<Longrightarrow> cf_recordUpToDate cur req \<Longrightarrow> cf_Upsert lib u r w = Some (None, w1)"
    and "existing = [] \<Longrightarrow>
      ccHttp (cuClient u) (write_request (cuClient u) ''POST'' (records_path (cuClient u)) (cflBody lib req)) w1 = (Inr resp, w2) \<Longrightarrow>
      cf_success lib resp \<Longrightarrow> cf_Upsert lib u r w = Some (None, w2)"
    and "existing = cur # rest \<Longrightarrow> \<not> cf_recordUpToDate cur req \<Longrightarrow>
      ccHttp (cuClient u) (write_request (cuClient u) ''PUT'' (records_path (cuClient u) @ ''/'' @ drID cur) (cflBody lib req)) w1
        = (Inr resp, w2) \<Longrightarrow> cf_success lib resp \<Longrightarrow> cf_Upsert lib u r w = Some (None, w2)"
  subgoal using assms(1-3,5) by (simp add: cf_Upsert_def Let_def)
  subgoal premises p
    using cf_write_ok [OF p(2,3) assms(4)] p(1) assms(1-3,5) by (auto simp: cf_Upsert_def createDNSRecord_def Let_def)
  subgoal premises p
    using cf_write_ok [OF p(3,4) assms(4)] p(1,2) assms(1-3,5) by (auto simp: cf_Upsert_def updateDNSRecord_def Let_def)
  done

text \<open>One \<open>Upsert\<close> on the zone.\<close>

lemma cf_Upsert_on_zone:
  assumes "cf_writes lib (cuClient u) req P zone" "distinct (map drID (zone w))" "req = cf_request (fqdn (cuZoneName u) (Name r)) r"
    "listDNSRecords lib (cuClient u) (Type r) (fqdn (cuZoneName u) (Name r)) '''' w = Some (Inr (filter P (zone w)), w1)"
    "zone w1 = zone w" "Type r \<noteq> RecordTypeSRV" "Type r \<noteq> RecordTypeCAA" "\<And>url. cflUrlErr lib url = None"
    and new: "\<And>i. cf_recordUpToDate (stored i req) req" "\<And>i. P (stored i req)"
  shows "\<exists>w2 cur rest. cf_Upsert lib u r w = Some (None, w2) \<and> filter P (zone w2) = cur # rest \<and>
      cf_recordUpToDate cur req \<and> filter (\<lambda>rec. \<not> P rec) (zone w2) = filter (\<lambda>rec. \<not> P rec) (zone w)"
proof (cases "filter P (zone w)")
  case Nil
  then have "filter P (zone w1) = []" using assms(5) by simp
  then obtain resp w2 i where s: "ccHttp (cuClient u) (write_request (cuClient u) ''POST'' (records_path (cuClient u)) (cflBody lib req)) w1 = (Inr resp, w2)"
    "cf_success lib resp" "zone w2 = zone w1 @ [stored i req]"
    using assms(1) unfolding cf_writes_def by meson
  with cf_Upsert_cases(2) [OF assms(4,6-8,3) Nil s(1,2)] Nil assms(5) new show ?thesis
    by (intro exI [of _ w2] exI [of _ "stored i req"] exI [of _ "[]"]) simp
next
  case (Cons cur rest)
  show ?thesis
  proof (cases "cf_recordUpToDate cur req")
    case True
    with cf_Upsert_cases(1) [OF assms(4,6-8,3) Cons] Cons assms(5) show ?thesis by auto
  next
    case False
    let ?f = "\<lambda>rec. if drID rec = drID cur then stored (drID cur) req else rec"
    have "drID cur \<in> drID ` set (filter P (zone w1))" unfolding assms(5) Cons by simp
    then obtain resp w2 where s: "ccHttp (cuClient u) (write_request (cuClient u) ''PUT'' (records_path (cuClient u) @ ''/'' @ drID cur) (cflBody lib req)) w1 = (Inr resp, w2)"
      "cf_success lib resp" "zone w2 = map ?f (zone w1)"
      using assms(1) unfolding cf_writes_def by meson
    have cur: "cur \<in> set (zone w)" "P cur" using filter_eq_ConsD [OF Cons] by auto
    note f = filter_replace [where f = ?f, OF assms(2) cur new(2) refl]
    show ?thesis
      using cf_Upsert_cases(3) [OF assms(4,6-8,3) Cons False s(1,2)] Cons f s(3) assms(5) new
      by (intro exI [of _ w2] exI [of _ "stored (drID cur) req"] exI [of _ "map ?f rest"]) simp
  qed
qed

text \<open>
  C38. After \<open>Upsert\<close> the first record of the zone with the type and qualified name carries the value,
  TTL, comment and priority of the record, every record of another type or name is as before, and
  a second \<open>Upsert\<close> changes nothing.
\<close>

theorem cf_upsert_converges:
  assumes "cf_lists lib (cuClient u) (record_filter (Type r) (fqdn (cuZoneName u) (Name r)) '''')
      (cf_matches (Type r) (fqdn (cuZoneName u) (Name r)) '''') zone"
    "cf_writes lib (cuClient u) (cf_request (fqdn (cuZoneName u) (Name r)) r)
      (cf_matches (Type r) (fqdn (cuZoneName u) (Name r)) '''') zone"
    "distinct (map drID (zone w))" "Type r \<noteq> RecordTypeSRV" "Type r \<noteq> RecordTypeCAA"
  shows "\<exists>w1 cur rest. cf_Upsert lib u r w = Some (None, w1) \<and>
    filter (cf_matches (Type r) (fqdn (cuZoneName u) (Name r)) '''') (zone w1) = cur # rest \<and>
    cf_recordUpToDate cur (cf_request (fqdn (cuZoneName u) (Name r)) r) \<and>
    filter (\<lambda>rec. \<not> cf_matches (Type r) (fqdn (cuZoneName u) (Name r)) '''' rec) (zone w1)
      = filter (\<lambda>rec. \<not> cf_matches (Type r) (fqdn (cuZoneName u) (Name r)) '''' rec) (zone w) \<and>
    (\<exists>w2. cf_Upsert lib u r w1 = Some (None, w2) \<and> zone w2 = zone w1)"
proof -
  define n where "n = fqdn (cuZoneName u) (Name r)"
  let ?P = "cf_matches (Type r) n ''''" and ?req = "cf_request n r"
  have url: "\<And>url. cflUrlErr lib url = None" using assms(1) by (simp add: cf_lists_def)
  have list: "\<exists>w1. listDNSRecords lib (cuClient u) (Type r) n '''' w = Some (Inr (filter ?P (zone w)), w1) \<and> zone w1 = zone w" for w
    using paginate_lists [OF assms(1)] unfolding listDNSRecords_def n_def by blast
  have new: "cf_recordUpToDate (stored i ?req) ?req" "?P (stored i ?req)" for i
    by (simp_all add: cf_recordUpToDate_def stored_def priorityEqual_def cf_matches_def cf_request_def)
  have again: "\<exists>w2. cf_Upsert lib u r w1 = Some (None, w2) \<and> zone w2 = zone w1"
    if "filter ?P (zone w1) = cur # rest" "cf_recordUpToDate cur ?req" for w1 cur rest
    using list [of w1] cf_Upsert_cases(1) [OF _ assms(4,5) url] that unfolding n_def by metis
  obtain w1 where "listDNSRecords lib (cuClient u) (Type r) n '''' w = Some (Inr (filter ?P (zone w)), w1)" "zone w1 = zone w"
    using list by blast
  from cf_Upsert_on_zone [OF assms(2,3) refl this [unfolded n_def] assms(4,5) url new [unfolded n_def]] again
  show ?thesis unfolding n_def by blast
qed

section \<open>A sample zone\<close>

text \<open>
  The zone holds one record of another name and records of one name, each given by its identifier and
  whether it carries the new value.
\<close>

definition sample_cf_record :: Record where
  "sample_cf_record = zero_record\<lparr>Type := RecordTypeA, Name := ''nas'', Value := ''10.0.0.1'', TTL := 300\<rparr>"

definition sample_req :: dnsRecordRequest where
  "sample_req = cf_request ''nas.example.com'' sample_cf_record"

definition sample_other :: dnsRecord where
  "sample_other = zero_dnsRecord\<lparr>drID := ''o'', drType := ''A'', drName := ''www.example.com'', drContent := ''10.0.0.7''\<rparr>"

definition sample_item :: "string \<times> bool \<Rightarrow> dnsRecord" where
  "sample_item p = (if snd p then stored (CHR ''m'' # fst p) sample_req
     else (stored (CHR ''m'' # fst p) sample_req)\<lparr>drContent := ''10.0.0.2''\<rparr>)"

definition sample_zone :: "(string \<times> bool) list \<Rightarrow> dnsRecord list" where
  "sample_zone w = sample_other # (if length w \<le> 100 then map sample_item w else [])"

definition enc_record :: "dnsRecord \<Rightarrow> string" where
  "enc_record x = (if drName x = ''www.example.com'' then ''o''
     else if drContent x = ''10.0.0.1'' then CHR ''n'' # drID x else CHR ''f'' # drID x)"

definition dec_record :: "string \<Rightarrow> dnsRecord" where
  "dec_record s = (case s of CHR ''n'' # i \<Rightarrow> sample_item (tl i, True) | CHR ''f'' # i \<Rightarrow> sample_item (tl i, False)
     | _ \<Rightarrow> sample_other)"

definition sample_cf_lib :: cf_lib where
  "sample_cf_lib = \<lparr>cflUrlErr = (\<lambda>s. None),
     cflEnvelope = (\<lambda>s. Inr \<lparr>cfSuccess = True, cfErrors = [], cfResult = CHR ''r'' # s,
       cfTotalPages = int (page_count (dec_entries [] s))\<rparr>),
     cflZone = (\<lambda>s. Inr \<lparr>czID = ''z'', czName = ''example.com''\<rparr>),
     cflRecords = (\<lambda>s. Inr (map dec_record (dec_entries [] (tl s)))),
     cflRecord = (\<lambda>s. Inr zero_dnsRecord), cflBody = (\<lambda>req. ''body'')\<rparr>"

definition ok_answer :: "string \<Rightarrow> http_response" where
  "ok_answer s = \<lparr>respStatus = 200, respHeader = [], respBody = s\<rparr>"

definition sample_url :: string where
  "sample_url = apiBase @ ''/zones/z/dns_records''"

text \<open>The server; \<open>P\<close> is the filter its listing applies.\<close>

definition sample_cf_net :: "(dnsRecord \<Rightarrow> bool) \<Rightarrow> (string \<times> bool) list transport" where
  "sample_cf_net P req w =
     (let i = drop (length sample_url + 1) (rqURL req) in
      if rqMethod req = ''GET'' then (Inr (ok_answer (enc_entries (map enc_record (filter P (sample_zone w))))), w)
      else if rqMethod req = ''DELETE'' then
        (Inr (ok_answer ''''), if length w \<le> 100 then filter (\<lambda>p. CHR ''m'' # fst p \<noteq> i) w else w)
      else if rqMethod req = ''PUT'' then
        (Inr (ok_answer ''''), if length w \<le> 100 then map (\<lambda>p. if CHR ''m'' # fst p = i then (fst p, True) else p) w else w)
      else (Inr (ok_answer ''''), [(''1'', True)]))"

definition sample_cloudflare :: "(dnsRecord \<Rightarrow> bool) \<Rightarrow> (string \<times> bool) list cloudflare" where
  "sample_cloudflare P = \<lparr>cuName = ''cf'', cuClient = \<lparr>ccHttp = sample_cf_net P, ccZoneID = ''z'', ccBaseURL = apiBase\<rparr>,
     cuZoneName = ''example.com''\<rparr>"

lemma sample_fqdn: "fqdn ''example.com'' (Name sample_cf_record) = ''nas.example.com''"
  by (simp add: fqdn_def sample_cf_record_def has_suffix_def)

lemma enc_dec_sample: "x \<in> set (sample_zone w) \<Longrightarrow> dec_record (enc_record x) = x"
  by (auto simp: sample_zone_def enc_record_def dec_record_def sample_other_def sample_item_def stored_def sample_req_def
      cf_request_def sample_cf_record_def split: if_splits)

lemma sample_matches_short:
  assumes "\<not> P sample_other"
  shows "length (filter P (sample_zone w)) \<le> 100"
proof (cases "length w \<le> 100")
  case True
  with assms show ?thesis
    by (simp add: sample_zone_def filter_map order_trans [OF length_filter_le])
next
  case False
  with assms show ?thesis by (simp add: sample_zone_def)
qed

lemma sample_lists:
  assumes "\<not> P sample_other"
  shows "cf_lists sample_cf_lib (cuClient (sample_cloudflare P)) filt P sample_zone"
proof -
  have m: "map (dec_record \<circ> enc_record) (filter P (sample_zone w)) = filter P (sample_zone w)" for w
    by (rule map_idI) (auto simp: enc_dec_sample)
  have c: "k = 1" if "1 \<le> k" "k \<le> max 1 (page_count (filter P (sample_zone w)))" for k w
    using that sample_matches_short [where P = P and w = w, OF assms] by (auto simp: page_count_def max_def split: if_splits)
  have s: "page_slice (Suc 0) (filter P (sample_zone w)) = filter P (sample_zone w)" for w
    using sample_matches_short [where P = P and w = w, OF assms] by (simp add: page_slice_def)
  have l: "page_count (map enc_record xs) = page_count xs" for xs by (simp add: page_count_def)
  show ?thesis
    unfolding cf_lists_def
  proof (intro conjI allI impI)
    fix w k assume "1 \<le> k \<and> k \<le> max 1 (page_count (filter P (sample_zone w)))"
    then have "k = 1" using c by blast
    then show "\<exists>resp env w1. ccHttp (cuClient (sample_cloudflare P)) (page_request (cuClient (sample_cloudflare P)) filt (int k)) w = (Inr resp, w1) \<and>
          cflEnvelope sample_cf_lib (respBody resp) = Inr env \<and> cfSuccess env \<and> cfResult env \<noteq> '''' \<and>
          cflRecords sample_cf_lib (cfResult env) = Inr (page_slice k (filter P (sample_zone w))) \<and>
          cfTotalPages env = int (page_count (filter P (sample_zone w))) \<and> sample_zone w1 = sample_zone w"
      by (simp add: sample_cloudflare_def sample_cf_net_def page_request_def sample_cf_lib_def ok_answer_def s m l Let_def)
  qed (simp add: sample_cf_lib_def)
qed

definition sample_P :: "dnsRecord \<Rightarrow> bool" where
  "sample_P rec \<longleftrightarrow> drName rec = ''nas.example.com''"

lemma sample_P_other: "\<not> sample_P sample_other"
  by (simp add: sample_P_def sample_other_def)

lemma sample_P_item: "sample_P (sample_item p)"
  by (simp add: sample_P_def sample_item_def stored_def sample_req_def cf_request_def)

lemma filter_sample_P: "length w \<le> 100 \<Longrightarrow> filter sample_P (sample_zone w) = map sample_item w"
  by (simp add: sample_zone_def sample_P_other filter_map o_def sample_P_item)

theorem paginate_complete_witness:
  "\<exists>w1. paginateDNSRecords sample_cf_lib (cuClient (sample_cloudflare sample_P))
      [(''name'', ''nas.example.com'')] [(''1'', True), (''2'', False)]
    = Some (Inr [sample_item (''1'', True), sample_item (''2'', False)], w1)"
  using paginate_complete [OF sample_lists [where P = sample_P and filt = "[(''name'', ''nas.example.com'')]", OF sample_P_other],
      of "[(''1'', True), (''2'', False)]"]
  by (auto simp: filter_sample_P)

lemma sample_ids: "drID (sample_item p) = CHR ''m'' # fst p"
  by (simp add: sample_item_def stored_def)

lemma sample_other_id: "drID sample_other = ''o''"
  by (simp add: sample_other_def)

lemma sample_ok: "cf_success sample_cf_lib (ok_answer '''')"
  by (simp add: cf_success_def sample_cf_lib_def ok_answer_def)

lemma sample_listed_id:
  assumes "\<not> P sample_other" "i \<in> drID ` set (filter P (sample_zone w))"
  shows "i \<noteq> ''o'' \<and> length w \<le> 100"
  using assms by (auto simp: sample_zone_def sample_ids split: if_splits)

lemma sample_deletes:
  assumes "\<not> P sample_other"
  shows "cf_deletes sample_cf_lib (cuClient (sample_cloudflare Q)) P sample_zone"
  unfolding cf_deletes_def
proof (intro allI impI)
  fix w i assume "i \<in> drID ` set (filter P (sample_zone w))"
  then have i: "i \<noteq> ''o''" "length w \<le> 100" using sample_listed_id [where P = P, OF assms] by blast+
  let ?w1 = "filter (\<lambda>p. CHR ''m'' # fst p \<noteq> i) w"
  have "ccHttp (cuClient (sample_cloudflare Q)) (delete_request (cuClient (sample_cloudflare Q)) i) w = (Inr (ok_answer ''''), ?w1)"
    using i by (simp add: sample_cloudflare_def sample_cf_net_def delete_request_def records_path_def sample_url_def apiBase_def Let_def)
  moreover have "sample_zone ?w1 = filter (\<lambda>rec. drID rec \<noteq> i) (sample_zone w)"
    using i by (simp add: sample_zone_def sample_other_id sample_ids filter_map o_def order_trans [OF length_filter_le])
  ultimately show "\<exists>resp w1. ccHttp (cuClient (sample_cloudflare Q)) (delete_request (cuClient (sample_cloudflare Q)) i) w = (Inr resp, w1) \<and>
      cf_success sample_cf_lib resp \<and> sample_zone w1 = filter (\<lambda>rec. drID rec \<noteq> i) (sample_zone w)"
    using sample_ok by blast
qed

lemma sample_writes:
  assumes "\<not> P sample_other" "\<And>p. P (sample_item p)"
  shows "cf_writes sample_cf_lib (cuClient (sample_cloudflare Q)) sample_req P sample_zone"
  unfolding cf_writes_def
proof (intro conjI allI impI)
  fix w i assume "i \<in> drID ` set (filter P (sample_zone w))"
  then have i: "i \<noteq> ''o''" "length w \<le> 100" using sample_listed_id [where P = P, OF assms(1)] by blast+
  let ?w1 = "map (\<lambda>p. if CHR ''m'' # fst p = i then (fst p, True) else p) w"
  have "ccHttp (cuClient (sample_cloudflare Q)) (write_request (cuClient (sample_cloudflare Q)) ''PUT''
      (records_path (cuClient (sample_cloudflare Q)) @ ''/'' @ i) (cflBody sample_cf_lib sample_req)) w = (Inr (ok_answer ''''), ?w1)"
    using i by (simp add: sample_cloudflare_def sample_cf_net_def write_request_def records_path_def sample_url_def apiBase_def Let_def)
  moreover have "sample_zone ?w1 = map (\<lambda>rec. if drID rec = i then stored i sample_req else rec) (sample_zone w)"
  proof -
    have "(if drID (sample_item p) = i then stored i sample_req else sample_item p)
        = sample_item (if CHR ''m'' # fst p = i then (fst p, True) else p)" for p
      by (auto simp: sample_ids) (simp add: sample_item_def)
    with i show ?thesis by (simp add: sample_zone_def sample_other_id o_def)
  qed
  ultimately show "\<exists>resp w1. ccHttp (cuClient (sample_cloudflare Q)) (write_request (cuClient (sample_cloudflare Q)) ''PUT''
      (records_path (cuClient (sample_cloudflare Q)) @ ''/'' @ i) (cflBody sample_cf_lib sample_req)) w = (Inr resp, w1) \<and>
      cf_success sample_cf_lib resp \<and>
      sample_zone w1 = map (\<lambda>rec. if drID rec = i then stored i sample_req else rec) (sample_zone w)"
    using sample_ok by blast
next
  fix w assume "filter P (sample_zone w) = []"
  then have "sample_zone w = [sample_other]"
    using assms by (cases w) (auto simp: sample_zone_def split: if_splits)
  moreover have "sample_zone [(''1'', True)] = [sample_other, stored ''m1'' sample_req]"
    by (simp add: sample_zone_def sample_item_def)
  moreover have "ccHttp (cuClient (sample_cloudflare Q)) (write_request (cuClient (sample_cloudflare Q)) ''POST''
      (records_path (cuClient (sample_cloudflare Q))) (cflBody sample_cf_lib sample_req)) w = (Inr (ok_answer ''''), [(''1'', True)])"
    by (simp add: sample_cloudflare_def sample_cf_net_def write_request_def Let_def)
  ultimately show "\<exists>resp w1 i. ccHttp (cuClient (sample_cloudflare Q)) (write_request (cuClient (sample_cloudflare Q)) ''POST''
      (records_path (cuClient (sample_cloudflare Q))) (cflBody sample_cf_lib sample_req)) w = (Inr resp, w1) \<and>
      cf_success sample_cf_lib resp \<and> sample_zone w1 = sample_zone w @ [stored i sample_req]"
    using sample_ok by (intro exI [of _ "ok_answer ''''"] exI [of _ "[(''1'', True)]"] exI [of _ "''m1''"]) simp
qed

definition sample_match :: "string \<Rightarrow> dnsRecord \<Rightarrow> bool" where
  "sample_match v = cf_matches (Type sample_cf_record) (fqdn (cuZoneName (sample_cloudflare sample_P)) (Name sample_cf_record)) v"

lemma sample_match_simps:
  "\<not> sample_match v sample_other" "sample_match '''' (sample_item p)"
  "sample_match ''10.0.0.1'' (sample_item p) \<longleftrightarrow> snd p"
  unfolding sample_match_def sample_cloudflare_def cloudflare.simps sample_fqdn
  by (auto simp: cf_matches_def sample_other_def sample_item_def stored_def sample_req_def cf_request_def sample_cf_record_def)

lemma sample_two: "distinct (map drID (sample_zone [(''1'', True), (''2'', False)]))"
  by (simp add: sample_zone_def sample_ids sample_other_id)

theorem cf_delete_exact_witness:
  "\<exists>w1. cf_Delete sample_cf_lib (sample_cloudflare (sample_match ''10.0.0.1'')) sample_cf_record [(''1'', True), (''2'', False)]
      = Some (None, w1) \<and> sample_zone w1 = [sample_other, sample_item (''2'', False)]"
proof -
  let ?u = "sample_cloudflare (sample_match ''10.0.0.1'')"
  have v: "Value sample_cf_record = ''10.0.0.1''" by (simp add: sample_cf_record_def)
  have m: "cf_matches (Type sample_cf_record) (fqdn (cuZoneName ?u) (Name sample_cf_record)) (Value sample_cf_record)
      = sample_match ''10.0.0.1''"
    by (simp add: sample_match_def sample_cloudflare_def v)
  have f: "filter (\<lambda>rec. \<not> sample_match ''10.0.0.1'' rec) (sample_zone [(''1'', True), (''2'', False)])
      = [sample_other, sample_item (''2'', False)]"
    by (simp add: sample_zone_def sample_match_simps)
  show ?thesis
    using cf_delete_exact [of sample_cf_lib ?u sample_cf_record sample_zone "[(''1'', True), (''2'', False)]", unfolded m f]
      sample_lists [of "sample_match ''10.0.0.1''"] sample_deletes [of "sample_match ''10.0.0.1''"] sample_match_simps(1) sample_two
    by blast
qed

theorem cf_upsert_converges_witness:
  "\<exists>w1. cf_Upsert sample_cf_lib (sample_cloudflare (sample_match '''')) sample_cf_record [(''2'', False), (''3'', True)] = Some (None, w1)"
proof -
  let ?u = "sample_cloudflare (sample_match '''')"
  have m: "cf_matches (Type sample_cf_record) (fqdn (cuZoneName ?u) (Name sample_cf_record)) '''' = sample_match ''''"
    "cf_request (fqdn (cuZoneName ?u) (Name sample_cf_record)) sample_cf_record = sample_req"
    by (simp_all add: sample_match_def sample_cloudflare_def sample_fqdn sample_req_def)
  have d: "distinct (map drID (sample_zone [(''2'', False), (''3'', True)]))"
    by (simp add: sample_zone_def sample_ids sample_other_id)
  have t: "Type sample_cf_record \<noteq> RecordTypeSRV" "Type sample_cf_record \<noteq> RecordTypeCAA"
    by (simp_all add: sample_cf_record_def go_consts)
  show ?thesis
    using cf_upsert_converges [of sample_cf_lib ?u sample_cf_record sample_zone "[(''2'', False), (''3'', True)]", unfolded m]
      sample_lists [of "sample_match ''''"] sample_writes [of "sample_match ''''"] sample_match_simps(1,2) d t
    by blast
qed

end
