(* ===== verification/Envutil.thy ===== *)
theory Envutil
  imports Go_Strings
begin

text \<open>
  \<open>internal/envutil/envutil.go\<close>: the expansion of environment variables in configuration files, over
  a model of \<open>os.Expand\<close>. The environment is a map. Proved here: the strict expansion succeeds
  exactly when every variable referenced is set, then agrees with the lenient one, and otherwise
  names the missing variables in order.
\<close>

section \<open>The references of a text\<close>

type_synonym environ = "(string, string) go_map"

definition shell_special :: "char \<Rightarrow> bool" where
  "shell_special c \<longleftrightarrow> c \<in> set ''*#$@!?-0123456789''"

definition alpha_num :: "char \<Rightarrow> bool" where
  "alpha_num c \<longleftrightarrow> (let n = of_char c :: nat in
     n = 95 \<or> 48 \<le> n \<and> n \<le> 57 \<or> 97 \<le> n \<and> n \<le> 122 \<or> 65 \<le> n \<and> n \<le> 90)"

text \<open>
  \<open>getShellName\<close>: the name that follows a dollar sign, and how many bytes it takes. Bad syntax gives
  no name and some bytes, which are dropped; no name and no bytes leave the dollar sign.
\<close>

definition shell_name :: "string \<Rightarrow> string \<times> nat" where
  "shell_name s =
     (case s of
        [] \<Rightarrow> ('''', 0)
      | c # cs \<Rightarrow>
          if c = CHR ''{'' then
            (if 2 < length s \<and> shell_special (cs ! 0) \<and> cs ! 1 = CHR ''}'' then ([cs ! 0], 3)
             else
               (case index_byte cs (CHR ''}'') of
                  Some 0 \<Rightarrow> ('''', 2)
                | Some i \<Rightarrow> (take i cs, i + 2)
                | None \<Rightarrow> ('''', 1)))
          else if shell_special c then ([c], 1)
          else (let name = takeWhile alpha_num s in (name, length name)))"

text \<open>The text as literal bytes and references, in order.\<close>

datatype env_item = Lit char | Ref string

function env_items :: "string \<Rightarrow> env_item list" where
  "env_items [] = []"
| "env_items (c # cs) =
     (if c = CHR ''$'' \<and> cs \<noteq> [] then
        (case shell_name cs of (name, w) \<Rightarrow>
           (if name = '''' then (if 0 < w then [] else [Lit c]) else [Ref name]) @ env_items (drop w cs))
      else Lit c # env_items cs)"
  by pat_completeness auto

termination
  by (relation "measure length") auto

definition os_expand :: "string \<Rightarrow> (string \<Rightarrow> string) \<Rightarrow> string" where
  "os_expand s mapping = concat (map (\<lambda>i. case i of Lit c \<Rightarrow> [c] | Ref n \<Rightarrow> mapping n) (env_items s))"

text \<open>The names \<open>os.Expand\<close> hands to its function, in the order of the calls.\<close>

definition expand_refs :: "string \<Rightarrow> string list" where
  "expand_refs s = concat (map (\<lambda>i. case i of Lit c \<Rightarrow> [] | Ref n \<Rightarrow> [n]) (env_items s))"

section \<open>Expand and ExpandLenient\<close>

definition Expand :: "environ \<Rightarrow> string \<Rightarrow> error + string" where
  "Expand env s =
     (let missing = filter (\<lambda>key. map_of env key = None) (expand_refs s);
          expanded = os_expand s (\<lambda>key. case map_of env key of None \<Rightarrow> '''' | Some v \<Rightarrow> v)
      in if missing \<noteq> [] then Inl (OtherError (''missing required environment variables: '' @ join '', '' missing))
         else Inr expanded)"

definition ExpandLenient :: "environ \<Rightarrow> string \<Rightarrow> string" where
  "ExpandLenient env s = os_expand s (\<lambda>key. go_get '''' env key)"

lemma ExpandLenient_plain: "CHR ''$'' \<notin> set s \<Longrightarrow> ExpandLenient env s = s"
proof -
  have "CHR ''$'' \<notin> set s \<Longrightarrow> env_items s = map Lit s"
    by (induction s) auto
  then show "CHR ''$'' \<notin> set s \<Longrightarrow> ExpandLenient env s = s"
    by (simp add: ExpandLenient_def os_expand_def o_def)
qed

text \<open>The two expansions agree wherever the strict one succeeds.\<close>

lemma Expand_iff:
  "Expand env s = Inr t \<longleftrightarrow>
     (\<forall>key \<in> set (expand_refs s). map_of env key \<noteq> None) \<and> t = ExpandLenient env s"
  by (auto simp: Expand_def ExpandLenient_def go_get_def Let_def filter_empty_conv)

lemma Expand_error:
  "Expand env s = Inl e \<longleftrightarrow>
     (\<exists>key \<in> set (expand_refs s). map_of env key = None) \<and>
     e = OtherError (''missing required environment variables: '' @
           join '', '' (filter (\<lambda>key. map_of env key = None) (expand_refs s)))"
  by (auto simp: Expand_def Let_def filter_empty_conv)

end
