(* ===== verification/Yaml_Source.thy ===== *)
theory Yaml_Source
  imports Validate Collect Envutil
begin

text \<open>
  \<open>pkg/source/yaml/yaml.go\<close>: reading DNS records from the YAML files of a glob, and the watch loop
  of \<open>Notify\<close>. The YAML decoder (\<open>goccy/go-yaml\<close>) and the calls of the operating system (glob,
  stat, read, environment, file events) are arguments; \<open>filepath.Dir\<close> and \<open>filepath.Clean\<close> are those
  of Unix. Logging is left out. Proved here: what a file gives, with the precedence of the four
  places a TTL, priority or comment can come from; when a snapshot succeeds and what it returns;
  the directory that is watched is found after finitely many steps; a change is never forgotten
  by the watch loop.
\<close>

section \<open>Paths\<close>

fun path_split :: "string \<Rightarrow> string \<Rightarrow> string list" where
  "path_split w [] = [w]"
| "path_split w (c # cs) = (if c = CHR ''/'' then w # path_split [] cs else path_split (w @ [c]) cs)"

text \<open>The elements of a cleaned path, last first.\<close>

fun clean_elems :: "bool \<Rightarrow> string list \<Rightarrow> string list \<Rightarrow> string list" where
  "clean_elems rooted stack [] = stack"
| "clean_elems rooted stack (c # cs) =
     (if c = '''' \<or> c = ''.'' then clean_elems rooted stack cs
      else if c = ''..'' then
        (case stack of
           [] \<Rightarrow> clean_elems rooted (if rooted then [] else [''..'']) cs
         | e # es \<Rightarrow> if e = ''..'' then clean_elems rooted (''..'' # e # es) cs else clean_elems rooted es cs)
      else clean_elems rooted (c # stack) cs)"

definition path_clean :: "string \<Rightarrow> string" where
  "path_clean p =
     (let rooted = (p \<noteq> '''' \<and> hd p = CHR ''/'');
          body = join ''/'' (rev (clean_elems rooted [] (path_split [] p)))
      in if rooted then CHR ''/'' # body else if body = '''' then ''.'' else body)"

definition path_dir :: "string \<Rightarrow> string" where
  "path_dir p = path_clean (rev (dropWhile (\<lambda>c. c \<noteq> CHR ''/'') (rev p)))"

definition hasMeta :: "string \<Rightarrow> bool" where
  "hasMeta s \<longleftrightarrow> contains_any s ''*?[''"

text \<open>A parent directory that still has metacharacters is shorter.\<close>

definition weight :: "string list \<Rightarrow> nat" where
  "weight xs = sum_list (map (\<lambda>x. Suc (length x)) xs)"

lemma weight_simps [simp]:
  "weight [] = 0" "weight (x # xs) = Suc (length x) + weight xs" "weight (xs @ ys) = weight xs + weight ys"
  "weight (rev xs) = weight xs"
  by (simp_all add: weight_def rev_map sum_list_rev flip: rev_map)

lemma weight_split: "weight (path_split w s) = Suc (length w + length s)"
  by (induction w s rule: path_split.induct) simp_all

lemma path_split_snoc: "path_split w (s @ ''/'') = path_split w s @ ['''']"
  by (induction w s rule: path_split.induct) simp_all

lemma weight_clean:
  "weight (clean_elems rooted stack cs) \<le> weight stack + weight (filter (\<lambda>c. c \<noteq> '''') cs)"
proof (induction rooted stack cs rule: clean_elems.induct)
  case (2 rooted stack c cs)
  then show ?case by (auto split: list.splits)
qed simp

lemma length_join: "xs \<noteq> [] \<Longrightarrow> Suc (length (join ''/'' xs)) = weight xs"
  by (induction "''/''" xs rule: join.induct) simp_all

lemma weight_nonempty: "weight (filter (\<lambda>c. c \<noteq> '''') cs) + count_list cs '''' = weight cs"
  by (induction cs) auto

lemma path_clean_shorter:
  assumes "hasMeta (path_clean (p @ ''/''))"
  shows "length (path_clean (p @ ''/'')) < length (p @ ''/'')"
proof -
  let ?cs = "path_split [] (p @ ''/'')"
  let ?rooted = "p @ ''/'' \<noteq> '''' \<and> hd (p @ ''/'') = CHR ''/''"
  let ?out = "rev (clean_elems ?rooted [] ?cs)"
  have w: "weight ?out + count_list ?cs '''' \<le> Suc (length (p @ ''/''))"
    using weight_clean [of ?rooted "[]" ?cs] weight_nonempty [of ?cs] weight_split [of "[]" "p @ ''/''"] by simp
  have e: "1 \<le> count_list ?cs ''''" unfolding path_split_snoc by simp
  have ne: "?out \<noteq> []"
  proof
    assume n: "?out = []"
    then have "path_clean (p @ ''/'') \<in> {''/'', ''.''}"
      unfolding path_clean_def Let_def n by (cases ?rooted) simp_all
    with assms show False by (auto simp: hasMeta_def contains_any_def)
  qed
  show ?thesis
  proof (cases ?rooted)
    case True
    then have "p = [] \<or> (\<exists>q. p = CHR ''/'' # q)" by (cases p) auto
    then have "2 \<le> count_list ?cs ''''"
    proof
      assume "p = []"
      then show ?thesis by simp
    next
      assume "\<exists>q. p = CHR ''/'' # q"
      then obtain q where q: "p = CHR ''/'' # q" by blast
      show ?thesis unfolding path_split_snoc unfolding q by simp
    qed
    moreover have "length (path_clean (p @ ''/'')) = weight ?out"
      using True length_join [OF ne] unfolding path_clean_def Let_def by simp
    ultimately show ?thesis using w by linarith
  next
    case False
    then have "path_clean (p @ ''/'') = join ''/'' ?out \<or> path_clean (p @ ''/'') = ''.''"
      unfolding path_clean_def Let_def by simp
    with assms have "length (path_clean (p @ ''/'')) = length (join ''/'' ?out)"
      by (auto simp: hasMeta_def contains_any_def)
    then show ?thesis using length_join [OF ne] w e by linarith
  qed
qed

lemma path_dir_shorter:
  assumes "hasMeta (path_dir d)"
  shows "length (path_dir d) < length d"
proof -
  let ?q = "dropWhile (\<lambda>c. c \<noteq> CHR ''/'') (rev d)"
  show ?thesis
  proof (cases ?q)
    case Nil
    then have "path_dir d = ''.''" unfolding path_dir_def Nil by (simp add: path_clean_def)
    with assms show ?thesis by (simp add: hasMeta_def contains_any_def)
  next
    case (Cons c r)
    then have "c = CHR ''/''" using hd_dropWhile [of "\<lambda>c. c \<noteq> CHR ''/''" "rev d"] by simp
    then have q: "rev ?q = rev r @ ''/''" using Cons by simp
    have "length (rev r @ ''/'') \<le> length d"
      using length_dropWhile_le [of "\<lambda>c. c \<noteq> CHR ''/''" "rev d"] unfolding Cons by simp
    with assms path_clean_shorter [of "rev r"] show ?thesis
      unfolding path_dir_def q by linarith
  qed
qed

function static_dir_from :: "string \<Rightarrow> string" where
  "static_dir_from dir =
     (if hasMeta dir then
        (let parent = path_dir dir in if parent = dir then dir else static_dir_from parent)
      else dir)"
  by pat_completeness auto

termination
  by (relation "measure (\<lambda>d. if hasMeta d then Suc (length d) else 0)") (auto dest: path_dir_shorter)

declare static_dir_from.simps [simp del]

definition staticGlobDir :: "string \<Rightarrow> string" where
  "staticGlobDir glob = static_dir_from (path_dir glob)"

text \<open>The directory found has no metacharacters: the search only ends otherwise at a fixed point.\<close>

lemma staticGlobDir_plain: "\<not> hasMeta (staticGlobDir glob)"
proof -
  have "\<not> hasMeta (static_dir_from d)" for d
  proof (induction d rule: static_dir_from.induct)
    case (1 dir)
    show ?case
      using 1 path_dir_shorter [of dir] by (subst static_dir_from.simps) (auto simp: Let_def)
  qed
  then show ?thesis by (simp add: staticGlobDir_def)
qed


section \<open>Files\<close>

record upstreamFields =
  ufType :: string
  ufName :: string
  ufValue :: string
  ufTTL :: string
  ufPriority :: string
  ufComment :: string

record fileRecord =
  frTTL :: int
  frPriority :: int
  frComment :: string
  frUpstream :: "(string, upstreamFields) go_map"

record fileSchema =
  fsDefaults :: BaseRecord
  fsRecords :: "(string, fileRecord) go_map"

record yaml_source =
  ysName :: string
  ysGlob :: string
  ysDefaults :: BaseRecord
  ysStrict :: bool
  ysStrictValidation :: bool

text \<open>
  What the source asks of the system: the calls of \<open>filepath.Glob\<close>, \<open>os.Stat\<close> (\<open>None\<close> for no
  error) and \<open>os.ReadFile\<close> see the state of the world, which may have changed between two calls;
  the environment is fixed while the program runs; \<open>yaml.Unmarshal\<close> is a function of the text.
\<close>

record 'w yaml_sys =
  sysGlob :: "string \<Rightarrow> 'w \<Rightarrow> (error + string list) \<times> 'w"
  sysStat :: "string \<Rightarrow> 'w \<Rightarrow> error option \<times> 'w"
  sysReadFile :: "string \<Rightarrow> 'w \<Rightarrow> (error + string) \<times> 'w"
  sysEnviron :: environ
  sysUnmarshal :: "string \<Rightarrow> error + fileSchema"

record yaml_orders =
  yoRecords :: "(string \<times> fileRecord) iteration"
  yoUpstreams :: "string \<Rightarrow> (string \<times> upstreamFields) iteration"

definition mergeBase :: "BaseRecord \<Rightarrow> BaseRecord \<Rightarrow> BaseRecord" where
  "mergeBase base override =
     (let base = (if TTL override \<noteq> 0 then base\<lparr>TTL := TTL override\<rparr> else base);
          base = (if Priority override \<noteq> 0 then base\<lparr>Priority := Priority override\<rparr> else base)
      in if Comment override \<noteq> '''' then base\<lparr>Comment := Comment override\<rparr> else base)"

definition record_base :: "BaseRecord \<Rightarrow> fileRecord \<Rightarrow> BaseRecord" where
  "record_base base entry =
     (let base = (if frTTL entry \<noteq> 0 then base\<lparr>TTL := frTTL entry\<rparr> else base);
          base = (if frPriority entry \<noteq> 0 then base\<lparr>Priority := frPriority entry\<rparr> else base)
      in if frComment entry \<noteq> '''' then base\<lparr>Comment := frComment entry\<rparr> else base)"

definition yaml_record ::
  "string \<Rightarrow> string \<Rightarrow> BaseRecord \<Rightarrow> string \<Rightarrow> string \<Rightarrow> upstreamFields \<Rightarrow> Record" where
  "yaml_record sourceName path base recordID upstreamName fs =
     (let r = zero_record\<lparr>TTL := TTL base, Priority := Priority base, Comment := Comment base,
            ID := recordID, SourceID := path, SourceName := sourceName, Upstream := upstreamName,
            Type := to_upper (ufType fs), Name := ufName fs, Value := ufValue fs\<rparr>;
          r = (if ufTTL fs \<noteq> '''' then r\<lparr>TTL := atoi_or (TTL r) (ufTTL fs)\<rparr> else r);
          r = (if ufPriority fs \<noteq> '''' then r\<lparr>Priority := atoi_or (Priority r) (ufPriority fs)\<rparr> else r)
      in if ufComment fs \<noteq> '''' then r\<lparr>Comment := ufComment fs\<rparr> else r)"

definition yaml_path :: "string \<Rightarrow> string \<Rightarrow> string \<Rightarrow> string" where
  "yaml_path path recordID upstreamName =
     ''yaml://'' @ path @ ''/records/'' @ recordID @ ''/'' @ upstreamName"

text \<open>The two nested loops of \<open>parseFile\<close>, with the slice they append to.\<close>

fun parse_upstreams ::
  "go_lib \<Rightarrow> bool \<Rightarrow> string \<Rightarrow> string \<Rightarrow> BaseRecord \<Rightarrow> string \<Rightarrow> (string \<times> upstreamFields) list
     \<Rightarrow> Record list \<Rightarrow> error + Record list" where
  "parse_upstreams lib strictValidation sn path base rid [] acc = Inr acc"
| "parse_upstreams lib strictValidation sn path base rid ((up, fs) # rest) acc =
     (let r = yaml_record sn path base rid up fs;
          errs = validate_record lib r (yaml_path path rid up)
      in if errs \<noteq> [] then
           (if strictValidation then Inl (OtherError (ve_error_text errs))
            else parse_upstreams lib strictValidation sn path base rid rest acc)
         else parse_upstreams lib strictValidation sn path base rid rest (acc @ [r]))"

fun parse_records ::
  "go_lib \<Rightarrow> yaml_orders \<Rightarrow> bool \<Rightarrow> string \<Rightarrow> string \<Rightarrow> BaseRecord \<Rightarrow> (string \<times> fileRecord) list
     \<Rightarrow> Record list \<Rightarrow> error + Record list" where
  "parse_records lib ord strictValidation sn path base [] acc = Inr acc"
| "parse_records lib ord strictValidation sn path base ((rid, entry) # rest) acc =
     (case parse_upstreams lib strictValidation sn path (record_base base entry) rid
             (iterate (yoUpstreams ord rid) (frUpstream entry)) acc of
        Inl err \<Rightarrow> Inl err
      | Inr acc' \<Rightarrow> parse_records lib ord strictValidation sn path base rest acc')"

definition yaml_expand :: "environ \<Rightarrow> bool \<Rightarrow> string \<Rightarrow> error + string" where
  "yaml_expand env strict raw = (if strict then Expand env raw else Inr (ExpandLenient env raw))"

definition parse_schema ::
  "go_lib \<Rightarrow> yaml_orders \<Rightarrow> string \<Rightarrow> string \<Rightarrow> BaseRecord \<Rightarrow> bool \<Rightarrow> fileSchema \<Rightarrow> error + Record list" where
  "parse_schema lib ord sourceName path globalDefaults strictValidation f =
     parse_records lib ord strictValidation sourceName path (mergeBase globalDefaults (fsDefaults f))
       (iterate (yoRecords ord) (fsRecords f)) []"

definition parseFile ::
  "go_lib \<Rightarrow> yaml_orders \<Rightarrow> 'w yaml_sys \<Rightarrow> string \<Rightarrow> string \<Rightarrow> BaseRecord \<Rightarrow> bool \<Rightarrow> bool \<Rightarrow> 'w
     \<Rightarrow> (error + Record list) \<times> 'w" where
  "parseFile lib ord sys sourceName path globalDefaults strict strictValidation w =
     (case sysReadFile sys path w of
        (Inl err, w1) \<Rightarrow> (Inl err, w1)
      | (Inr raw, w1) \<Rightarrow>
          (case yaml_expand (sysEnviron sys) strict raw of
             Inl err \<Rightarrow> (Inl err, w1)
           | Inr expanded \<Rightarrow>
               (case sysUnmarshal sys expanded of
                  Inl err \<Rightarrow> (Inl err, w1)
                | Inr f \<Rightarrow>
                    (parse_schema lib ord sourceName path globalDefaults strictValidation f, w1))))"

section \<open>Snapshot\<close>

fun parse_files ::
  "go_lib \<Rightarrow> (string \<Rightarrow> yaml_orders) \<Rightarrow> 'w yaml_sys \<Rightarrow> yaml_source \<Rightarrow> string list \<Rightarrow> Record list \<Rightarrow> 'w
     \<Rightarrow> (error + Record list) \<times> 'w" where
  "parse_files lib ord sys src [] acc w = (Inr acc, w)"
| "parse_files lib ord sys src (f # fs) acc w =
     (case parseFile lib (ord f) sys (ysName src) f (ysDefaults src) (ysStrict src) (ysStrictValidation src) w of
        (Inl err, w1) \<Rightarrow> (Inl (Wrapped (''parse '' @ go_quote f @ '': '') err ''''), w1)
      | (Inr records, w1) \<Rightarrow> parse_files lib ord sys src fs (acc @ records) w1)"

definition yaml_Snapshot ::
  "go_lib \<Rightarrow> (string \<Rightarrow> yaml_orders) \<Rightarrow> 'w yaml_sys \<Rightarrow> yaml_source \<Rightarrow> 'w
     \<Rightarrow> (error + Record list) outcome \<times> 'w" where
  "yaml_Snapshot lib ord sys src w =
     (case sysGlob sys (ysGlob src) w of
        (Inl err, w1) \<Rightarrow>
          (Returned (Inl (Wrapped (''glob '' @ go_quote (ysGlob src) @ '': '') err '''')), w1)
      | (Inr files, w1) \<Rightarrow>
          if files = [] then
            (let dir = staticGlobDir (ysGlob src) in
             case sysStat sys dir w1 of
               (Some statErr, w2) \<Rightarrow>
                 (Returned (Inl (Wrapped (''yaml source base dir '' @ go_quote dir @ '' unavailable: '') statErr '''')), w2)
             | (None, w2) \<Rightarrow> (Returned (Inr []), w2))
          else
            (case parse_files lib ord sys src files [] w1 of (result, w2) \<Rightarrow> (Returned result, w2)))"

definition yaml_snapshotter ::
  "go_lib \<Rightarrow> (string \<Rightarrow> yaml_orders) \<Rightarrow> 'w yaml_sys \<Rightarrow> yaml_source \<Rightarrow> 'w snapshotter" where
  "yaml_snapshotter lib ord sys src = \<lparr>snapName = ysName src, snapSnapshot = yaml_Snapshot lib ord sys src\<rparr>"

section \<open>What a file declares\<close>

text \<open>A number given for the upstream, then for the record, then for the file, then for the source.\<close>

definition chosen_int :: "int \<Rightarrow> int \<Rightarrow> int \<Rightarrow> string \<Rightarrow> int" where
  "chosen_int source file entry upstream =
     (case atoi upstream of
        (n, True) \<Rightarrow> n
      | (n, False) \<Rightarrow> if entry \<noteq> 0 then entry else if file \<noteq> 0 then file else source)"

definition chosen_str :: "string \<Rightarrow> string \<Rightarrow> string \<Rightarrow> string \<Rightarrow> string" where
  "chosen_str source file entry upstream =
     (if upstream \<noteq> '''' then upstream else if entry \<noteq> '''' then entry
      else if file \<noteq> '''' then file else source)"

definition declared_record ::
  "string \<Rightarrow> string \<Rightarrow> BaseRecord \<Rightarrow> BaseRecord \<Rightarrow> string \<Rightarrow> fileRecord \<Rightarrow> string \<Rightarrow> upstreamFields \<Rightarrow> Record" where
  "declared_record sn path src file rid e up u =
     zero_record\<lparr>TTL := chosen_int (TTL src) (TTL file) (frTTL e) (ufTTL u),
       Priority := chosen_int (Priority src) (Priority file) (frPriority e) (ufPriority u),
       Comment := chosen_str (Comment src) (Comment file) (frComment e) (ufComment u),
       ID := rid, SourceID := path, SourceName := sn, Upstream := up,
       Type := to_upper (ufType u), Name := ufName u, Value := ufValue u\<rparr>"

definition declared_records :: "string \<Rightarrow> string \<Rightarrow> BaseRecord \<Rightarrow> fileSchema \<Rightarrow> Record multiset" where
  "declared_records sn path src f =
     (\<Sum>(rid, e) \<in># mset (fsRecords f).
        image_mset (\<lambda>(up, u). declared_record sn path src (fsDefaults f) rid e up u) (mset (frUpstream e)))"

lemma atoi_empty: "atoi '''' = (0, False)"
  by (simp add: atoi_def atoi_signed_def parse_nat_def)

text \<open>The two merging steps, setting by setting.\<close>

lemma mergeBase_fields:
  "TTL (mergeBase base override) = (if TTL override \<noteq> 0 then TTL override else TTL base)"
  "Priority (mergeBase base override)
     = (if Priority override \<noteq> 0 then Priority override else Priority base)"
  "Comment (mergeBase base override)
     = (if Comment override \<noteq> '''' then Comment override else Comment base)"
  by (simp_all add: mergeBase_def Let_def)

lemma record_base_fields:
  "TTL (record_base base e) = (if frTTL e \<noteq> 0 then frTTL e else TTL base)"
  "Priority (record_base base e) = (if frPriority e \<noteq> 0 then frPriority e else Priority base)"
  "Comment (record_base base e) = (if frComment e \<noteq> '''' then frComment e else Comment base)"
  by (simp_all add: record_base_def Let_def)

lemma yaml_record_declared:
  "yaml_record sn path (record_base (mergeBase src file) e) rid up u
     = declared_record sn path src file rid e up u"
  by (simp add: yaml_record_def declared_record_def mergeBase_fields record_base_fields chosen_int_def
      chosen_str_def atoi_or_def atoi_empty Let_def split: prod.splits bool.splits)

text \<open>
  The result of a list of candidate records: the valid ones appended, or, under strict validation,
  the failures of an invalid one.
\<close>

definition candidates_result ::
  "go_lib \<Rightarrow> bool \<Rightarrow> string \<Rightarrow> Record list \<Rightarrow> Record list \<Rightarrow> error + Record list \<Rightarrow> bool" where
  "candidates_result lib sv path acc cands out \<longleftrightarrow>
     (if sv \<and> (\<exists>r \<in> set cands. \<not> valid_record r)
      then \<exists>r \<in> set cands. \<not> valid_record r \<and>
        out = Inl (OtherError (ve_error_text (validate_record lib r (yaml_path path (ID r) (Upstream r)))))
      else out = Inr (acc @ filter valid_record cands))"

lemma validate_record_iff: "validate_record lib r path = [] \<longleftrightarrow> valid_record r"
  unfolding validate_record_def by (rule record_valid_iff)

lemma yaml_record_ids [simp]:
  "ID (yaml_record sn path base rid up fs) = rid" "Upstream (yaml_record sn path base rid up fs) = up"
  by (simp_all add: yaml_record_def Let_def)

lemma parse_upstreams_result:
  "candidates_result lib sv path acc (map (\<lambda>(up, fs). yaml_record sn path base rid up fs) ups)
     (parse_upstreams lib sv sn path base rid ups acc)"
proof (induction ups arbitrary: acc)
  case Nil
  show ?case by (simp add: candidates_result_def)
next
  case (Cons x ups)
  obtain up fs where x: "x = (up, fs)" by (cases x)
  show ?case
    using Cons [of acc] Cons [of "acc @ [yaml_record sn path base rid up fs]"]
    unfolding x candidates_result_def by (auto simp: Let_def validate_record_iff split: if_splits)
qed

lemma candidates_append:
  assumes "candidates_result lib sv path acc xs out"
    and "\<And>acc'. out = Inr acc' \<Longrightarrow> candidates_result lib sv path acc' ys (k acc')"
  shows "candidates_result lib sv path acc (xs @ ys) (case out of Inl e \<Rightarrow> Inl e | Inr acc' \<Rightarrow> k acc')"
  using assms unfolding candidates_result_def by (cases out) (auto split: if_splits)

lemma parse_records_result:
  "candidates_result lib sv path acc
     (concat (map (\<lambda>(rid, e). map (\<lambda>(up, fs). yaml_record sn path (record_base base e) rid up fs)
        (iterate (yoUpstreams ord rid) (frUpstream e))) recs))
     (parse_records lib ord sv sn path base recs acc)"
proof (induction recs arbitrary: acc)
  case Nil
  show ?case by (simp add: candidates_result_def)
next
  case (Cons x recs)
  obtain rid e where x: "x = (rid, e)" by (cases x)
  show ?case
    unfolding x parse_records.simps list.map concat.simps case_prod_conv
    by (rule candidates_append [OF parse_upstreams_result Cons])
qed

lemma mset_concat_pairs:
  "mset (concat (map (\<lambda>(a, b). map (h a b) (g a b)) xs))
     = (\<Sum>(a, b) \<in># mset xs. image_mset (h a b) (mset (g a b)))"
  by (induction xs) auto

lemma parse_schema_result:
  "\<exists>cands. mset cands = declared_records sn path src f \<and>
     candidates_result lib sv path [] cands (parse_schema lib ord sn path src sv f)"
proof (intro exI conjI)
  let ?base = "mergeBase src (fsDefaults f)"
  let ?cands = "concat (map (\<lambda>(rid, e). map (\<lambda>(up, fs). yaml_record sn path (record_base ?base e) rid up fs)
        (iterate (yoUpstreams ord rid) (frUpstream e))) (iterate (yoRecords ord) (fsRecords f)))"
  show "candidates_result lib sv path [] ?cands (parse_schema lib ord sn path src sv f)"
    unfolding parse_schema_def by (rule parse_records_result)
  show "mset ?cands = declared_records sn path src f"
    unfolding mset_concat_pairs mset_iterate declared_records_def yaml_record_declared ..
qed

text \<open>What reading a file comes to: its content, if any, expanded and decoded.\<close>

definition load_schema :: "'w yaml_sys \<Rightarrow> bool \<Rightarrow> error + string \<Rightarrow> error + fileSchema" where
  "load_schema sys strict content =
     (case content of
        Inl e \<Rightarrow> Inl e
      | Inr raw \<Rightarrow>
          (case yaml_expand (sysEnviron sys) strict raw of
             Inl e \<Rightarrow> Inl e
           | Inr text \<Rightarrow> sysUnmarshal sys text))"

text \<open>
  C22. Reading a YAML file, exactly. The file declares one record for every record id and upstream
  in it; its TTL is the number given for the upstream if there is one, else the record's, else the
  file's default, else the source's, and the same for priority and comment. With lenient
  validation the result is the declared records that are valid, each as often as it is declared,
  in some order; with strict validation it is all of them, or an error that reports the failures
  of an invalid one. A file that cannot be read, expanded or decoded is an error.
\<close>

theorem parseFile_exact:
  assumes "sysReadFile sys path w = (content, w1)"
  shows "\<exists>out. parseFile lib ord sys sn path src strict sv w = (out, w1) \<and>
    (case load_schema sys strict content of
       Inl e \<Rightarrow> out = Inl e
     | Inr f \<Rightarrow>
         if sv \<and> (\<exists>r \<in># declared_records sn path src f. \<not> valid_record r)
         then \<exists>r \<in># declared_records sn path src f. \<not> valid_record r \<and>
           out = Inl (OtherError (ve_error_text (validate_record lib r (yaml_path path (ID r) (Upstream r)))))
         else \<exists>rs. out = Inr rs \<and> mset rs = filter_mset valid_record (declared_records sn path src f))"
proof (cases "load_schema sys strict content")
  case (Inl e)
  then show ?thesis using assms(1) unfolding load_schema_def parseFile_def by (auto split: sum.splits)
next
  case (Inr f)
  then have p: "parseFile lib ord sys sn path src strict sv w = (parse_schema lib ord sn path src sv f, w1)"
    using assms(1) unfolding load_schema_def parseFile_def by (auto split: sum.splits)
  obtain cands where c: "mset cands = declared_records sn path src f"
    "candidates_result lib sv path [] cands (parse_schema lib ord sn path src sv f)"
    using parse_schema_result by blast
  have m: "(\<exists>r \<in> set cands. P r) \<longleftrightarrow> (\<exists>r \<in># declared_records sn path src f. P r)" for P
    unfolding c(1) [symmetric] by simp
  show ?thesis
    using c(2) unfolding p Inr candidates_result_def m
    by (auto simp: c(1) [symmetric] split: if_splits)
qed

text \<open>A file with a record for two upstreams, one of them without a value.\<close>

definition sample_schema :: fileSchema where
  "sample_schema = \<lparr>fsDefaults = zero_base\<lparr>TTL := 600\<rparr>,
     fsRecords = [(''web'', \<lparr>frTTL = 0, frPriority = 5, frComment = '''',
       frUpstream = [(''pi'', \<lparr>ufType = ''a'', ufName = ''h'', ufValue = ''10.0.0.1'', ufTTL = ''60'',
                       ufPriority = '''', ufComment = ''''\<rparr>),
                     (''cf'', \<lparr>ufType = ''a'', ufName = ''h'', ufValue = '''', ufTTL = '''',
                       ufPriority = '''', ufComment = ''''\<rparr>)]\<rparr>)]\<rparr>"

definition sample_sys :: "unit yaml_sys" where
  "sample_sys = \<lparr>sysGlob = (\<lambda>g w. (Inr [''/d/a.yaml''], w)), sysStat = (\<lambda>d w. (None, w)),
     sysReadFile = (\<lambda>f w. (Inr ''text'', w)), sysEnviron = [], sysUnmarshal = (\<lambda>t. Inr sample_schema)\<rparr>"

definition plain_yaml :: yaml_orders where
  "plain_yaml = \<lparr>yoRecords = in_order, yoUpstreams = (\<lambda>_. in_order)\<rparr>"

definition sample_declared :: Record where
  "sample_declared = declared_record ''y'' ''/d/a.yaml'' zero_base (zero_base\<lparr>TTL := 600\<rparr>) ''web''
     (snd (hd (fsRecords sample_schema))) ''pi'' (snd (hd (frUpstream (snd (hd (fsRecords sample_schema))))))"

lemma atoi_60: "atoi ''60'' = (60, True)"
  by (simp add: atoi_def atoi_signed_def parse_nat_def char_digit_def Let_def min_int64_def max_int64_def)

theorem parseFile_exact_witness:
  "\<exists>rs. parseFile sample_lib plain_yaml sample_sys ''y'' ''/d/a.yaml'' zero_base False False ()
     = (Inr rs, ()) \<and> rs = [sample_declared] \<and> TTL sample_declared = 60 \<and> Priority sample_declared = 5"
proof -
  have a: "to_upper ''a'' = ''A''" by code_simp
  have r: "sysReadFile sample_sys ''/d/a.yaml'' () = (Inr ''text'', ())" by (simp add: sample_sys_def)
  have f: "TTL sample_declared = 60" "Priority sample_declared = 5" "valid_record sample_declared"
    by (simp_all add: sample_declared_def declared_record_def sample_schema_def zero_base_def chosen_int_def
        atoi_60 atoi_empty valid_record_def a record_types_def go_consts)
  have d: "filter_mset valid_record (declared_records ''y'' ''/d/a.yaml'' zero_base sample_schema) = {#sample_declared#}"
    using f(3) by (simp add: declared_records_def sample_schema_def sample_declared_def declared_record_def
        valid_record_def)
  have l: "sysUnmarshal sample_sys t = Inr sample_schema" for t by (simp add: sample_sys_def)
  from parseFile_exact [OF r, of sample_lib plain_yaml "''y''" zero_base False False] d f show ?thesis
    by (auto simp: load_schema_def yaml_expand_def l)
qed

lemma parse_files_Inr:
  "parse_files lib ord sys src files acc w = (Inr rs, w') \<Longrightarrow>
     \<exists>rss. rs = acc @ concat rss \<and>
       list_all2 (\<lambda>f recs. \<exists>w2 w3. parseFile lib (ord f) sys (ysName src) f (ysDefaults src) (ysStrict src)
         (ysStrictValidation src) w2 = (Inr recs, w3)) files rss"
proof (induction files arbitrary: acc w)
  case Nil
  then show ?case by (intro exI [of _ "[]"]) simp
next
  case (Cons f fs)
  then obtain recs w1 where p: "parseFile lib (ord f) sys (ysName src) f (ysDefaults src) (ysStrict src)
      (ysStrictValidation src) w = (Inr recs, w1)"
    and rest: "parse_files lib ord sys src fs (acc @ recs) w1 = (Inr rs, w')"
    by (auto split: prod.splits sum.splits)
  from Cons.IH [OF rest] obtain rss where "rs = (acc @ recs) @ concat rss"
    "list_all2 (\<lambda>f recs. \<exists>w2 w3. parseFile lib (ord f) sys (ysName src) f (ysDefaults src) (ysStrict src)
         (ysStrictValidation src) w2 = (Inr recs, w3)) fs rss" by blast
  with p show ?case by (intro exI [of _ "recs # rss"]) auto
qed

text \<open>A source whose directory cannot be listed always fails, so its last good records stay.\<close>

lemma yaml_always_fails:
  assumes "\<forall>w. \<exists>err w1. sysGlob sys (ysGlob src) w = (Inl err, w1)"
  shows "always_fails (yaml_snapshotter lib ord sys src)"
  unfolding always_fails_def
proof
  fix w
  from assms obtain err w1 where "sysGlob sys (ysGlob src) w = (Inl err, w1)" by blast
  then show "\<exists>err w1. snapSnapshot (yaml_snapshotter lib ord sys src) w = (Returned (Inl err), w1)"
    by (simp add: yaml_snapshotter_def yaml_Snapshot_def)
qed

text \<open>
  C23. What a successful snapshot stands for. Its records are, file by file, what the files matched
  by the glob declare; every one of them was read and parsed. When no file matched, the snapshot
  is empty and the directory of the glob was there. So deleting all records of a source is only
  ever asked for by files, or by a directory without files, never by a read that failed.
\<close>

theorem yaml_Snapshot_trusted:
  assumes "yaml_Snapshot lib ord sys src w = (Returned (Inr rs), w')"
  shows "\<exists>files w1. sysGlob sys (ysGlob src) w = (Inr files, w1) \<and>
    (if files = [] then rs = [] \<and> fst (sysStat sys (staticGlobDir (ysGlob src)) w1) = None
     else \<exists>rss. rs = concat rss \<and>
       list_all2 (\<lambda>f recs. \<exists>w2 w3. parseFile lib (ord f) sys (ysName src) f (ysDefaults src) (ysStrict src)
         (ysStrictValidation src) w2 = (Inr recs, w3)) files rss)"
proof -
  obtain files w1 where g: "sysGlob sys (ysGlob src) w = (Inr files, w1)"
    using assms by (auto simp: yaml_Snapshot_def split: prod.splits sum.splits)
  show ?thesis
  proof (cases "files = []")
    case True
    with g assms have "rs = [] \<and> fst (sysStat sys (staticGlobDir (ysGlob src)) w1) = None"
      by (auto simp: yaml_Snapshot_def Let_def split: prod.splits option.splits)
    with g True show ?thesis by auto
  next
    case False
    with g assms have "parse_files lib ord sys src files [] w1 = (Inr rs, w')"
      by (auto simp: yaml_Snapshot_def split: prod.splits)
    from parse_files_Inr [OF this] g False show ?thesis by auto
  qed
qed

text \<open>A directory that has vanished, and one that is empty.\<close>

definition bare_sys :: "error option \<Rightarrow> unit yaml_sys" where
  "bare_sys stat = sample_sys\<lparr>sysGlob := (\<lambda>g w. (Inr [], w)), sysStat := (\<lambda>d w. (stat, w))\<rparr>"

definition sample_yaml :: yaml_source where
  "sample_yaml = \<lparr>ysName = ''y'', ysGlob = ''/d/*.yaml'', ysDefaults = zero_base, ysStrict = False,
     ysStrictValidation = False\<rparr>"

theorem yaml_Snapshot_trusted_witness:
  "yaml_Snapshot sample_lib (\<lambda>_. plain_yaml) (bare_sys None) sample_yaml () = (Returned (Inr []), ()) \<and>
   \<not> (\<exists>rs. yaml_Snapshot sample_lib (\<lambda>_. plain_yaml) (bare_sys (Some (OtherError ''gone''))) sample_yaml () = (Returned (Inr rs), ()))"
proof
  show "yaml_Snapshot sample_lib (\<lambda>_. plain_yaml) (bare_sys None) sample_yaml () = (Returned (Inr []), ())"
    by (simp add: yaml_Snapshot_def bare_sys_def sample_sys_def Let_def)
  show "\<not> (\<exists>rs. yaml_Snapshot sample_lib (\<lambda>_. plain_yaml) (bare_sys (Some (OtherError ''gone''))) sample_yaml () = (Returned (Inr rs), ()))"
    using yaml_Snapshot_trusted [of sample_lib "\<lambda>_. plain_yaml" "bare_sys (Some (OtherError ''gone''))" sample_yaml "()" _ "()"]
    by (fastforce simp: bare_sys_def)
qed

section \<open>Globs\<close>

text \<open>
  \<open>filepath.Match\<close> on ASCII names: the pattern is parsed (\<open>None\<close> for \<open>ErrBadPattern\<close>), then matched;
  a star matches bytes other than the separator.
\<close>

datatype glob_item = GChar char | GAny | GStar | GClass bool "(char \<times> char) list"

fun get_esc :: "string \<Rightarrow> (char \<times> string) option" where
  "get_esc [] = None"
| "get_esc (c # cs) =
     (if c = CHR ''-'' \<or> c = CHR '']'' then None
      else if c = CHR 0x5C then (case cs of d # e # es \<Rightarrow> Some (d, e # es) | _ \<Rightarrow> None)
      else if cs = [] then None else Some (c, cs))"

lemma get_esc_shorter [termination_simp]: "get_esc s = Some (c, t) \<Longrightarrow> length t < length s"
  by (cases s) (auto split: if_splits list.splits)

function class_ranges :: "(char \<times> char) list \<Rightarrow> string \<Rightarrow> ((char \<times> char) list \<times> string) option" where
  "class_ranges acc s =
     (case s of
        [] \<Rightarrow> None
      | c # cs \<Rightarrow>
          if c = CHR '']'' \<and> acc \<noteq> [] then Some (acc, cs)
          else
            (case get_esc s of
               None \<Rightarrow> None
             | Some (lo, t) \<Rightarrow>
                 if hd t = CHR ''-'' then
                   (case get_esc (tl t) of
                      None \<Rightarrow> None
                    | Some (hi, u) \<Rightarrow> class_ranges (acc @ [(lo, hi)]) u)
                 else class_ranges (acc @ [(lo, lo)]) t))"
  by pat_completeness auto

termination
  by (relation "measure (\<lambda>(acc, s). length s)")
    (auto dest!: get_esc_shorter simp del: get_esc.simps)

declare class_ranges.simps [simp del]

lemma class_ranges_shorter: "class_ranges acc s = Some (rs, t) \<Longrightarrow> length t < length s"
proof (induction acc s rule: class_ranges.induct)
  case (1 acc s)
  show ?case
  proof (cases s)
    case Nil
    with 1(3) show ?thesis by (simp add: class_ranges.simps)
  next
    case (Cons c cs)
    show ?thesis
    proof (cases "c = CHR '']'' \<and> acc \<noteq> []")
      case True
      with 1(3) Cons show ?thesis by (simp add: class_ranges.simps)
    next
      case False
      with 1(3) Cons obtain lo u where e: "get_esc s = Some (lo, u)"
        by (subst (asm) class_ranges.simps) (auto simp del: get_esc.simps split: option.splits)
      show ?thesis
      proof (cases "hd u = CHR ''-''")
        case True
        with 1(3) Cons e \<open>\<not> (c = CHR '']'' \<and> acc \<noteq> [])\<close> obtain hi v where h: "get_esc (tl u) = Some (hi, v)"
          "class_ranges (acc @ [(lo, hi)]) v = Some (rs, t)"
          by (subst (asm) class_ranges.simps) (auto simp del: get_esc.simps split: option.splits)
        from 1(1) [OF Cons False e refl True h(1) refl h(2)] get_esc_shorter [OF e] get_esc_shorter [OF h(1)]
        show ?thesis by simp
      next
        case 2: False
        with 1(3) Cons e False have "class_ranges (acc @ [(lo, lo)]) u = Some (rs, t)"
          by (subst (asm) class_ranges.simps) (auto simp del: get_esc.simps)
        from 1(2) [OF Cons False e refl 2 this] get_esc_shorter [OF e] show ?thesis by simp
      qed
    qed
  qed
qed

lemma class_ranges_le [termination_simp]:
  "class_ranges acc s = Some (rs, t) \<Longrightarrow> length t < Suc (length s)"
  by (drule class_ranges_shorter) simp

function parse_glob :: "string \<Rightarrow> glob_item list option" where
  "parse_glob [] = Some []"
| "parse_glob (c # cs) =
     (if c = CHR ''*'' then map_option ((#) GStar) (parse_glob cs)
      else if c = CHR ''?'' then map_option ((#) GAny) (parse_glob cs)
      else if c = CHR ''['' then
        (let negated = (cs \<noteq> [] \<and> hd cs = CHR ''^'') in
         case class_ranges [] (if negated then tl cs else cs) of
           None \<Rightarrow> None
         | Some (rs, t) \<Rightarrow> map_option ((#) (GClass negated rs)) (parse_glob t))
      else if c = CHR 0x5C then
        (case cs of [] \<Rightarrow> None | d # ds \<Rightarrow> map_option ((#) (GChar d)) (parse_glob ds))
      else map_option ((#) (GChar c)) (parse_glob cs))"
  by pat_completeness auto

termination
  by (relation "measure length") (auto dest!: class_ranges_shorter split: if_splits)

fun glob_item_match :: "glob_item \<Rightarrow> char \<Rightarrow> bool" where
  "glob_item_match (GChar d) c = (c = d)"
| "glob_item_match GAny c = (c \<noteq> CHR ''/'')"
| "glob_item_match GStar c = (c \<noteq> CHR ''/'')"
| "glob_item_match (GClass negated rs) c =
     (list_ex (\<lambda>(lo, hi). (of_char lo :: nat) \<le> of_char c \<and> (of_char c :: nat) \<le> of_char hi) rs \<noteq> negated)"

fun glob_items_match :: "glob_item list \<Rightarrow> string \<Rightarrow> bool" where
  "glob_items_match [] s = (s = [])"
| "glob_items_match (GStar # ps) [] = glob_items_match ps []"
| "glob_items_match (GStar # ps) (c # cs) =
     (glob_items_match ps (c # cs) \<or> c \<noteq> CHR ''/'' \<and> glob_items_match (GStar # ps) cs)"
| "glob_items_match (p # ps) [] = False"
| "glob_items_match (p # ps) (c # cs) = (glob_item_match p c \<and> glob_items_match ps cs)"

definition filepath_match :: "string \<Rightarrow> string \<Rightarrow> bool" where
  "filepath_match pattern name =
     (case parse_glob pattern of None \<Rightarrow> False | Some ps \<Rightarrow> glob_items_match ps name)"

section \<open>Watching\<close>

fun glob_dirs_loop :: "string list \<Rightarrow> (string, unit) go_map \<Rightarrow> string list \<Rightarrow> string list" where
  "glob_dirs_loop [] seen dirs = dirs"
| "glob_dirs_loop (f # fs) seen dirs =
     (let d = path_dir f in
      case map_of seen d of
        None \<Rightarrow> glob_dirs_loop fs (go_put d () seen) (dirs @ [d])
      | Some _ \<Rightarrow> glob_dirs_loop fs seen dirs)"

definition globDirs :: "'w yaml_sys \<Rightarrow> string \<Rightarrow> 'w \<Rightarrow> (error + string list) \<times> 'w" where
  "globDirs sys glob w =
     (case sysGlob sys glob w of
        (Inl err, w1) \<Rightarrow> (Inl err, w1)
      | (Inr files, w1) \<Rightarrow> (Inr (glob_dirs_loop files [] []), w1))"

text \<open>The directories \<open>Notify\<close> adds to the watcher.\<close>

definition watch_dirs :: "'w yaml_sys \<Rightarrow> yaml_source \<Rightarrow> 'w \<Rightarrow> string list" where
  "watch_dirs sys src w =
     (let dirs = (case fst (globDirs sys (ysGlob src) w) of Inl err \<Rightarrow> [] | Inr ds \<Rightarrow> ds)
      in if dirs = [] then [staticGlobDir (ysGlob src)] else dirs)"

text \<open>
  The loop: whether the debounce timer runs, whether the loop is blocked sending on \<open>ch\<close>, and how
  often it has sent. The events are the cases of the two \<open>select\<close> statements that become ready;
  \<open>None\<close> for one that cannot.
\<close>

record watch_state =
  wsArmed :: bool
  wsSending :: bool
  wsSignals :: nat
  wsReturned :: bool

datatype watch_event = CtxDone | FsEvent string | EventsClosed | DebounceFires | Sent | WatcherError

definition watch_init :: watch_state where
  "watch_init = \<lparr>wsArmed = False, wsSending = False, wsSignals = 0, wsReturned = False\<rparr>"

fun watch_step :: "yaml_source \<Rightarrow> watch_event \<Rightarrow> watch_state \<Rightarrow> watch_state option" where
  "watch_step src CtxDone ws = (if wsReturned ws then None else Some (ws\<lparr>wsReturned := True\<rparr>))"
| "watch_step src (FsEvent name) ws =
     (if wsReturned ws \<or> wsSending ws then None
      else if \<not> filepath_match (ysGlob src) name then Some ws
      else Some (ws\<lparr>wsArmed := True\<rparr>))"
| "watch_step src EventsClosed ws =
     (if wsReturned ws \<or> wsSending ws then None else Some (ws\<lparr>wsReturned := True\<rparr>))"
| "watch_step src DebounceFires ws =
     (if wsReturned ws \<or> wsSending ws \<or> \<not> wsArmed ws then None
      else Some (ws\<lparr>wsArmed := False, wsSending := True\<rparr>))"
| "watch_step src Sent ws =
     (if wsReturned ws \<or> \<not> wsSending ws then None
      else Some (ws\<lparr>wsSending := False, wsSignals := wsSignals ws + 1\<rparr>))"
| "watch_step src WatcherError ws = (if wsReturned ws \<or> wsSending ws then None else Some ws)"

fun watch_run :: "yaml_source \<Rightarrow> watch_event list \<Rightarrow> watch_state \<Rightarrow> watch_state option" where
  "watch_run src [] ws = Some ws"
| "watch_run src (ev # evs) ws =
     (case watch_step src ev ws of None \<Rightarrow> None | Some ws' \<Rightarrow> watch_run src evs ws')"

lemma glob_dirs_loop_spec:
  "\<lbrakk>distinct dirs; set dirs = dom (map_of seen)\<rbrakk> \<Longrightarrow>
     distinct (glob_dirs_loop fs seen dirs) \<and> set (glob_dirs_loop fs seen dirs) = set dirs \<union> path_dir ` set fs"
proof (induction fs arbitrary: seen dirs)
  case (Cons f fs)
  show ?case
  proof (cases "map_of seen (path_dir f)")
    case None
    with Cons.prems have "distinct (dirs @ [path_dir f])"
      "set (dirs @ [path_dir f]) = dom (map_of (go_put (path_dir f) () seen))" by (auto simp: dom_def)
    from Cons.IH [OF this] None show ?thesis by (simp add: Let_def)
  next
    case (Some x)
    with Cons.IH [OF Cons.prems] Cons.prems(2) show ?thesis by (auto simp: Let_def)
  qed
qed simp

text \<open>Every directory that holds a matched file is watched once, and at least one directory is.\<close>

lemma watch_dirs_spec:
  "watch_dirs sys src w \<noteq> [] \<and> distinct (watch_dirs sys src w) \<and>
   (\<forall>files w1. sysGlob sys (ysGlob src) w = (Inr files, w1) \<longrightarrow> path_dir ` set files \<subseteq> set (watch_dirs sys src w))"
proof -
  note spec = glob_dirs_loop_spec [of "[]" "[]", simplified]
  have e: "glob_dirs_loop fs [] [] = [] \<longleftrightarrow> fs = []" for fs
    using spec [of fs] by (metis image_is_empty set_empty)
  show ?thesis
    by (auto simp: watch_dirs_def globDirs_def Let_def e spec split: prod.splits sum.splits)
qed

text \<open>
  A pattern that starts with \<open>./\<close> only matches names that do, while the directories watched are
  clean paths and so are the names of the files in them: such a source is read, but its changes
  are never noticed.
\<close>

lemma dot_glob_unmatched: "filepath_match (''./'' @ g) name \<Longrightarrow> has_prefix name ''./''"
proof -
  assume m: "filepath_match (''./'' @ g) name"
  then obtain ps where "parse_glob g = Some ps" "glob_items_match (GChar (CHR ''.'') # GChar (CHR ''/'') # ps) name"
    by (auto simp: filepath_match_def split: option.splits)
  then show ?thesis
    by (cases name; cases "tl name") (auto simp: has_prefix_def)
qed

lemma dot_glob_example:
  "staticGlobDir ''./dns/*.yaml'' = ''dns'' \<and> \<not> filepath_match ''./dns/*.yaml'' ''dns/a.yaml'' \<and>
   filepath_match ''dns/*.yaml'' ''dns/a.yaml''"
  by code_simp

lemma watch_run_append:
  "watch_run src (evs @ evs') ws = (case watch_run src evs ws of None \<Rightarrow> None | Some ws' \<Rightarrow> watch_run src evs' ws')"
  by (induction evs arbitrary: ws) (auto split: option.splits)

text \<open>A matching file has changed since the debounce timer last fired.\<close>

definition change_pending :: "yaml_source \<Rightarrow> watch_event list \<Rightarrow> bool" where
  "change_pending src evs \<longleftrightarrow> (\<exists>pre name post. evs = pre @ FsEvent name # post \<and>
     filepath_match (ysGlob src) name \<and> DebounceFires \<notin> set post)"

lemma change_pending_snoc:
  "change_pending src (evs @ [ev]) \<longleftrightarrow>
     (\<exists>name. ev = FsEvent name \<and> filepath_match (ysGlob src) name) \<or> change_pending src evs \<and> ev \<noteq> DebounceFires"
  (is "?l \<longleftrightarrow> ?r")
proof
  assume ?l
  then obtain pre name post where s: "evs @ [ev] = pre @ FsEvent name # post"
    "filepath_match (ysGlob src) name" "DebounceFires \<notin> set post"
    unfolding change_pending_def by blast
  then show ?r
    unfolding change_pending_def by (cases post rule: rev_cases) auto
next
  assume ?r
  then show ?l
  proof
    assume "\<exists>name. ev = FsEvent name \<and> filepath_match (ysGlob src) name"
    then show ?l unfolding change_pending_def by (metis empty_iff list.set(1))
  next
    assume "change_pending src evs \<and> ev \<noteq> DebounceFires"
    then obtain pre name post where "evs = pre @ FsEvent name # post" "filepath_match (ysGlob src) name"
      "DebounceFires \<notin> set (post @ [ev])" unfolding change_pending_def by auto
    then show ?l unfolding change_pending_def by (metis append.assoc append_Cons)
  qed
qed

text \<open>
  C24. The watch loop forgets no change and invents none. At any time before it returns, its
  debounce timer runs exactly when a matching file has changed since the timer last fired; the
  reconciler has been signalled once for every time the timer fired, not counting the one being
  sent; and while the timer runs, its firing leads to one more signal.
\<close>

theorem watch_forgets_nothing:
  assumes "watch_run src evs watch_init = Some ws" "\<not> wsReturned ws"
  shows "(wsArmed ws \<longleftrightarrow> change_pending src evs) \<and>
    wsSignals ws + (if wsSending ws then 1 else 0) = count_list evs DebounceFires \<and>
    (wsArmed ws \<longrightarrow> (\<exists>ws'. watch_run src [DebounceFires, Sent] ws = Some ws' \<and>
       wsSignals ws' = wsSignals ws + 1 \<and> \<not> wsArmed ws' \<and> \<not> wsReturned ws'))"
proof -
  have "(wsArmed ws \<longleftrightarrow> change_pending src evs) \<and> \<not> (wsArmed ws \<and> wsSending ws) \<and>
    wsSignals ws + (if wsSending ws then 1 else 0) = count_list evs DebounceFires"
    using assms
  proof (induction evs arbitrary: ws rule: rev_induct)
    case Nil
    then show ?case by (auto simp: watch_init_def change_pending_def)
  next
    case (snoc ev evs)
    then obtain ws0 where r: "watch_run src evs watch_init = Some ws0" "watch_step src ev ws0 = Some ws"
      unfolding watch_run_append by (auto split: option.splits)
    with snoc.prems(2) have "\<not> wsReturned ws0" by (cases ev) (auto split: if_splits)
    from snoc.IH [OF r(1) this] r(2) snoc.prems(2) show ?case
      unfolding change_pending_snoc by (cases ev) (auto split: if_splits)
  qed
  with assms(2) show ?thesis by auto
qed

theorem watch_forgets_nothing_witness:
  "\<exists>ws. watch_run sample_yaml [FsEvent ''/d/b.txt'', FsEvent ''/d/a.yaml''] watch_init = Some ws \<and> wsArmed ws"
proof -
  have m: "filepath_match ''/d/*.yaml'' ''/d/a.yaml''" "\<not> filepath_match ''/d/*.yaml'' ''/d/b.txt''" by code_simp+
  have r: "watch_run sample_yaml [FsEvent ''/d/b.txt'', FsEvent ''/d/a.yaml''] watch_init
      = Some (watch_init\<lparr>wsArmed := True\<rparr>)"
    using m by (simp add: sample_yaml_def watch_init_def)
  have "\<not> wsReturned (watch_init\<lparr>wsArmed := True\<rparr>)" by (simp add: watch_init_def)
  from watch_forgets_nothing [OF r this]
  have "wsArmed (watch_init\<lparr>wsArmed := True\<rparr>)
      \<longleftrightarrow> change_pending sample_yaml [FsEvent ''/d/b.txt'', FsEvent ''/d/a.yaml'']" by blast
  moreover have "change_pending sample_yaml [FsEvent ''/d/b.txt'', FsEvent ''/d/a.yaml'']"
    unfolding change_pending_def using m(1)
    by (intro exI [of _ "[FsEvent ''/d/b.txt'']"] exI [of _ "''/d/a.yaml''"] exI [of _ "[]"]) (simp add: sample_yaml_def)
  ultimately show ?thesis using r by blast
qed

end
