(* ===== verification/Config.thy ===== *)
theory Config
  imports Validate Envutil
begin

text \<open>
  \<open>internal/config\<close>: the configuration structs with their yaml and validate tags, the defaults, the
  overlay of \<open>BEACONS_*\<close> environment variables by reflection, and \<open>Load\<close>. The YAML decoder and the
  reading of the file are arguments; a nil map and an empty one are not told apart, and what
  the overlay logs is in \<open>Env_Log\<close>. Proved here: the reflective overlay is the field-by-field assignment one expects, so a
  configuration stays a configuration; which entries of a map it changes or adds; what a loaded
  configuration is, and that it meets every rule of its tags.
\<close>

section \<open>The structs\<close>

record LogConfig =
  lgRevealValues :: bool

record AuthConfig =
  acType :: string
  acAPIKey :: string

record HTTPConfig =
  hcAddr :: string
  hcReadTimeout :: int
  hcIdleTimeout :: int
  hcWriteTimeout :: int
  hcShutdownTimeout :: int
  hcAuth :: AuthConfig

record StoreConfig =
  stType :: string
  stPath :: string

record SyncConfig =
  syPollInterval :: int
  syUseEvents :: bool
  syDebounceDelay :: int
  syDryRun :: bool
  syStrictEnv :: bool
  syStrictValidation :: bool
  syReconcileInterval :: int

record Config =
  cfDefaults :: BaseRecord
  cfSources :: "(string, SourceConfig) go_map"
  cfUpstreams :: "(string, UpstreamConfig) go_map"
  cfSync :: SyncConfig
  cfStore :: StoreConfig
  cfHTTP :: HTTPConfig
  cfLog :: LogConfig

definition zero_source :: SourceConfig where
  "zero_source = \<lparr>scType = '''', Host = '''', Glob = ''''\<rparr>"

definition zero_upstream :: UpstreamConfig where
  "zero_upstream = \<lparr>ucType = '''', APIToken = '''', ZoneID = '''', URL = '''', Password = '''', Zone = '''',
     ucHTTP = \<lparr>RetryMaxAttempts = 0, RetryBaseDelayMs = 0, RetryMaxDelayMs = 0, AuthFailureThreshold = 0,
       DebugLog = False, DebugLogSecrets = False\<rparr>, VerifyInterval = 0\<rparr>"

definition config_defaults :: Config where
  "config_defaults = \<lparr>cfDefaults = zero_base, cfSources = [], cfUpstreams = [],
     cfSync = \<lparr>syPollInterval = 300, syUseEvents = True, syDebounceDelay = 500, syDryRun = False,
       syStrictEnv = True, syStrictValidation = False, syReconcileInterval = 300\<rparr>,
     cfStore = \<lparr>stType = ''memory'', stPath = ''''\<rparr>,
     cfHTTP = \<lparr>hcAddr = '':9090'', hcReadTimeout = 5, hcIdleTimeout = 60, hcWriteTimeout = 10,
       hcShutdownTimeout = 5, hcAuth = \<lparr>acType = ''api_key'', acAPIKey = ''''\<rparr>\<rparr>,
     cfLog = \<lparr>lgRevealValues = False\<rparr>\<rparr>"

section \<open>The structs as reflect sees them\<close>

definition source_value :: "SourceConfig \<Rightarrow> go_value" where
  "source_value s = VStruct
     [GoField ''Type'' True ''type'' ''required,oneof=docker yaml'' (VString (scType s)),
      GoField ''Host'' True ''host'' '''' (VString (Host s)),
      GoField ''Glob'' True ''glob'' ''required_if=Type yaml'' (VString (Glob s))]"

definition upstream_http_value :: "UpstreamHTTPConfig \<Rightarrow> go_value" where
  "upstream_http_value h = VStruct
     [GoField ''RetryMaxAttempts'' True ''retry_max_attempts'' ''min=0'' (VInt (RetryMaxAttempts h)),
      GoField ''RetryBaseDelayMs'' True ''retry_base_delay_ms'' ''min=0'' (VInt (RetryBaseDelayMs h)),
      GoField ''RetryMaxDelayMs'' True ''retry_max_delay_ms'' ''min=0'' (VInt (RetryMaxDelayMs h)),
      GoField ''AuthFailureThreshold'' True ''auth_failure_threshold'' ''min=0'' (VInt (AuthFailureThreshold h)),
      GoField ''DebugLog'' True ''debug_log'' '''' (VBool (DebugLog h)),
      GoField ''DebugLogSecrets'' True ''debug_log_secrets'' '''' (VBool (DebugLogSecrets h))]"

definition upstream_value :: "UpstreamConfig \<Rightarrow> go_value" where
  "upstream_value u = VStruct
     [GoField ''Type'' True ''type'' ''required,oneof=cloudflare pihole technitium'' (VString (ucType u)),
      GoField ''APIToken'' True ''api_token'' ''required_if=Type cloudflare,required_if=Type technitium''
        (VString (APIToken u)),
      GoField ''ZoneID'' True ''zone_id'' ''required_if=Type cloudflare'' (VString (ZoneID u)),
      GoField ''URL'' True ''url'' ''required_if=Type pihole,required_if=Type technitium,omitempty,url''
        (VString (URL u)),
      GoField ''Password'' True ''password'' '''' (VString (Password u)),
      GoField ''Zone'' True ''zone'' ''required_if=Type technitium'' (VString (Zone u)),
      GoField ''HTTP'' True ''http'' '''' (upstream_http_value (ucHTTP u)),
      GoField ''VerifyInterval'' True ''verify_interval'' ''min=0'' (VInt (VerifyInterval u))]"

definition sync_value :: "SyncConfig \<Rightarrow> go_value" where
  "sync_value s = VStruct
     [GoField ''PollInterval'' True ''poll_interval'' ''min=0'' (VInt (syPollInterval s)),
      GoField ''UseEvents'' True ''use_events'' '''' (VBool (syUseEvents s)),
      GoField ''DebounceDelay'' True ''debounce_ms'' ''min=0'' (VInt (syDebounceDelay s)),
      GoField ''DryRun'' True ''dry_run'' '''' (VBool (syDryRun s)),
      GoField ''StrictEnv'' True ''strict_env'' '''' (VBool (syStrictEnv s)),
      GoField ''StrictValidation'' True ''strict_validation'' '''' (VBool (syStrictValidation s)),
      GoField ''ReconcileInterval'' True ''reconcile_interval'' ''min=0'' (VInt (syReconcileInterval s))]"

definition store_value :: "StoreConfig \<Rightarrow> go_value" where
  "store_value s = VStruct
     [GoField ''Type'' True ''type'' ''required,oneof=memory file'' (VString (stType s)),
      GoField ''Path'' True ''path'' ''required_if=Type file'' (VString (stPath s))]"

definition auth_value :: "AuthConfig \<Rightarrow> go_value" where
  "auth_value a = VStruct
     [GoField ''Type'' True ''type'' ''omitempty,oneof=none api_key'' (VString (acType a)),
      GoField ''APIKey'' True ''api_key'' '''' (VString (acAPIKey a))]"

definition http_value :: "HTTPConfig \<Rightarrow> go_value" where
  "http_value h = VStruct
     [GoField ''Addr'' True ''addr'' ''omitempty,hostname_port'' (VString (hcAddr h)),
      GoField ''ReadTimeout'' True ''read_timeout'' ''min=0'' (VInt (hcReadTimeout h)),
      GoField ''IdleTimeout'' True ''idle_timeout'' ''min=0'' (VInt (hcIdleTimeout h)),
      GoField ''WriteTimeout'' True ''write_timeout'' ''min=0'' (VInt (hcWriteTimeout h)),
      GoField ''ShutdownTimeout'' True ''shutdown_timeout'' ''gt=0'' (VInt (hcShutdownTimeout h)),
      GoField ''Auth'' True ''auth'' '''' (auth_value (hcAuth h))]"

definition log_value :: "LogConfig \<Rightarrow> go_value" where
  "log_value l = VStruct [GoField ''RevealValues'' True ''reveal_values'' '''' (VBool (lgRevealValues l))]"

definition map_value :: "('a \<Rightarrow> go_value) \<Rightarrow> 'a \<Rightarrow> (string, 'a) go_map \<Rightarrow> go_value" where
  "map_value val zero m = VMap (val zero) (Some (map (\<lambda>(k, v). (k, val v)) m))"

definition config_value :: "Config \<Rightarrow> go_value" where
  "config_value c = VStruct
     [GoField ''Defaults'' True ''defaults'' '''' (base_value (cfDefaults c)),
      GoField ''Sources'' True ''sources'' '''' (map_value source_value zero_source (cfSources c)),
      GoField ''Upstreams'' True ''upstreams'' '''' (map_value upstream_value zero_upstream (cfUpstreams c)),
      GoField ''Sync'' True ''sync'' '''' (sync_value (cfSync c)),
      GoField ''Store'' True ''store'' '''' (store_value (cfStore c)),
      GoField ''HTTP'' True ''http'' '''' (http_value (cfHTTP c)),
      GoField ''Log'' True ''log'' '''' (log_value (cfLog c))]"

section \<open>The overlay of environment variables\<close>

text \<open>The orders in which the maps are ranged over, by the path of the struct field they belong to.\<close>

record env_orders =
  eoEnv :: "string \<Rightarrow> (string \<times> string) iteration"
  eoTokens :: "string \<Rightarrow> (string \<times> string) iteration"
  eoKeys :: "string \<Rightarrow> string iteration"

definition envPrefix :: string where [go_consts]: "envPrefix = ''BEACONS''"

text \<open>\<open>os.Environ()\<close>.\<close>

definition env_strings :: "environ \<Rightarrow> string list" where
  "env_strings env = map (\<lambda>(k, v). k @ ''='' @ v) env"

fun collect_env :: "string \<Rightarrow> string list \<Rightarrow> environ \<Rightarrow> environ" where
  "collect_env prefix [] m = m"
| "collect_env prefix (e # es) m =
     (case cut e ''='' of
        Some (k, v) \<Rightarrow> if has_prefix k prefix then collect_env prefix es (go_put k v m) else collect_env prefix es m
      | None \<Rightarrow> collect_env prefix es m)"

definition collectEnv :: "string \<Rightarrow> environ \<Rightarrow> environ" where
  "collectEnv prefix env = collect_env prefix (env_strings env) []"

definition yamlTagName :: "go_field \<Rightarrow> string" where
  "yamlTagName f =
     (if fldYaml f = '''' then to_lower (fldName f) else cut_before (fldYaml f) '','')"

definition env_field_path :: "string \<Rightarrow> string \<Rightarrow> string" where
  "env_field_path path yamlKey =
     (if \<not> has_suffix path ''__'' then path @ ''_'' @ to_upper yamlKey else path @ to_upper yamlKey)"

text \<open>\<open>strconv.ParseUint\<close> and \<open>strconv.ParseBool\<close>, \<open>None\<close> for an error.\<close>

definition parse_uint :: "string \<Rightarrow> nat option" where
  "parse_uint s = (case parse_nat s of None \<Rightarrow> None | Some n \<Rightarrow> if n < 2 ^ 64 then Some n else None)"

definition parse_bool :: "string \<Rightarrow> bool option" where
  "parse_bool s =
     (if s \<in> set [''1'', ''t'', ''T'', ''TRUE'', ''true'', ''True''] then Some True
      else if s \<in> set [''0'', ''f'', ''F'', ''FALSE'', ''false'', ''False''] then Some False
      else None)"

fun setScalar :: "go_value \<Rightarrow> string \<Rightarrow> go_value" where
  "setScalar (VString s) val = VString val"
| "setScalar (VInt n) val = VInt (atoi_or n val)"
| "setScalar (VUint n) val = VUint (case parse_uint val of None \<Rightarrow> n | Some m \<Rightarrow> m)"
| "setScalar (VBool b) val = VBool (case parse_bool val of None \<Rightarrow> b | Some b' \<Rightarrow> b')"
| "setScalar v val = v"

definition norm_key :: "string \<Rightarrow> string" where
  "norm_key key = to_lower (map (\<lambda>c. if c = CHR ''-'' then CHR ''_'' else c) key)"

definition resolveMapKey :: "string list \<Rightarrow> string \<Rightarrow> string" where
  "resolveMapKey keys token =
     (let norm = to_lower token in
      case find (\<lambda>key. norm_key key = norm) keys of Some key \<Rightarrow> key | None \<Rightarrow> norm)"

text \<open>The key token in the name of a variable, if the name is one for the map.\<close>

definition key_token :: "string \<Rightarrow> string \<Rightarrow> string option" where
  "key_token prefix envKey =
     (if \<not> has_prefix envKey prefix then None
      else
        (case cut (trim_prefix envKey prefix) ''__'' of
           None \<Rightarrow> None
         | Some (token, _) \<Rightarrow> if token = '''' then None else Some token))"

fun collect_tokens ::
  "env_orders \<Rightarrow> string list \<Rightarrow> string \<Rightarrow> (string \<times> string) list \<Rightarrow> (string, string) go_map
     \<Rightarrow> (string, string) go_map" where
  "collect_tokens ord mapKeys prefix [] keys = keys"
| "collect_tokens ord mapKeys prefix ((envKey, v) # es) keys =
     (case key_token prefix envKey of
        None \<Rightarrow> collect_tokens ord mapKeys prefix es keys
      | Some token \<Rightarrow>
          if map_of keys token \<noteq> None then collect_tokens ord mapKeys prefix es keys
          else collect_tokens ord mapKeys prefix es
            (go_put token (resolveMapKey (iterate (eoKeys ord (prefix @ token)) mapKeys) token) keys))"

text \<open>The loop over the tokens; \<open>rec\<close> is \<open>walkStruct\<close> on the fields of an element.\<close>

fun walk_entries ::
  "(go_field list \<Rightarrow> string \<Rightarrow> go_field list) \<Rightarrow> string \<Rightarrow> go_value \<Rightarrow> (string \<times> string) list
     \<Rightarrow> (string, go_value) go_map \<Rightarrow> (string, go_value) go_map" where
  "walk_entries rec prefix ty [] es = es"
| "walk_entries rec prefix ty ((token, mapKey) # ts) es =
     (let elem = (case map_of es mapKey of None \<Rightarrow> ty | Some e \<Rightarrow> e);
          elem' = (case elem of VStruct fs \<Rightarrow> VStruct (rec fs (prefix @ token @ ''__'')) | v \<Rightarrow> v)
      in walk_entries rec prefix ty ts (go_put mapKey elem' es))"

definition walkMap ::
  "(go_field list \<Rightarrow> string \<Rightarrow> go_field list) \<Rightarrow> env_orders \<Rightarrow> environ \<Rightarrow> string \<Rightarrow> go_value
     \<Rightarrow> (string, go_value) go_map option \<Rightarrow> (string, go_value) go_map option" where
  "walkMap rec ord env path ty m =
     (let es = (case m of None \<Rightarrow> [] | Some es \<Rightarrow> es) in
      if \<not> is_struct ty then Some es
      else
        (let prefix = path @ ''__'';
             keys = collect_tokens ord (map fst es) prefix (iterate (eoEnv ord path) env) []
         in Some (walk_entries rec prefix ty (iterate (eoTokens ord path) keys) es)))"

definition walk_field ::
  "(go_field list \<Rightarrow> string \<Rightarrow> go_field list) \<Rightarrow> env_orders \<Rightarrow> environ \<Rightarrow> string \<Rightarrow> go_field \<Rightarrow> go_field" where
  "walk_field rec ord env path f =
     (let yamlKey = yamlTagName f; fieldPath = env_field_path path yamlKey in
      if \<not> fldExported f \<or> yamlKey = '''' \<or> yamlKey = ''-'' then f
      else GoField (fldName f) (fldExported f) (fldYaml f) (fldValidate f)
        (case fldValue f of
           VStruct fs \<Rightarrow> VStruct (rec fs fieldPath)
         | VMap ty m \<Rightarrow> VMap ty (walkMap rec ord env fieldPath ty m)
         | v \<Rightarrow> (case map_of env fieldPath of
                   None \<Rightarrow> v
                 | Some val \<Rightarrow> if val \<noteq> '''' then setScalar v val else v)))"

text \<open>
  \<open>walkStruct\<close>; the first argument bounds the nesting of structs and maps, see
  \<open>overlay_depth\<close>.
\<close>

fun walkStruct :: "nat \<Rightarrow> env_orders \<Rightarrow> environ \<Rightarrow> go_field list \<Rightarrow> string \<Rightarrow> go_field list" where
  "walkStruct 0 ord env fs path = fs"
| "walkStruct (Suc n) ord env fs path = map (walk_field (walkStruct n ord env) ord env path) fs"

definition overlayEnv :: "nat \<Rightarrow> env_orders \<Rightarrow> environ \<Rightarrow> go_value \<Rightarrow> go_value" where
  "overlayEnv n ord environ v =
     (case v of
        VStruct fs \<Rightarrow> VStruct (walkStruct n ord (collectEnv (envPrefix @ ''_'') environ) fs envPrefix)
      | _ \<Rightarrow> v)"

section \<open>The overlay, field by field\<close>

text \<open>A variable that is set, not empty and readable replaces the value.\<close>

definition env_str :: "environ \<Rightarrow> string \<Rightarrow> string \<Rightarrow> string" where
  "env_str env name d = (case map_of env name of None \<Rightarrow> d | Some v \<Rightarrow> if v = '''' then d else v)"

definition env_int :: "environ \<Rightarrow> string \<Rightarrow> int \<Rightarrow> int" where
  "env_int env name d = (case map_of env name of None \<Rightarrow> d | Some v \<Rightarrow> atoi_or d v)"

definition env_bool :: "environ \<Rightarrow> string \<Rightarrow> bool \<Rightarrow> bool" where
  "env_bool env name d =
     (case map_of env name of None \<Rightarrow> d | Some v \<Rightarrow> (case parse_bool v of None \<Rightarrow> d | Some b \<Rightarrow> b))"

definition overlay_base :: "environ \<Rightarrow> string \<Rightarrow> BaseRecord \<Rightarrow> BaseRecord" where
  "overlay_base env p b = \<lparr>TTL = env_int env (p @ ''_TTL'') (TTL b),
     Priority = env_int env (p @ ''_PRIORITY'') (Priority b),
     Comment = env_str env (p @ ''_COMMENT'') (Comment b)\<rparr>"

definition overlay_source :: "environ \<Rightarrow> string \<Rightarrow> SourceConfig \<Rightarrow> SourceConfig" where
  "overlay_source env p s = \<lparr>scType = env_str env (p @ ''TYPE'') (scType s),
     Host = env_str env (p @ ''HOST'') (Host s), Glob = env_str env (p @ ''GLOB'') (Glob s)\<rparr>"

definition overlay_upstream_http :: "environ \<Rightarrow> string \<Rightarrow> UpstreamHTTPConfig \<Rightarrow> UpstreamHTTPConfig" where
  "overlay_upstream_http env p h =
     \<lparr>RetryMaxAttempts = env_int env (p @ ''_RETRY_MAX_ATTEMPTS'') (RetryMaxAttempts h),
      RetryBaseDelayMs = env_int env (p @ ''_RETRY_BASE_DELAY_MS'') (RetryBaseDelayMs h),
      RetryMaxDelayMs = env_int env (p @ ''_RETRY_MAX_DELAY_MS'') (RetryMaxDelayMs h),
      AuthFailureThreshold = env_int env (p @ ''_AUTH_FAILURE_THRESHOLD'') (AuthFailureThreshold h),
      DebugLog = env_bool env (p @ ''_DEBUG_LOG'') (DebugLog h),
      DebugLogSecrets = env_bool env (p @ ''_DEBUG_LOG_SECRETS'') (DebugLogSecrets h)\<rparr>"

definition overlay_upstream :: "environ \<Rightarrow> string \<Rightarrow> UpstreamConfig \<Rightarrow> UpstreamConfig" where
  "overlay_upstream env p u =
     \<lparr>ucType = env_str env (p @ ''TYPE'') (ucType u), APIToken = env_str env (p @ ''API_TOKEN'') (APIToken u),
      ZoneID = env_str env (p @ ''ZONE_ID'') (ZoneID u), URL = env_str env (p @ ''URL'') (URL u),
      Password = env_str env (p @ ''PASSWORD'') (Password u), Zone = env_str env (p @ ''ZONE'') (Zone u),
      ucHTTP = overlay_upstream_http env (p @ ''HTTP'') (ucHTTP u),
      VerifyInterval = env_int env (p @ ''VERIFY_INTERVAL'') (VerifyInterval u)\<rparr>"

definition overlay_sync :: "environ \<Rightarrow> string \<Rightarrow> SyncConfig \<Rightarrow> SyncConfig" where
  "overlay_sync env p s =
     \<lparr>syPollInterval = env_int env (p @ ''_POLL_INTERVAL'') (syPollInterval s),
      syUseEvents = env_bool env (p @ ''_USE_EVENTS'') (syUseEvents s),
      syDebounceDelay = env_int env (p @ ''_DEBOUNCE_MS'') (syDebounceDelay s),
      syDryRun = env_bool env (p @ ''_DRY_RUN'') (syDryRun s),
      syStrictEnv = env_bool env (p @ ''_STRICT_ENV'') (syStrictEnv s),
      syStrictValidation = env_bool env (p @ ''_STRICT_VALIDATION'') (syStrictValidation s),
      syReconcileInterval = env_int env (p @ ''_RECONCILE_INTERVAL'') (syReconcileInterval s)\<rparr>"

definition overlay_store :: "environ \<Rightarrow> string \<Rightarrow> StoreConfig \<Rightarrow> StoreConfig" where
  "overlay_store env p s = \<lparr>stType = env_str env (p @ ''_TYPE'') (stType s),
     stPath = env_str env (p @ ''_PATH'') (stPath s)\<rparr>"

definition overlay_http :: "environ \<Rightarrow> string \<Rightarrow> HTTPConfig \<Rightarrow> HTTPConfig" where
  "overlay_http env p h =
     \<lparr>hcAddr = env_str env (p @ ''_ADDR'') (hcAddr h),
      hcReadTimeout = env_int env (p @ ''_READ_TIMEOUT'') (hcReadTimeout h),
      hcIdleTimeout = env_int env (p @ ''_IDLE_TIMEOUT'') (hcIdleTimeout h),
      hcWriteTimeout = env_int env (p @ ''_WRITE_TIMEOUT'') (hcWriteTimeout h),
      hcShutdownTimeout = env_int env (p @ ''_SHUTDOWN_TIMEOUT'') (hcShutdownTimeout h),
      hcAuth = \<lparr>acType = env_str env (p @ ''_AUTH_TYPE'') (acType (hcAuth h)),
        acAPIKey = env_str env (p @ ''_AUTH_API_KEY'') (acAPIKey (hcAuth h))\<rparr>\<rparr>"

fun overlay_entries ::
  "(string \<Rightarrow> 'a \<Rightarrow> 'a) \<Rightarrow> 'a \<Rightarrow> string \<Rightarrow> (string \<times> string) list \<Rightarrow> (string, 'a) go_map \<Rightarrow> (string, 'a) go_map" where
  "overlay_entries ov zero prefix [] m = m"
| "overlay_entries ov zero prefix ((token, key) # ts) m =
     overlay_entries ov zero prefix ts (go_put key (ov (prefix @ token @ ''__'') (go_get zero m key)) m)"

definition overlay_map ::
  "env_orders \<Rightarrow> environ \<Rightarrow> (string \<Rightarrow> 'a \<Rightarrow> 'a) \<Rightarrow> 'a \<Rightarrow> string \<Rightarrow> (string, 'a) go_map \<Rightarrow> (string, 'a) go_map" where
  "overlay_map ord env ov zero path m =
     (let keys = collect_tokens ord (map fst m) (path @ ''__'') (iterate (eoEnv ord path) env) []
      in overlay_entries ov zero (path @ ''__'') (iterate (eoTokens ord path) keys) m)"

definition overlay_config :: "env_orders \<Rightarrow> environ \<Rightarrow> Config \<Rightarrow> Config" where
  "overlay_config ord env c =
     \<lparr>cfDefaults = overlay_base env ''BEACONS_DEFAULTS'' (cfDefaults c),
      cfSources = overlay_map ord env (overlay_source env) zero_source ''BEACONS_SOURCES'' (cfSources c),
      cfUpstreams = overlay_map ord env (overlay_upstream env) zero_upstream ''BEACONS_UPSTREAMS'' (cfUpstreams c),
      cfSync = overlay_sync env ''BEACONS_SYNC'' (cfSync c),
      cfStore = overlay_store env ''BEACONS_STORE'' (cfStore c),
      cfHTTP = overlay_http env ''BEACONS_HTTP'' (cfHTTP c),
      cfLog = \<lparr>lgRevealValues = env_bool env ''BEACONS_LOG_REVEAL_VALUES'' (lgRevealValues (cfLog c))\<rparr>\<rparr>"

lemma upper_tags:
  "to_upper ''ttl'' = ''TTL''" "to_upper ''priority'' = ''PRIORITY''" "to_upper ''comment'' = ''COMMENT''"
  "to_upper ''type'' = ''TYPE''" "to_upper ''host'' = ''HOST''" "to_upper ''glob'' = ''GLOB''"
  "to_upper ''retry_max_attempts'' = ''RETRY_MAX_ATTEMPTS''"
  "to_upper ''retry_base_delay_ms'' = ''RETRY_BASE_DELAY_MS''"
  "to_upper ''retry_max_delay_ms'' = ''RETRY_MAX_DELAY_MS''"
  "to_upper ''auth_failure_threshold'' = ''AUTH_FAILURE_THRESHOLD''"
  "to_upper ''debug_log'' = ''DEBUG_LOG''" "to_upper ''debug_log_secrets'' = ''DEBUG_LOG_SECRETS''"
  "to_upper ''api_token'' = ''API_TOKEN''" "to_upper ''zone_id'' = ''ZONE_ID''" "to_upper ''url'' = ''URL''"
  "to_upper ''password'' = ''PASSWORD''" "to_upper ''zone'' = ''ZONE''" "to_upper ''http'' = ''HTTP''"
  "to_upper ''verify_interval'' = ''VERIFY_INTERVAL''" "to_upper ''poll_interval'' = ''POLL_INTERVAL''"
  "to_upper ''use_events'' = ''USE_EVENTS''" "to_upper ''debounce_ms'' = ''DEBOUNCE_MS''"
  "to_upper ''dry_run'' = ''DRY_RUN''" "to_upper ''strict_env'' = ''STRICT_ENV''"
  "to_upper ''strict_validation'' = ''STRICT_VALIDATION''"
  "to_upper ''reconcile_interval'' = ''RECONCILE_INTERVAL''" "to_upper ''path'' = ''PATH''"
  "to_upper ''api_key'' = ''API_KEY''" "to_upper ''addr'' = ''ADDR''"
  "to_upper ''read_timeout'' = ''READ_TIMEOUT''" "to_upper ''idle_timeout'' = ''IDLE_TIMEOUT''"
  "to_upper ''write_timeout'' = ''WRITE_TIMEOUT''" "to_upper ''shutdown_timeout'' = ''SHUTDOWN_TIMEOUT''"
  "to_upper ''auth'' = ''AUTH''" "to_upper ''reveal_values'' = ''REVEAL_VALUES''"
  "to_upper ''defaults'' = ''DEFAULTS''" "to_upper ''sources'' = ''SOURCES''"
  "to_upper ''upstreams'' = ''UPSTREAMS''" "to_upper ''sync'' = ''SYNC''" "to_upper ''store'' = ''STORE''"
  "to_upper ''log'' = ''LOG''"
  by code_simp+

text \<open>One step of the walk, for each kind of field.\<close>

definition plain_tag :: "string \<Rightarrow> bool" where
  "plain_tag tag \<longleftrightarrow> tag \<noteq> '''' \<and> tag \<noteq> ''-'' \<and> CHR '','' \<notin> set tag"

lemma plain_tagD: "plain_tag tag \<Longrightarrow> cut_before tag '','' = tag"
  by (simp add: plain_tag_def cut_before_def cut_None)

lemma walk_field_simps:
  assumes "plain_tag tag"
  shows "walk_field rec ord env path (GoField nm True tag vt (VString s)) =
      GoField nm True tag vt (VString (env_str env (env_field_path path tag) s))"
    and "walk_field rec ord env path (GoField nm True tag vt (VInt n)) =
      GoField nm True tag vt (VInt (env_int env (env_field_path path tag) n))"
    and "walk_field rec ord env path (GoField nm True tag vt (VBool b)) =
      GoField nm True tag vt (VBool (env_bool env (env_field_path path tag) b))"
    and "walk_field rec ord env path (GoField nm True tag vt (VStruct fs)) =
      GoField nm True tag vt (VStruct (rec fs (env_field_path path tag)))"
    and "walk_field rec ord env path (GoField nm True tag vt (VMap ty m)) =
      GoField nm True tag vt (VMap ty (walkMap rec ord env (env_field_path path tag) ty m))"
proof -
  have "yamlTagName (GoField nm True tag vt v) = tag" for v
    using assms plain_tagD [OF assms] by (simp add: yamlTagName_def plain_tag_def)
  moreover have "tag \<noteq> ''''" "tag \<noteq> ''-''" using assms by (simp_all add: plain_tag_def)
  moreover have "atoi_or n '''' = n" "parse_bool '''' = None" for n
    by (simp_all add: atoi_or_def atoi_def atoi_signed_def parse_nat_def parse_bool_def)
  ultimately show "walk_field rec ord env path (GoField nm True tag vt (VString s)) =
      GoField nm True tag vt (VString (env_str env (env_field_path path tag) s))"
    and "walk_field rec ord env path (GoField nm True tag vt (VInt n)) =
      GoField nm True tag vt (VInt (env_int env (env_field_path path tag) n))"
    and "walk_field rec ord env path (GoField nm True tag vt (VBool b)) =
      GoField nm True tag vt (VBool (env_bool env (env_field_path path tag) b))"
    and "walk_field rec ord env path (GoField nm True tag vt (VStruct fs)) =
      GoField nm True tag vt (VStruct (rec fs (env_field_path path tag)))"
    and "walk_field rec ord env path (GoField nm True tag vt (VMap ty m)) =
      GoField nm True tag vt (VMap ty (walkMap rec ord env (env_field_path path tag) ty m))"
    by (auto simp: walk_field_def env_str_def env_int_def env_bool_def Let_def split: option.splits)
qed

lemma path_below: "\<not> has_suffix path ''__'' \<Longrightarrow> env_field_path path tag = path @ ''_'' @ to_upper tag"
  "has_suffix path ''__'' \<Longrightarrow> env_field_path path tag = path @ to_upper tag"
  by (simp_all add: env_field_path_def)

lemma not_suffix: "c \<noteq> CHR ''_'' \<Longrightarrow> \<not> has_suffix (p @ s @ [c]) ''__''"
  by (auto simp: has_suffix_iff)

lemma not_suffix_HTTP: "\<not> has_suffix (p @ ''HTTP'') ''__''"
  using not_suffix [of "CHR ''P''" p "''HTT''"] by simp

lemma map_of_values: "map_of (map (\<lambda>(k, v). (k, f v)) m) k = map_option f (map_of m k)"
  by (induction m) auto

lemma go_put_values: "go_put k (f v) (map (\<lambda>(k, v). (k, f v)) m) = map (\<lambda>(k, v). (k, f v)) (go_put k v m)"
  by (induction m) auto

lemma walk_entries_values:
  assumes "\<And>p v. has_suffix p ''__'' \<Longrightarrow> \<exists>fs. val v = VStruct fs \<and> VStruct (rec fs p) = val (ov p v)"
  shows "walk_entries rec prefix (val zero) ts (map (\<lambda>(k, v). (k, val v)) m)
    = map (\<lambda>(k, v). (k, val v)) (overlay_entries ov zero prefix ts m)"
proof (induction ts arbitrary: m)
  case (Cons t ts)
  obtain token key where t: "t = (token, key)" by (cases t)
  have "has_suffix (prefix @ token @ ''__'') ''__''" using has_suffix_append [of "prefix @ token" "''__''"] by simp
  then obtain fs where fs: "val (go_get zero m key) = VStruct fs"
    "VStruct (rec fs (prefix @ token @ ''__'')) = val (ov (prefix @ token @ ''__'') (go_get zero m key))"
    using assms by blast
  have e: "(case map_of (map (\<lambda>(k, v). (k, val v)) m) key of None \<Rightarrow> val zero | Some e \<Rightarrow> e) = VStruct fs"
    unfolding map_of_values fs(1) [symmetric] by (cases "map_of m key") (simp_all add: go_get_def)
  show ?case
    using Cons unfolding t walk_entries.simps e Let_def by (simp add: fs(2) go_put_values)
qed simp

lemma walkMap_values:
  assumes "\<And>p v. has_suffix p ''__'' \<Longrightarrow> \<exists>fs. val v = VStruct fs \<and> VStruct (rec fs p) = val (ov p v)"
  shows "walkMap rec ord env path (val zero) (Some (map (\<lambda>(k, v). (k, val v)) m))
    = Some (map (\<lambda>(k, v). (k, val v)) (overlay_map ord env ov zero path m))"
proof -
  have "has_suffix ''__'' ''__''" using has_suffix_append [of "[]" "''__''"] by simp
  then have "is_struct (val zero)" using assms [of "''__''" zero] by auto
  moreover have "map fst (map (\<lambda>(k, v). (k, val v)) m) = map fst m" by (induction m) auto
  ultimately show ?thesis
    unfolding walkMap_def overlay_map_def Let_def option.case
    by (simp only: if_False not_True_eq_False
        walk_entries_values [where val = val and rec = rec and ov = ov, OF assms])
qed

lemmas overlay_simps = walk_field_simps plain_tag_def path_below upper_tags not_suffix_HTTP

lemma walk_source:
  assumes "has_suffix p ''__''"
  shows "\<exists>fs. source_value s = VStruct fs \<and>
    VStruct (walkStruct (Suc n) ord env fs p) = source_value (overlay_source env p s)"
  using assms by (simp add: source_value_def overlay_source_def overlay_simps)

lemma walk_upstream_http:
  assumes "\<not> has_suffix p ''__''"
  shows "\<exists>fs. upstream_http_value h = VStruct fs \<and>
    VStruct (walkStruct (Suc n) ord env fs p) = upstream_http_value (overlay_upstream_http env p h)"
  using assms by (simp add: upstream_http_value_def overlay_upstream_http_def overlay_simps)

lemma walk_upstream:
  assumes "has_suffix p ''__''"
  shows "\<exists>fs. upstream_value u = VStruct fs \<and>
    VStruct (walkStruct (Suc (Suc n)) ord env fs p) = upstream_value (overlay_upstream env p u)"
proof -
  obtain hs where "upstream_http_value (ucHTTP u) = VStruct hs"
    "VStruct (walkStruct (Suc n) ord env hs (p @ ''HTTP'')) = upstream_http_value (overlay_upstream_http env (p @ ''HTTP'') (ucHTTP u))"
    using walk_upstream_http [OF not_suffix_HTTP] by blast
  with assms show ?thesis
    by (simp add: upstream_value_def overlay_upstream_def overlay_simps del: walkStruct.simps(2))
      (simp add: overlay_simps)
qed

lemma walk_base:
  assumes "\<not> has_suffix p ''__''"
  shows "\<exists>fs. base_value b = VStruct fs \<and>
    VStruct (walkStruct (Suc n) ord env fs p) = base_value (overlay_base env p b)"
  using assms by (simp add: base_value_def overlay_base_def overlay_simps)

lemma walk_sync:
  assumes "\<not> has_suffix p ''__''"
  shows "\<exists>fs. sync_value s = VStruct fs \<and>
    VStruct (walkStruct (Suc n) ord env fs p) = sync_value (overlay_sync env p s)"
  using assms by (simp add: sync_value_def overlay_sync_def overlay_simps)

lemma walk_store:
  assumes "\<not> has_suffix p ''__''"
  shows "\<exists>fs. store_value s = VStruct fs \<and>
    VStruct (walkStruct (Suc n) ord env fs p) = store_value (overlay_store env p s)"
  using assms by (simp add: store_value_def overlay_store_def overlay_simps)

lemma not_suffix_AUTH: "\<not> has_suffix (p @ ''_AUTH'') ''__''"
  using not_suffix [of "CHR ''H''" p "''_AUT''"] by simp

lemma walk_http:
  assumes "\<not> has_suffix p ''__''"
  shows "\<exists>fs. http_value h = VStruct fs \<and>
    VStruct (walkStruct (Suc (Suc n)) ord env fs p) = http_value (overlay_http env p h)"
  using assms not_suffix_AUTH [of p]
  by (simp add: http_value_def auth_value_def overlay_http_def overlay_simps)

lemma walk_log:
  "VStruct (walkStruct (Suc n) ord env [GoField ''RevealValues'' True ''reveal_values'' vt (VBool b)] ''BEACONS_LOG'')
    = VStruct [GoField ''RevealValues'' True ''reveal_values'' vt (VBool (env_bool env ''BEACONS_LOG_REVEAL_VALUES'' b))]"
proof -
  have "\<not> has_suffix ''BEACONS_LOG'' ''__''" by (simp add: has_suffix_def)
  then show ?thesis by (simp add: overlay_simps)
qed

text \<open>A struct, or a map of structs, below the top level.\<close>

lemma walk_top_struct:
  assumes "plain_tag tag" "\<exists>fs. v = VStruct fs \<and> VStruct (rec fs (''BEACONS_'' @ to_upper tag)) = v'"
  shows "walk_field rec ord env ''BEACONS'' (GoField nm True tag vt v) = GoField nm True tag vt v'"
proof -
  have "\<not> has_suffix ''BEACONS'' ''__''" by (simp add: has_suffix_def)
  with assms show ?thesis by (auto simp: walk_field_simps path_below)
qed

lemma walk_top_map:
  assumes "plain_tag tag"
    "\<And>p v. has_suffix p ''__'' \<Longrightarrow> \<exists>fs. val v = VStruct fs \<and> VStruct (rec fs p) = val (ov p v)"
  shows "walk_field rec ord env ''BEACONS'' (GoField nm True tag vt (map_value val zero m))
    = GoField nm True tag vt (map_value val zero (overlay_map ord env ov zero (''BEACONS_'' @ to_upper tag) m))"
proof -
  have "\<not> has_suffix ''BEACONS'' ''__''" by (simp add: has_suffix_def)
  then show ?thesis
    using walkMap_values [where val = val and rec = rec and ov = ov, OF assms(2)]
    by (simp add: map_value_def walk_field_simps [OF assms(1)] path_below)
qed

definition overlay_depth :: nat where
  "overlay_depth = 3"

text \<open>
  The reflective overlay does what a hand-written one would: every field of the configuration
  keeps its name and kind, and takes the value of its own variable (\<open>BEACONS_SYNC_DRY_RUN\<close> and so
  on) when that is set, not empty and readable for the kind of the field; the entries of the two
  maps are overlaid or added under the tokens of the variables. Three levels of nesting are enough,
  for every environment and every order of the maps.
\<close>

lemma overlay_value:
  "overlayEnv (overlay_depth + n) ord environ (config_value c)
     = config_value (overlay_config ord (collectEnv ''BEACONS_'' environ) c)"
proof -
  let ?env = "collectEnv ''BEACONS_'' environ"
  let ?rec = "walkStruct (Suc (Suc n)) ord ?env"
  have ns: "\<not> has_suffix ''BEACONS_DEFAULTS'' ''__''" "\<not> has_suffix ''BEACONS_SYNC'' ''__''"
    "\<not> has_suffix ''BEACONS_STORE'' ''__''" "\<not> has_suffix ''BEACONS_HTTP'' ''__''"
    by (simp_all add: has_suffix_def)
  have "walk_field ?rec ord ?env ''BEACONS'' (GoField ''Defaults'' True ''defaults'' '''' (base_value (cfDefaults c)))
      = GoField ''Defaults'' True ''defaults'' '''' (base_value (overlay_base ?env ''BEACONS_DEFAULTS'' (cfDefaults c)))"
    using walk_base [OF ns(1)] by (intro walk_top_struct) (simp_all add: plain_tag_def upper_tags)
  moreover have "walk_field ?rec ord ?env ''BEACONS'' (GoField ''Sources'' True ''sources'' '''' (map_value source_value zero_source (cfSources c)))
      = GoField ''Sources'' True ''sources'' '''' (map_value source_value zero_source
          (overlay_map ord ?env (overlay_source ?env) zero_source ''BEACONS_SOURCES'' (cfSources c)))"
    using walk_top_map [of "''sources''" source_value ?rec "overlay_source ?env", OF _ walk_source]
    by (simp add: plain_tag_def upper_tags)
  moreover have "walk_field ?rec ord ?env ''BEACONS'' (GoField ''Upstreams'' True ''upstreams'' '''' (map_value upstream_value zero_upstream (cfUpstreams c)))
      = GoField ''Upstreams'' True ''upstreams'' '''' (map_value upstream_value zero_upstream
          (overlay_map ord ?env (overlay_upstream ?env) zero_upstream ''BEACONS_UPSTREAMS'' (cfUpstreams c)))"
    using walk_top_map [of "''upstreams''" upstream_value ?rec "overlay_upstream ?env", OF _ walk_upstream]
    by (simp add: plain_tag_def upper_tags)
  moreover have "walk_field ?rec ord ?env ''BEACONS'' (GoField ''Sync'' True ''sync'' '''' (sync_value (cfSync c)))
      = GoField ''Sync'' True ''sync'' '''' (sync_value (overlay_sync ?env ''BEACONS_SYNC'' (cfSync c)))"
    using walk_sync [OF ns(2)] by (intro walk_top_struct) (simp_all add: plain_tag_def upper_tags)
  moreover have "walk_field ?rec ord ?env ''BEACONS'' (GoField ''Store'' True ''store'' '''' (store_value (cfStore c)))
      = GoField ''Store'' True ''store'' '''' (store_value (overlay_store ?env ''BEACONS_STORE'' (cfStore c)))"
    using walk_store [OF ns(3)] by (intro walk_top_struct) (simp_all add: plain_tag_def upper_tags)
  moreover have "walk_field ?rec ord ?env ''BEACONS'' (GoField ''HTTP'' True ''http'' '''' (http_value (cfHTTP c)))
      = GoField ''HTTP'' True ''http'' '''' (http_value (overlay_http ?env ''BEACONS_HTTP'' (cfHTTP c)))"
    using walk_http [OF ns(4)] by (intro walk_top_struct) (simp_all add: plain_tag_def upper_tags)
  moreover have "walk_field ?rec ord ?env ''BEACONS'' (GoField ''Log'' True ''log'' '''' (log_value (cfLog c)))
      = GoField ''Log'' True ''log'' '''' (log_value \<lparr>lgRevealValues = env_bool ?env ''BEACONS_LOG_REVEAL_VALUES'' (lgRevealValues (cfLog c))\<rparr>)"
    using walk_log by (intro walk_top_struct) (simp_all add: plain_tag_def upper_tags log_value_def del: walkStruct.simps)
  ultimately show ?thesis
    by (simp add: overlayEnv_def overlay_depth_def config_value_def overlay_config_def envPrefix_def numeral_3_eq_3
        del: walkStruct.simps(2)) (simp add: walkStruct.simps(2) [of "Suc (Suc n)"] del: walkStruct.simps)
qed

section \<open>Which entries of a map are overlaid\<close>

lemma collect_tokens_wf: "go_map_wf keys \<Longrightarrow> go_map_wf (collect_tokens ord ks prefix es keys)"
proof (induction es arbitrary: keys)
  case (Cons e es)
  obtain envKey v where e: "e = (envKey, v)" by (cases e)
  show ?case
  proof (cases "key_token prefix envKey")
    case None
    with Cons e show ?thesis by simp
  next
    case (Some t)
    with Cons e show ?thesis by (cases "map_of keys t") (simp_all only: collect_tokens.simps option.simps go_put_wf if_False if_True simp_thms)
  qed
qed simp

lemma collect_tokens_lookup:
  "map_of (collect_tokens ord ks prefix es keys) token =
     (if map_of keys token \<noteq> None then map_of keys token
      else if Some token \<in> key_token prefix ` fst ` set es
      then Some (resolveMapKey (iterate (eoKeys ord (prefix @ token)) ks) token) else None)"
proof (induction es arbitrary: keys)
  case (Cons e es)
  obtain envKey v where e: "e = (envKey, v)" by (cases e)
  have m: "Some token \<in> key_token prefix ` fst ` set (e # es) \<longleftrightarrow>
      key_token prefix envKey = Some token \<or> Some token \<in> key_token prefix ` fst ` set es"
    unfolding e by auto
  show ?case
  proof (cases "key_token prefix envKey")
    case None
    then have "collect_tokens ord ks prefix (e # es) keys = collect_tokens ord ks prefix es keys"
      unfolding e by simp
    with Cons None show ?thesis unfolding m by simp
  next
    case (Some t)
    let ?keys = "go_put t (resolveMapKey (iterate (eoKeys ord (prefix @ t)) ks) t) keys"
    show ?thesis
    proof (cases "map_of keys t = None")
      case True
      with Some have "collect_tokens ord ks prefix (e # es) keys = collect_tokens ord ks prefix es ?keys"
        unfolding e by simp
      with Cons [of ?keys] Some True show ?thesis unfolding m by (cases "t = token") simp_all
    next
      case False
      with Some have "collect_tokens ord ks prefix (e # es) keys = collect_tokens ord ks prefix es keys"
        unfolding e by auto
      with Cons [of keys] Some False show ?thesis unfolding m by (cases "t = token") simp_all
    qed
  qed
qed simp

lemma overlay_entries_lookup:
  "distinct (map snd ts) \<Longrightarrow>
     map_of (overlay_entries ov zero prefix ts m) key =
       (case find (\<lambda>(token, k). k = key) ts of
          Some (token, k) \<Rightarrow> Some (ov (prefix @ token @ ''__'') (go_get zero m key))
        | None \<Rightarrow> map_of m key)"
proof (induction ts arbitrary: m)
  case (Cons t ts)
  obtain token k where t: "t = (token, k)" by (cases t)
  have "find (\<lambda>(token, k'). k' = k) ts = None"
    using Cons.prems t by (auto simp: find_None_iff image_iff)
  with Cons t show ?case by (auto split: option.splits)
qed simp

text \<open>
  An entry is overlaid from the variables with its token; entries without a token stay as they are,
  and a token without an entry adds one.
\<close>

lemma overlay_map_entry:
  fixes env :: environ
  defines "tokens \<equiv> \<lambda>ord path m. collect_tokens ord (map fst m) (path @ ''__'') (iterate (eoEnv ord path) env) []"
  assumes "distinct (map snd (tokens ord path m))"
  shows "map_of (overlay_map ord env ov zero path m) key =
    (if \<exists>token. map_of (tokens ord path m) token = Some key
     then Some (ov (path @ ''__'' @ (THE token. map_of (tokens ord path m) token = Some key) @ ''__'')
       (go_get zero m key))
     else map_of m key)"
proof -
  let ?ts = "tokens ord path m"
  let ?its = "iterate (eoTokens ord path) ?ts"
  have d: "distinct (map snd ?its)" using assms(2) by simp
  have wf: "go_map_wf ?ts" unfolding tokens_def by (rule collect_tokens_wf) simp
  have o: "overlay_map ord env ov zero path m = overlay_entries ov zero (path @ ''__'') ?its m"
    by (simp add: overlay_map_def tokens_def Let_def)
  have inj: "t = t'" if "(t, key) \<in> set ?ts" "(t', key) \<in> set ?ts" for t t'
    using that assms(2) by (metis distinct_map inj_on_contraD prod.inject snd_conv)
  show ?thesis
  proof (cases "\<exists>token. map_of ?ts token = Some key")
    case True
    then obtain t where t: "(t, key) \<in> set ?ts" by (auto dest: map_of_SomeD)
    then obtain p where p: "find (\<lambda>(token, k). k = key) ?its = Some p"
      by (cases "find (\<lambda>(token, k). k = key) ?its") (auto simp: find_None_iff)
    from find_SomeD [OF p] inj t have "p = (t, key)" by (cases p) auto
    moreover have "(THE token. map_of ?ts token = Some key) = t"
      using t inj by (intro the_equality) (auto simp flip: go_map_mem_iff [OF wf])
    ultimately show ?thesis
      unfolding o overlay_entries_lookup [OF d] p using True by simp
  next
    case False
    then have "find (\<lambda>(token, k). k = key) ?its = None"
      by (auto simp: find_None_iff simp flip: go_map_mem_iff [OF wf])
    with False show ?thesis unfolding o overlay_entries_lookup [OF d] by simp
  qed
qed

text \<open>
  Two keys that differ in a hyphen and an underscore have the same token: which of them a variable
  reaches depends on the order of the map.
\<close>

lemma token_ambiguous:
  "resolveMapKey [''pi-a'', ''pi_a''] ''PI_A'' = ''pi-a'' \<and> resolveMapKey [''pi_a'', ''pi-a''] ''PI_A'' = ''pi_a''"
  by code_simp

section \<open>The rules of a configuration\<close>

definition url_ok :: "go_lib \<Rightarrow> string \<Rightarrow> bool" where
  "url_ok lib s \<longleftrightarrow> (\<exists>scheme host. glUrlParse lib s = Some (scheme, host) \<and> scheme \<noteq> '''' \<and> host \<noteq> '''')"

definition source_ok :: "SourceConfig \<Rightarrow> bool" where
  "source_ok s \<longleftrightarrow> scType s = ''docker'' \<or> scType s = ''yaml'' \<and> Glob s \<noteq> ''''"

definition upstream_ok :: "go_lib \<Rightarrow> UpstreamConfig \<Rightarrow> bool" where
  "upstream_ok lib u \<longleftrightarrow>
     (ucType u = ''cloudflare'' \<and> APIToken u \<noteq> '''' \<and> ZoneID u \<noteq> '''' \<and> (URL u = '''' \<or> url_ok lib (URL u)) \<or>
      ucType u = ''pihole'' \<and> url_ok lib (URL u) \<and> URL u \<noteq> '''' \<or>
      ucType u = ''technitium'' \<and> APIToken u \<noteq> '''' \<and> Zone u \<noteq> '''' \<and> url_ok lib (URL u) \<and> URL u \<noteq> '''') \<and>
     0 \<le> VerifyInterval u \<and> 0 \<le> RetryMaxAttempts (ucHTTP u) \<and> 0 \<le> RetryBaseDelayMs (ucHTTP u) \<and>
     0 \<le> RetryMaxDelayMs (ucHTTP u) \<and> 0 \<le> AuthFailureThreshold (ucHTTP u)"

definition config_ok :: "go_lib \<Rightarrow> Config \<Rightarrow> bool" where
  "config_ok lib c \<longleftrightarrow>
     0 \<le> Priority (cfDefaults c) \<and> Priority (cfDefaults c) \<le> 65535 \<and>
     (\<forall>(name, s) \<in> set (cfSources c). source_ok s) \<and>
     (\<forall>(name, u) \<in> set (cfUpstreams c). upstream_ok lib u) \<and>
     0 \<le> syPollInterval (cfSync c) \<and> 0 \<le> syDebounceDelay (cfSync c) \<and> 0 \<le> syReconcileInterval (cfSync c) \<and>
     (stType (cfStore c) = ''memory'' \<or> stType (cfStore c) = ''file'' \<and> stPath (cfStore c) \<noteq> '''') \<and>
     (hcAddr (cfHTTP c) = '''' \<or> split_host_port (hcAddr (cfHTTP c)) \<noteq> None) \<and>
     0 \<le> hcReadTimeout (cfHTTP c) \<and> 0 \<le> hcIdleTimeout (cfHTTP c) \<and> 0 \<le> hcWriteTimeout (cfHTTP c) \<and>
     0 < hcShutdownTimeout (cfHTTP c) \<and> acType (hcAuth (cfHTTP c)) \<in> {'''', ''none'', ''api_key''}"

lemma atoi_0: "atoi ''0'' = (0, True)"
  by (simp add: atoi_def atoi_signed_def parse_nat_def char_digit_def Let_def min_int64_def max_int64_def)

lemma tag_numbers:
  "applyRules up addr (VInt n) parent path ''min=0'' = [] \<longleftrightarrow> 0 \<le> n"
  "applyRules up addr (VInt n) parent path ''gt=0'' = [] \<longleftrightarrow> 0 < n"
  by (simp_all add: tag_eval ruleMin_def ruleGt_def atoi_0)

lemma tag_addr:
  "applyRules up addr (VString s) parent path ''omitempty,hostname_port'' = [] \<longleftrightarrow> s = [] \<or> split_host_port s \<noteq> None"
  by (simp add: tag_eval ruleHostnamePort_def)

lemma tag_auth:
  "applyRules up addr (VString s) parent path ''omitempty,oneof=none api_key'' = [] \<longleftrightarrow> s \<in> {[], ''none'', ''api_key''}"
  by (simp add: tag_eval ruleOneof_def)

lemma tag_store:
  "applyRules up addr (VString s) parent path ''required,oneof=memory file'' = [] \<longleftrightarrow> s \<in> {''memory'', ''file''}"
  by (simp add: tag_eval ruleRequired_def ruleOneof_def)

lemma tag_source:
  "applyRules up addr (VString s) parent path ''required,oneof=docker yaml'' = [] \<longleftrightarrow> s \<in> {''docker'', ''yaml''}"
  by (simp add: tag_eval ruleRequired_def ruleOneof_def)

lemma tag_upstream:
  "applyRules up addr (VString s) parent path ''required,oneof=cloudflare pihole technitium'' = []
     \<longleftrightarrow> s \<in> {''cloudflare'', ''pihole'', ''technitium''}"
  by (simp add: tag_eval ruleRequired_def ruleOneof_def)

lemma field_by_name_Type:
  "field_by_name (GoField ''Type'' True yaml tag v # fs) ''Type'' = Some v"
  by (simp add: field_by_name_def)

lemma tag_required_if:
  assumes "field_by_name parent ''Type'' = Some (VString t)"
  shows "applyRules up addr (VString s) parent path ''required_if=Type file'' = [] \<longleftrightarrow> (t = ''file'' \<longrightarrow> s \<noteq> [])"
    and "applyRules up addr (VString s) parent path ''required_if=Type yaml'' = [] \<longleftrightarrow> (t = ''yaml'' \<longrightarrow> s \<noteq> [])"
    and "applyRules up addr (VString s) parent path ''required_if=Type cloudflare'' = []
      \<longleftrightarrow> (t = ''cloudflare'' \<longrightarrow> s \<noteq> [])"
    and "applyRules up addr (VString s) parent path ''required_if=Type technitium'' = []
      \<longleftrightarrow> (t = ''technitium'' \<longrightarrow> s \<noteq> [])"
  using assms by (simp_all add: tag_eval numeral_2_eq_2)

lemma tag_token:
  assumes "field_by_name parent ''Type'' = Some (VString t)"
  shows "applyRules up addr (VString s) parent path ''required_if=Type cloudflare,required_if=Type technitium'' = []
    \<longleftrightarrow> (t = ''cloudflare'' \<or> t = ''technitium'' \<longrightarrow> s \<noteq> [])"
  using assms by (simp add: tag_eval numeral_2_eq_2)

lemma tag_url:
  assumes "field_by_name parent ''Type'' = Some (VString t)"
  shows "applyRules (glUrlParse lib) addr (VString s) parent path
      ''required_if=Type pihole,required_if=Type technitium,omitempty,url'' = []
    \<longleftrightarrow> (t = ''pihole'' \<or> t = ''technitium'' \<longrightarrow> s \<noteq> []) \<and> (s = [] \<or> url_ok lib s)"
  using assms by (simp add: tag_eval numeral_2_eq_2 ruleURL_def url_ok_def split: option.splits)

lemmas field_walk = fieldPath_def cut_before_def cut_after_def has_prefix_def Let_def no_hook_def
  apply_no_tag field_by_name_Type

lemma walk_map_nil:
  assumes "\<And>v. is_struct (val v)"
  shows "walk_map up addr no_hook (map (\<lambda>(k, v). (k, val v)) m) path = [] \<longleftrightarrow>
     (\<forall>(k, v) \<in> set m. walk_value up addr no_hook (val v) (joinPath path k) = [])"
  by (induction m) (auto simp: assms)

lemma source_rules:
  "walk_value up addr no_hook (source_value s) path = [] \<longleftrightarrow> source_ok s"
  by (auto simp: source_value_def source_ok_def field_walk tag_source tag_required_if)

lemma upstream_http_rules:
  "walk_value up addr no_hook (upstream_http_value h) path = [] \<longleftrightarrow>
     0 \<le> RetryMaxAttempts h \<and> 0 \<le> RetryBaseDelayMs h \<and> 0 \<le> RetryMaxDelayMs h \<and> 0 \<le> AuthFailureThreshold h"
  by (auto simp: upstream_http_value_def field_walk tag_numbers)

lemma upstream_http_struct: "is_struct (upstream_http_value h)"
  by (simp add: upstream_http_value_def)

lemma upstream_rules:
  "walk_value (glUrlParse lib) addr no_hook (upstream_value u) path = [] \<longleftrightarrow> upstream_ok lib u"
  using upstream_http_struct [of "ucHTTP u"]
  by (auto simp: upstream_value_def upstream_ok_def field_walk tag_upstream tag_required_if tag_token tag_url
      tag_numbers upstream_http_rules)

lemma base_rules:
  "walk_value up addr no_hook (base_value b) path = [] \<longleftrightarrow> 0 \<le> Priority b \<and> Priority b \<le> 65535"
  by (auto simp: base_value_def field_walk apply_min_max)

lemma sync_rules:
  "walk_value up addr no_hook (sync_value s) path = [] \<longleftrightarrow>
     0 \<le> syPollInterval s \<and> 0 \<le> syDebounceDelay s \<and> 0 \<le> syReconcileInterval s"
  by (auto simp: sync_value_def field_walk tag_numbers)

lemma store_rules:
  "walk_value up addr no_hook (store_value s) path = [] \<longleftrightarrow>
     stType s = ''memory'' \<or> stType s = ''file'' \<and> stPath s \<noteq> []"
  by (auto simp: store_value_def field_walk tag_store tag_required_if)

lemma http_rules:
  "walk_value up addr no_hook (http_value h) path = [] \<longleftrightarrow>
     (hcAddr h = [] \<or> split_host_port (hcAddr h) \<noteq> None) \<and> 0 \<le> hcReadTimeout h \<and> 0 \<le> hcIdleTimeout h \<and>
     0 \<le> hcWriteTimeout h \<and> 0 < hcShutdownTimeout h \<and> acType (hcAuth h) \<in> {[], ''none'', ''api_key''}"
  by (auto simp: http_value_def auth_value_def field_walk tag_numbers tag_addr tag_auth)

lemma structs:
  "is_struct (source_value s)" "is_struct (upstream_value u)" "is_struct (base_value b)"
  "is_struct (sync_value y)" "is_struct (store_value t)" "is_struct (http_value h)" "is_struct (log_value l)"
  by (simp_all add: source_value_def upstream_value_def base_value_def sync_value_def store_value_def
      http_value_def log_value_def)

lemma log_rules: "walk_value up addr no_hook (log_value l) path = []"
  by (simp add: log_value_def field_walk)

text \<open>\<open>validate.Struct(&cfg)\<close>\<close>

definition validate_config :: "go_lib \<Rightarrow> Config \<Rightarrow> ValidationError list" where
  "validate_config lib c = validate_Struct (glUrlParse lib) (glAddr lib) no_hook (VPtr (config_value c))"

lemma deref_structs:
  "deref (base_value b) = base_value b" "deref (sync_value y) = sync_value y" "deref (store_value t) = store_value t"
  "deref (http_value h) = http_value h" "deref (log_value l) = log_value l" "deref (map_value val z m) = map_value val z m"
  by (simp_all add: structs map_value_def)

lemma validate_config_iff: "validate_config lib c = [] \<longleftrightarrow> config_ok lib c"
proof -
  have s: "walk_value (glUrlParse lib) (glAddr lib) no_hook (map_value source_value zero_source (cfSources c)) path = []
      \<longleftrightarrow> (\<forall>(name, s) \<in> set (cfSources c). source_ok s)" for path
    by (simp add: map_value_def walk_map_nil [where val = source_value] structs source_rules)
  have u: "walk_value (glUrlParse lib) (glAddr lib) no_hook (map_value upstream_value zero_upstream (cfUpstreams c)) path = []
      \<longleftrightarrow> (\<forall>(name, u) \<in> set (cfUpstreams c). upstream_ok lib u)" for path
    by (simp add: map_value_def walk_map_nil [where val = upstream_value] structs upstream_rules)
  have "validate_config lib c = [] \<longleftrightarrow>
      (0 \<le> Priority (cfDefaults c) \<and> Priority (cfDefaults c) \<le> 65535) \<and>
      (\<forall>(name, s) \<in> set (cfSources c). source_ok s) \<and> (\<forall>(name, u) \<in> set (cfUpstreams c). upstream_ok lib u) \<and>
      walk_value (glUrlParse lib) (glAddr lib) no_hook (sync_value (cfSync c)) ''sync'' = [] \<and>
      walk_value (glUrlParse lib) (glAddr lib) no_hook (store_value (cfStore c)) ''store'' = [] \<and>
      walk_value (glUrlParse lib) (glAddr lib) no_hook (http_value (cfHTTP c)) ''http'' = []"
    by (simp add: validate_config_def validate_Struct_def config_value_def field_walk joinPath_def deref_structs
        base_rules s u log_rules)
  then show ?thesis
    by (auto simp: sync_rules store_rules http_rules config_ok_def)
qed

section \<open>Load\<close>

text \<open>Reading the struct back from its reflected form.\<close>

fun struct_field :: "string \<Rightarrow> go_value \<Rightarrow> go_value" where
  "struct_field name (VStruct fs) = (case field_by_name fs name of Some v \<Rightarrow> v | None \<Rightarrow> VNil)"
| "struct_field name v = VNil"

fun as_string :: "go_value \<Rightarrow> string" where
  "as_string (VString s) = s"
| "as_string v = []"

fun as_int :: "go_value \<Rightarrow> int" where
  "as_int (VInt n) = n"
| "as_int v = 0"

fun as_bool :: "go_value \<Rightarrow> bool" where
  "as_bool (VBool b) = b"
| "as_bool v = False"

fun as_map :: "(go_value \<Rightarrow> 'a) \<Rightarrow> go_value \<Rightarrow> (string, 'a) go_map" where
  "as_map f (VMap ty (Some es)) = map (\<lambda>(k, v). (k, f v)) es"
| "as_map f v = []"

definition source_of_value :: "go_value \<Rightarrow> SourceConfig" where
  "source_of_value v = \<lparr>scType = as_string (struct_field ''Type'' v), Host = as_string (struct_field ''Host'' v),
     Glob = as_string (struct_field ''Glob'' v)\<rparr>"

definition upstream_of_value :: "go_value \<Rightarrow> UpstreamConfig" where
  "upstream_of_value v =
     \<lparr>ucType = as_string (struct_field ''Type'' v), APIToken = as_string (struct_field ''APIToken'' v),
      ZoneID = as_string (struct_field ''ZoneID'' v), URL = as_string (struct_field ''URL'' v),
      Password = as_string (struct_field ''Password'' v), Zone = as_string (struct_field ''Zone'' v),
      ucHTTP = (let h = struct_field ''HTTP'' v in
        \<lparr>RetryMaxAttempts = as_int (struct_field ''RetryMaxAttempts'' h),
         RetryBaseDelayMs = as_int (struct_field ''RetryBaseDelayMs'' h),
         RetryMaxDelayMs = as_int (struct_field ''RetryMaxDelayMs'' h),
         AuthFailureThreshold = as_int (struct_field ''AuthFailureThreshold'' h),
         DebugLog = as_bool (struct_field ''DebugLog'' h),
         DebugLogSecrets = as_bool (struct_field ''DebugLogSecrets'' h)\<rparr>),
      VerifyInterval = as_int (struct_field ''VerifyInterval'' v)\<rparr>"

definition config_of_value :: "go_value \<Rightarrow> Config" where
  "config_of_value v =
     (let d = struct_field ''Defaults'' v; y = struct_field ''Sync'' v; t = struct_field ''Store'' v;
          h = struct_field ''HTTP'' v; a = struct_field ''Auth'' h; l = struct_field ''Log'' v in
     \<lparr>cfDefaults = \<lparr>TTL = as_int (struct_field ''TTL'' d), Priority = as_int (struct_field ''Priority'' d),
        Comment = as_string (struct_field ''Comment'' d)\<rparr>,
      cfSources = as_map source_of_value (struct_field ''Sources'' v),
      cfUpstreams = as_map upstream_of_value (struct_field ''Upstreams'' v),
      cfSync = \<lparr>syPollInterval = as_int (struct_field ''PollInterval'' y),
        syUseEvents = as_bool (struct_field ''UseEvents'' y),
        syDebounceDelay = as_int (struct_field ''DebounceDelay'' y),
        syDryRun = as_bool (struct_field ''DryRun'' y), syStrictEnv = as_bool (struct_field ''StrictEnv'' y),
        syStrictValidation = as_bool (struct_field ''StrictValidation'' y),
        syReconcileInterval = as_int (struct_field ''ReconcileInterval'' y)\<rparr>,
      cfStore = \<lparr>stType = as_string (struct_field ''Type'' t), stPath = as_string (struct_field ''Path'' t)\<rparr>,
      cfHTTP = \<lparr>hcAddr = as_string (struct_field ''Addr'' h), hcReadTimeout = as_int (struct_field ''ReadTimeout'' h),
        hcIdleTimeout = as_int (struct_field ''IdleTimeout'' h),
        hcWriteTimeout = as_int (struct_field ''WriteTimeout'' h),
        hcShutdownTimeout = as_int (struct_field ''ShutdownTimeout'' h),
        hcAuth = \<lparr>acType = as_string (struct_field ''Type'' a), acAPIKey = as_string (struct_field ''APIKey'' a)\<rparr>\<rparr>,
      cfLog = \<lparr>lgRevealValues = as_bool (struct_field ''RevealValues'' l)\<rparr>\<rparr>)"

lemma source_of_value [simp]: "source_of_value (source_value s) = s"
  by (simp add: source_of_value_def source_value_def field_by_name_def)

lemma upstream_of_value [simp]: "upstream_of_value (upstream_value u) = u"
  by (simp add: upstream_of_value_def upstream_value_def upstream_http_value_def field_by_name_def)

lemma as_map_value: "(\<And>v. f (val v) = v) \<Longrightarrow> as_map f (map_value val zero m) = m"
  by (simp add: map_value_def comp_def case_prod_unfold)

lemma config_of_value [simp]: "config_of_value (config_value c) = c"
proof -
  have "as_map source_of_value (map_value source_value zero_source (cfSources c)) = cfSources c"
    "as_map upstream_of_value (map_value upstream_value zero_upstream (cfUpstreams c)) = cfUpstreams c"
    by (simp_all add: as_map_value)
  then show ?thesis
    by (simp add: config_of_value_def config_value_def field_by_name_def base_value_def sync_value_def
        store_value_def http_value_def auth_value_def log_value_def)
qed

text \<open>
  \<open>os.ReadFile\<close> and \<open>os.IsNotExist\<close>, the decoder (which decodes into the configuration it is given),
  and the environment.
\<close>

record config_sys =
  csReadFile :: "string \<Rightarrow> error + string"
  csIsNotExist :: "error \<Rightarrow> bool"
  csUnmarshal :: "string \<Rightarrow> Config \<Rightarrow> error + Config"
  csEnviron :: environ

definition load_file :: "config_sys \<Rightarrow> string \<Rightarrow> error + Config" where
  "load_file sys path =
     (if path = [] then Inr config_defaults
      else
        (case csReadFile sys path of
           Inl err \<Rightarrow> if csIsNotExist sys err then Inr config_defaults else Inl err
         | Inr raw \<Rightarrow>
             (case csUnmarshal sys (ExpandLenient (csEnviron sys) raw) config_defaults of
                Inl err \<Rightarrow> Inl err
              | Inr cfg \<Rightarrow>
                  if syStrictEnv (cfSync cfg) then
                    (case Expand (csEnviron sys) raw of
                       Inl err \<Rightarrow> Inl err
                     | Inr expanded \<Rightarrow> csUnmarshal sys expanded cfg)
                  else Inr cfg)))"

definition config_Load :: "go_lib \<Rightarrow> env_orders \<Rightarrow> config_sys \<Rightarrow> string \<Rightarrow> error + Config" where
  "config_Load lib ord sys path =
     (case load_file sys path of
        Inl err \<Rightarrow> Inl err
      | Inr cfg \<Rightarrow>
          (let cfg = config_of_value (overlayEnv overlay_depth ord (csEnviron sys) (config_value cfg));
               errs = validate_config lib cfg
           in if errs \<noteq> [] then Inl (OtherError (ve_error_text errs)) else Inr cfg))"

lemma config_Load_overlay:
  "config_Load lib ord sys path =
     (case load_file sys path of
        Inl err \<Rightarrow> Inl err
      | Inr cfg \<Rightarrow>
          (let cfg = overlay_config ord (collectEnv ''BEACONS_'' (csEnviron sys)) cfg in
           if config_ok lib cfg then Inr cfg else Inl (OtherError (ve_error_text (validate_config lib cfg)))))"
  using overlay_value [of 0 ord "csEnviron sys"]
  by (auto simp: config_Load_def Let_def validate_config_iff split: sum.splits)

lemma load_file_Inr:
  "load_file sys path = Inr base \<longleftrightarrow>
     (if path = [] \<or> (\<exists>e. csReadFile sys path = Inl e \<and> csIsNotExist sys e) then base = config_defaults
      else \<exists>raw first. csReadFile sys path = Inr raw \<and>
        csUnmarshal sys (ExpandLenient (csEnviron sys) raw) config_defaults = Inr first \<and>
        (if syStrictEnv (cfSync first)
         then (\<forall>key \<in> set (expand_refs raw). map_of (csEnviron sys) key \<noteq> None) \<and>
           csUnmarshal sys (ExpandLenient (csEnviron sys) raw) first = Inr base
         else base = first))"
proof (cases "csReadFile sys path")
  case (Inl e)
  then show ?thesis by (auto simp: load_file_def)
next
  case (Inr raw)
  show ?thesis
  proof (cases "csUnmarshal sys (ExpandLenient (csEnviron sys) raw) config_defaults")
    case (Inl e)
    with Inr show ?thesis by (auto simp: load_file_def)
  next
    case 2: (Inr first)
    have "(case Expand (csEnviron sys) raw of Inl err \<Rightarrow> Inl err | Inr expanded \<Rightarrow> csUnmarshal sys expanded first) = Inr base
        \<longleftrightarrow> (\<forall>key \<in> set (expand_refs raw). map_of (csEnviron sys) key \<noteq> None) \<and>
          csUnmarshal sys (ExpandLenient (csEnviron sys) raw) first = Inr base"
    proof (cases "\<forall>key \<in> set (expand_refs raw). map_of (csEnviron sys) key \<noteq> None")
      case True
      then have "Expand (csEnviron sys) raw = Inr (ExpandLenient (csEnviron sys) raw)" by (simp only: Expand_iff)
      with True show ?thesis by simp
    next
      case False
      then obtain err where "Expand (csEnviron sys) raw = Inl err"
        by (cases "Expand (csEnviron sys) raw") (auto simp: Expand_iff)
      with False show ?thesis by simp
    qed
    with Inr 2 show ?thesis by (auto simp: load_file_def)
  qed
qed

text \<open>
  C25. What a loaded configuration is. It meets every rule of its tags: known types for sources,
  upstreams, store and authentication, the fields each of them needs, priorities and intervals in
  range, a listening address that parses. And it is the overlay of the environment, variable by
  variable, on the defaults when there is no file, and otherwise on what the expanded file decodes
  to; with \<open>strict_env\<close> every variable the file refers to is set. A file that is there but cannot be
  read, expanded or decoded never gives a configuration.
\<close>

theorem Load_exact:
  assumes "config_Load lib ord sys path = Inr cfg"
  shows "config_ok lib cfg \<and>
    (\<exists>base. cfg = overlay_config ord (collectEnv ''BEACONS_'' (csEnviron sys)) base \<and>
       (if path = [] \<or> (\<exists>e. csReadFile sys path = Inl e \<and> csIsNotExist sys e) then base = config_defaults
        else \<exists>raw first. csReadFile sys path = Inr raw \<and>
          csUnmarshal sys (ExpandLenient (csEnviron sys) raw) config_defaults = Inr first \<and>
          (if syStrictEnv (cfSync first)
           then (\<forall>key \<in> set (expand_refs raw). map_of (csEnviron sys) key \<noteq> None) \<and>
             csUnmarshal sys (ExpandLenient (csEnviron sys) raw) first = Inr base
           else base = first)))"
proof -
  from assms obtain base where b: "load_file sys path = Inr base"
    "cfg = overlay_config ord (collectEnv ''BEACONS_'' (csEnviron sys)) base" "config_ok lib cfg"
    unfolding config_Load_overlay by (auto simp: Let_def split: sum.splits if_splits)
  from b(2,3) b(1) [unfolded load_file_Inr] show ?thesis by blast
qed

text \<open>The other direction: what meets the rules is loaded.\<close>

lemma Load_succeeds:
  assumes "load_file sys path = Inr base"
    "config_ok lib (overlay_config ord (collectEnv ''BEACONS_'' (csEnviron sys)) base)"
  shows "config_Load lib ord sys path = Inr (overlay_config ord (collectEnv ''BEACONS_'' (csEnviron sys)) base)"
  using assms by (simp add: config_Load_overlay Let_def)

text \<open>A start without a file, with one variable in the environment.\<close>

definition plain_env :: env_orders where
  "plain_env = \<lparr>eoEnv = (\<lambda>_. in_order), eoTokens = (\<lambda>_. in_order), eoKeys = (\<lambda>_. in_order)\<rparr>"

definition sample_config_sys :: config_sys where
  "sample_config_sys = \<lparr>csReadFile = (\<lambda>p. Inl (OtherError ''no such file'')), csIsNotExist = (\<lambda>e. True),
     csUnmarshal = (\<lambda>t c. Inr c), csEnviron = [(''HOME'', ''/''), (''BEACONS_SYNC_DRY_RUN'', ''true'')]\<rparr>"

lemma sample_env: "collectEnv ''BEACONS_'' (csEnviron sample_config_sys) = [(''BEACONS_SYNC_DRY_RUN'', ''true'')]"
  by code_simp

lemma sample_dry_run:
  "overlay_config plain_env [(''BEACONS_SYNC_DRY_RUN'', ''true'')] config_defaults
     = config_defaults\<lparr>cfSync := cfSync config_defaults\<lparr>syDryRun := True\<rparr>\<rparr>"
proof -
  have k: "key_token ''BEACONS_SOURCES__'' ''BEACONS_SYNC_DRY_RUN'' = None"
    "key_token ''BEACONS_UPSTREAMS__'' ''BEACONS_SYNC_DRY_RUN'' = None"
    by code_simp+
  have b: "parse_bool ''true'' = Some True" by code_simp
  show ?thesis
    by (simp add: overlay_config_def config_defaults_def overlay_base_def overlay_sync_def overlay_store_def
        overlay_http_def overlay_map_def env_str_def env_int_def env_bool_def k b zero_base_def plain_env_def Let_def)
qed

lemma sample_config_ok: "config_ok sample_lib (config_defaults\<lparr>cfSync := cfSync config_defaults\<lparr>syDryRun := True\<rparr>\<rparr>)"
proof -
  have "split_host_port '':9090'' \<noteq> None" by code_simp
  then show ?thesis by (simp add: config_ok_def config_defaults_def zero_base_def)
qed

theorem Load_exact_witness:
  "\<exists>cfg. config_Load sample_lib plain_env sample_config_sys ''beacons.yaml'' = Inr cfg \<and>
     config_ok sample_lib cfg \<and> syDryRun (cfSync cfg)"
proof -
  have f: "load_file sample_config_sys ''beacons.yaml'' = Inr config_defaults"
    by (simp add: load_file_def sample_config_sys_def)
  have "config_Load sample_lib plain_env sample_config_sys ''beacons.yaml''
      = Inr (config_defaults\<lparr>cfSync := cfSync config_defaults\<lparr>syDryRun := True\<rparr>\<rparr>)"
    using Load_succeeds [OF f, of sample_lib plain_env] sample_config_ok
    unfolding sample_env sample_dry_run by blast
  moreover from Load_exact [OF this] have "config_ok sample_lib
      (config_defaults\<lparr>cfSync := cfSync config_defaults\<lparr>syDryRun := True\<rparr>\<rparr>)" by blast
  ultimately show ?thesis by auto
qed

text \<open>
  \<open>BEACONS_SYNC_STRICT_ENV\<close> comes too late for the file: the setting that decides about unset
  variables in it is the one before the overlay.
\<close>

lemma strict_env_variable_ignored:
  assumes "csReadFile sys path = Inr raw" "path \<noteq> []"
    "csUnmarshal sys (ExpandLenient (csEnviron sys) raw) config_defaults = Inr first"
    "syStrictEnv (cfSync first)" "Expand (csEnviron sys) raw = Inl err"
  shows "config_Load lib ord sys path = Inl err"
  using assms by (simp add: config_Load_def load_file_def)

end
