(* ===== verification/Server.thy ===== *)
theory Server
  imports Transport Registry
begin

text \<open>
  \<open>internal/server\<close> and \<open>internal/healthcheck\<close>: the authenticators, the three routes with their
  handlers, how \<open>Run\<close> ends, and the client behind \<open>-healthcheck\<close>. The patterns of \<open>http.ServeMux\<close>
  used are exact paths; what the mux answers itself (404, 405, redirects of unclean paths), the
  \<open>/metrics\<close> handler, the JSON encoders and \<open>crypto/rand\<close> are arguments. The sockets, what \<open>net/http\<close> does
  with its timeouts, and logging are left out. Proved here: the constant-time comparison is equality; without the key
  \<open>/state\<close> says the same whatever the store holds, with it everything; which configurations leave it
  open; the health check agrees with the store.
\<close>

section \<open>Authentication\<close>

record incoming =
  inMethod :: string
  inPath :: string
  inHeader :: http_header

datatype authenticator = NoAuth | ApiKeyAuth string

text \<open>\<open>subtle.ConstantTimeCompare\<close>: every byte is looked at, and the differences are collected in one.\<close>

definition byte :: "char \<Rightarrow> 8 word" where
  "byte c = word_of_nat (of_char c)"

fun ct_fold :: "8 word \<Rightarrow> string \<Rightarrow> string \<Rightarrow> 8 word" where
  "ct_fold v (x # xs) (y # ys) = ct_fold (or v (xor (byte x) (byte y))) xs ys"
| "ct_fold v xs ys = v"

definition ConstantTimeCompare :: "string \<Rightarrow> string \<Rightarrow> int" where
  "ConstantTimeCompare x y = (if length x \<noteq> length y then 0 else if ct_fold 0 x y = 0 then 1 else 0)"

fun Authenticate :: "authenticator \<Rightarrow> incoming \<Rightarrow> bool" where
  "Authenticate NoAuth r = True"
| "Authenticate (ApiKeyAuth key) r =
     (let got = header_get (inHeader r) ''X-API-Key'' in got \<noteq> '''' \<and> ConstantTimeCompare got key = 1)"

record server_AuthConfig =
  saType :: string
  saAPIKey :: string

definition hex_encode :: "string \<Rightarrow> string" where
  "hex_encode bs = concat (map (\<lambda>c. [hex_char (of_char c div 16), hex_char (of_char c mod 16)]) bs)"

text \<open>The argument is what \<open>rand.Read\<close> makes of a buffer of 32 bytes.\<close>

definition generateAPIKey :: "error + string \<Rightarrow> error + string" where
  "generateAPIKey rand = (case rand of Inl err \<Rightarrow> Inl err | Inr buf \<Rightarrow> Inr (hex_encode buf))"

definition NewAuthenticator :: "error + string \<Rightarrow> server_AuthConfig \<Rightarrow> error + authenticator" where
  "NewAuthenticator rand cfg =
     (if saType cfg = '''' \<or> saType cfg = ''none'' then Inr NoAuth
      else if saType cfg = ''api_key'' then
        (if saAPIKey cfg = '''' then
           (case generateAPIKey rand of
              Inl err \<Rightarrow> Inl (Wrapped ''generate api key: '' err '''')
            | Inr generated \<Rightarrow> Inr (ApiKeyAuth generated))
         else Inr (ApiKeyAuth (saAPIKey cfg)))
      else Inl (OtherError (''unknown http auth type '' @ go_quote (saType cfg))))"

section \<open>Routes\<close>

record healthResponse =
  hrStatus :: string
  hrRecords :: nat

record errorResponse =
  erError :: string

record stateResponse =
  srCount :: nat
  srRecords :: "Record list"

text \<open>The JSON encoder at its three types.\<close>

record json_encoders =
  jeHealth :: "healthResponse \<Rightarrow> string"
  jeState :: "stateResponse \<Rightarrow> string"
  jeError :: "errorResponse \<Rightarrow> string"

record 's server =
  svOps :: "'s store_ops"
  svAuth :: authenticator
  svJson :: json_encoders
  svMetrics :: "incoming \<Rightarrow> http_response"
  svMux :: "incoming \<Rightarrow> http_response"

type_synonym 's handler = "incoming \<Rightarrow> (string \<times> Record) iteration \<Rightarrow> 's \<Rightarrow> http_response"

definition json_header :: http_header where
  "json_header = header_set ''Content-Type'' ''application/json'' []"

definition writeJSONError :: "json_encoders \<Rightarrow> int \<Rightarrow> string \<Rightarrow> http_response" where
  "writeJSONError je status msg = \<lparr>respStatus = status, respHeader = json_header, respBody = jeError je \<lparr>erError = msg\<rparr>\<rparr>"

definition handleHealth :: "'s server \<Rightarrow> 's handler" where
  "handleHealth sv r it s =
     (case stList (svOps sv) it s of
        Inl err \<Rightarrow> writeJSONError (svJson sv) 503 ''failed to list records''
      | Inr records \<Rightarrow>
          \<lparr>respStatus = 200, respHeader = json_header,
           respBody = jeHealth (svJson sv) \<lparr>hrStatus = ''ok'', hrRecords = length records\<rparr>\<rparr>)"

definition handleState :: "'s server \<Rightarrow> 's handler" where
  "handleState sv r it s =
     (case stList (svOps sv) it s of
        Inl err \<Rightarrow> writeJSONError (svJson sv) 503 ''failed to list records''
      | Inr records \<Rightarrow>
          \<lparr>respStatus = 200, respHeader = json_header,
           respBody = jeState (svJson sv) \<lparr>srCount = length records, srRecords = records\<rparr>\<rparr>)"

definition requireAuth :: "json_encoders \<Rightarrow> authenticator \<Rightarrow> 's handler \<Rightarrow> 's handler" where
  "requireAuth je auth h r it s =
     (if \<not> Authenticate auth r then writeJSONError je 401 ''unauthorized'' else h r it s)"

text \<open>
  The handler \<open>New\<close> builds; no authenticator in the options is \<open>noAuth\<close>. A \<open>GET\<close> pattern also matches
  \<open>HEAD\<close>.
\<close>

definition NewServer ::
  "'s store_ops \<Rightarrow> authenticator option \<Rightarrow> json_encoders \<Rightarrow> (incoming \<Rightarrow> http_response)
     \<Rightarrow> (incoming \<Rightarrow> http_response) \<Rightarrow> 's server" where
  "NewServer ops auth je metrics mux =
     \<lparr>svOps = ops, svAuth = (case auth of None \<Rightarrow> NoAuth | Some a \<Rightarrow> a), svJson = je, svMetrics = metrics, svMux = mux\<rparr>"

definition get_route :: "string \<Rightarrow> incoming \<Rightarrow> bool" where
  "get_route path r \<longleftrightarrow> inPath r = path \<and> (inMethod r = ''GET'' \<or> inMethod r = ''HEAD'')"

definition serve :: "'s server \<Rightarrow> 's handler" where
  "serve sv r it s =
     (if get_route ''/healthz'' r then handleHealth sv r it s
      else if get_route ''/state'' r then requireAuth (svJson sv) (svAuth sv) (handleState sv) r it s
      else if get_route ''/metrics'' r then svMetrics sv r
      else svMux sv r)"

text \<open>The \<open>http.Server\<close> that \<open>Run\<close> starts; the fourth timeout bounds its shutdown.\<close>

record Timeouts =
  ReadTimeout :: int
  WriteTimeout :: int
  IdleTimeout :: int
  ShutdownTimeout :: int

record 's http_server =
  hsHandler :: "'s handler"
  hsReadTimeout :: int
  hsWriteTimeout :: int
  hsIdleTimeout :: int

definition new_http_server :: "'s server \<Rightarrow> Timeouts \<Rightarrow> 's http_server" where
  "new_http_server sv t = \<lparr>hsHandler = serve sv, hsReadTimeout = ReadTimeout t, hsWriteTimeout = WriteTimeout t,
     hsIdleTimeout = IdleTimeout t\<rparr>"

text \<open>
  How \<open>Run\<close> ends: the error of \<open>net.Listen\<close>, or what \<open>Serve\<close> returned, \<open>None\<close> standing for
  \<open>http.ErrServerClosed\<close>.
\<close>

definition server_Run :: "error option \<Rightarrow> error option \<Rightarrow> error option" where
  "server_Run listenErr serveErr = (case listenErr of Some err \<Rightarrow> Some err | None \<Rightarrow> serveErr)"

section \<open>The health check command\<close>

definition health_Check ::
  "(string \<Rightarrow> error option) \<Rightarrow> 'w transport \<Rightarrow> string \<Rightarrow> 'w \<Rightarrow> error option \<times> 'w" where
  "health_Check urlErr Do baseURL w =
     (let url = baseURL @ ''/healthz'' in
      case urlErr url of
        Some err \<Rightarrow> (Some (Wrapped ''build request: '' err ''''), w)
      | None \<Rightarrow>
          (case Do \<lparr>rqMethod = ''GET'', rqURL = url, rqHeader = [], rqBody = None, rqGetBody = None,
                   rqDeadline = None\<rparr> w of
             (Inl err, w1) \<Rightarrow> (Some (Wrapped ''request failed: '' err ''''), w1)
           | (Inr resp, w1) \<Rightarrow>
               (if respStatus resp \<noteq> 200
                then Some (OtherError (''unexpected status '' @ itoa (respStatus resp))) else None, w1)))"

section \<open>What a request can learn\<close>

lemma byte_eq_iff [simp]: "byte c = byte d \<longleftrightarrow> c = d"
proof
  assume "byte c = byte d"
  then have "(of_char c :: nat) = of_char d"
    by (simp add: byte_def word_of_nat_eq_iff take_bit_nat_eq_self)
  then show "c = d" by simp
qed simp

lemma xor_eq_0_iff: "xor a b = 0 \<longleftrightarrow> a = b" for a b :: "8 word"
proof
  assume "xor a b = 0"
  then have "xor (xor a b) b = b" by simp
  then show "a = b" by (simp add: xor.assoc)
qed simp

lemma ct_fold_zero: "length x = length y \<Longrightarrow> ct_fold v x y = 0 \<longleftrightarrow> v = 0 \<and> x = y"
proof (induction v x y rule: ct_fold.induct)
  case (1 v x xs y ys)
  have "or v (xor (byte x) (byte y)) = 0 \<longleftrightarrow> v = 0 \<and> x = y"
    by (simp add: or_eq_0_iff xor_eq_0_iff)
  with 1 show ?case by auto
qed auto

text \<open>The constant-time comparison is equality.\<close>

lemma ConstantTimeCompare_iff: "ConstantTimeCompare x y = 1 \<longleftrightarrow> x = y"
  using ct_fold_zero [of x y 0] by (auto simp: ConstantTimeCompare_def)

lemma Authenticate_iff:
  "Authenticate (ApiKeyAuth key) r \<longleftrightarrow> key \<noteq> [] \<and> header_get (inHeader r) ''X-API-Key'' = key"
  by (auto simp: ConstantTimeCompare_iff Let_def)

text \<open>What a client without the key may learn of the store: whether it can be listed, and how many records it has.\<close>

definition store_size :: "'s server \<Rightarrow> (string \<times> Record) iteration \<Rightarrow> 's \<Rightarrow> nat option" where
  "store_size sv it s = (case stList (svOps sv) it s of Inl err \<Rightarrow> None | Inr rs \<Rightarrow> Some (length rs))"

lemma handleHealth_size:
  "store_size sv it s = store_size sv it' s' \<Longrightarrow> handleHealth sv r it s = handleHealth sv r it' s'"
  by (auto simp: store_size_def handleHealth_def split: sum.splits)

lemma get_route_state: "get_route ''/state'' r \<Longrightarrow> \<not> get_route ''/healthz'' r"
  by (simp add: get_route_def)

lemma serve_no_key:
  assumes "svAuth sv = ApiKeyAuth key" "header_get (inHeader r) ''X-API-Key'' \<noteq> key"
    "store_size sv it s = store_size sv it' s'"
  shows "serve sv r it s = serve sv r it' s'"
  using assms handleHealth_size [OF assms(3)]
  by (simp add: serve_def requireAuth_def Authenticate_iff del: Authenticate.simps)

lemma serve_key:
  assumes "svAuth sv = ApiKeyAuth key" "key \<noteq> []" "header_get (inHeader r) ''X-API-Key'' = key"
    "get_route ''/state'' r"
  shows "serve sv r it s = handleState sv r it s"
  using assms get_route_state [OF assms(4)]
  by (simp add: serve_def requireAuth_def Authenticate_iff del: Authenticate.simps)

lemma hex_encode_length: "length (hex_encode bs) = 2 * length bs"
  by (induction bs) (simp_all add: hex_encode_def)

lemma NewAuthenticator_key:
  assumes "NewAuthenticator rand cfg = Inr auth" "saType cfg = ''api_key''"
    "\<forall>buf. rand = Inr buf \<longrightarrow> length buf = 32"
  shows "\<exists>key. auth = ApiKeyAuth key \<and> key \<noteq> [] \<and>
    (if saAPIKey cfg = [] then length key = 64 else key = saAPIKey cfg)"
proof (cases "saAPIKey cfg = []")
  case True
  with assms(1,2) obtain buf where b: "rand = Inr buf" "auth = ApiKeyAuth (hex_encode buf)"
    by (auto simp: NewAuthenticator_def generateAPIKey_def split: sum.splits)
  with assms(3) have "length (hex_encode buf) = 64" by (simp add: hex_encode_length)
  with b True show ?thesis by (intro exI [of _ "hex_encode buf"]) auto
next
  case False
  with assms(1,2) show ?thesis by (auto simp: NewAuthenticator_def)
qed

text \<open>
  C26. The records are behind the key. With \<open>api_key\<close> authentication there is a key, the configured one
  or 64 generated hexadecimal digits, never the empty one, such that: whatever a client sends without
  it, on any route and method, the answer is the same for any two stores that hold equally many
  records, so it reveals nothing of them but their number; and \<open>/state\<close> answers a client that sends it
  with all records of the store.
\<close>

theorem state_needs_key:
  assumes "NewAuthenticator rand cfg = Inr auth" "saType cfg = ''api_key''"
    "\<forall>buf. rand = Inr buf \<longrightarrow> length buf = 32"
  shows "\<exists>key. key \<noteq> [] \<and> (if saAPIKey cfg = [] then length key = 64 else key = saAPIKey cfg) \<and>
    (let sv = NewServer ops (Some auth) je metrics mux in
      (\<forall>r it s it' s'. header_get (inHeader r) ''X-API-Key'' \<noteq> key \<and> store_size sv it s = store_size sv it' s' \<longrightarrow>
         serve sv r it s = serve sv r it' s') \<and>
      (\<forall>r it s rs. get_route ''/state'' r \<and> header_get (inHeader r) ''X-API-Key'' = key \<and> stList ops it s = Inr rs \<longrightarrow>
         respStatus (serve sv r it s) = 200 \<and> respBody (serve sv r it s) = jeState je \<lparr>srCount = length rs, srRecords = rs\<rparr>))"
proof -
  from NewAuthenticator_key [OF assms] obtain key where k: "auth = ApiKeyAuth key" "key \<noteq> []"
    "if saAPIKey cfg = [] then length key = 64 else key = saAPIKey cfg" by blast
  define sv where "sv = NewServer ops (Some auth) je metrics mux"
  have a: "svAuth sv = ApiKeyAuth key" "svOps sv = ops" "svJson sv = je"
    by (simp_all add: sv_def NewServer_def k(1))
  have "serve sv r it s = serve sv r it' s'"
    if "header_get (inHeader r) ''X-API-Key'' \<noteq> key \<and> store_size sv it s = store_size sv it' s'" for r it s it' s'
    using serve_no_key [OF a(1)] that by blast
  moreover have "respStatus (serve sv r it s) = 200 \<and> respBody (serve sv r it s) = jeState je \<lparr>srCount = length rs, srRecords = rs\<rparr>"
    if "get_route ''/state'' r \<and> header_get (inHeader r) ''X-API-Key'' = key \<and> stList ops it s = Inr rs" for r it s rs
    using serve_key [OF a(1) k(2)] that a(2,3) by (simp add: handleState_def)
  ultimately show ?thesis
    unfolding sv_def [symmetric] Let_def using k(2,3) by blast
qed

definition sample_json :: json_encoders where
  "sample_json = \<lparr>jeHealth = (\<lambda>h. hrStatus h @ itoa (int (hrRecords h))),
     jeState = (\<lambda>st. concat (map Name (srRecords st))), jeError = erError\<rparr>"

definition sample_state_request :: "string \<Rightarrow> incoming" where
  "sample_state_request key = \<lparr>inMethod = ''GET'', inPath = ''/state'', inHeader = [(''X-Api-Key'', [key])]\<rparr>"

definition not_found :: http_response where
  "not_found = \<lparr>respStatus = 404, respHeader = [], respBody = ''404 page not found''\<rparr>"

definition sample_server :: "memory_store server" where
  "sample_server = NewServer memory_ops (Some (ApiKeyAuth ''k1'')) sample_json (\<lambda>r. not_found) (\<lambda>r. not_found)"

theorem state_needs_key_witness:
  "serve sample_server (sample_state_request ''k2'') in_order [(''a'', zero_record\<lparr>Name := ''x''\<rparr>)]
     = serve sample_server (sample_state_request ''k2'') in_order [(''b'', zero_record\<lparr>Name := ''y''\<rparr>)] \<and>
   respBody (serve sample_server (sample_state_request ''k1'') in_order [(''a'', zero_record\<lparr>Name := ''x''\<rparr>)]) = ''x''"
proof -
  have n: "NewAuthenticator (Inl AuthFailed) \<lparr>saType = ''api_key'', saAPIKey = ''k1''\<rparr> = Inr (ApiKeyAuth ''k1'')"
    "saType \<lparr>saType = ''api_key'', saAPIKey = ''k1''\<rparr> = ''api_key''"
    "\<forall>buf. (Inl AuthFailed :: error + string) = Inr buf \<longrightarrow> length buf = 32"
    by (simp_all add: NewAuthenticator_def)
  have "canonical_key ''X-API-Key'' = ''X-Api-Key''" by code_simp
  then have k: "header_get (inHeader (sample_state_request k)) ''X-API-Key'' = k" for k
    by (simp add: sample_state_request_def header_get_def)
  have l: "stList memory_ops in_order m = Inr (map snd m)" for m
    by (simp add: memory_ops_def mem_list_def)
  obtain key where key: "if saAPIKey \<lparr>saType = ''api_key'', saAPIKey = ''k1''\<rparr> = [] then length key = 64
        else key = saAPIKey \<lparr>saType = ''api_key'', saAPIKey = ''k1''\<rparr>"
    and both: "let sv = NewServer memory_ops (Some (ApiKeyAuth ''k1'')) sample_json (\<lambda>r. not_found) (\<lambda>r. not_found) in
      (\<forall>r it s it' s'. header_get (inHeader r) ''X-API-Key'' \<noteq> key \<and> store_size sv it s = store_size sv it' s' \<longrightarrow>
         serve sv r it s = serve sv r it' s') \<and>
      (\<forall>r it s rs. get_route ''/state'' r \<and> header_get (inHeader r) ''X-API-Key'' = key \<and>
         stList memory_ops it s = Inr rs \<longrightarrow>
         respStatus (serve sv r it s) = 200 \<and> respBody (serve sv r it s) = jeState sample_json \<lparr>srCount = length rs, srRecords = rs\<rparr>)"
    using state_needs_key [OF n, of memory_ops sample_json "\<lambda>r. not_found" "\<lambda>r. not_found"]
    by (elim exE conjE) (rule that; assumption)
  have k1: "key = ''k1''" using key by simp
  note both = both [unfolded Let_def k1, folded sample_server_def]
  have size: "store_size sample_server in_order [(a, x)] = store_size sample_server in_order [(b, y)]" for a x b y
    by (simp add: store_size_def sample_server_def NewServer_def l)
  have "header_get (inHeader (sample_state_request ''k2'')) ''X-API-Key'' \<noteq> ''k1''" unfolding k by simp
  with size have "serve sample_server (sample_state_request ''k2'') in_order [(''a'', zero_record\<lparr>Name := ''x''\<rparr>)]
      = serve sample_server (sample_state_request ''k2'') in_order [(''b'', zero_record\<lparr>Name := ''y''\<rparr>)]"
    by (intro both [THEN conjunct1, rule_format] conjI)
  moreover have g: "get_route ''/state'' (sample_state_request key)" for key
    by (simp add: get_route_def sample_state_request_def)
  have "stList memory_ops in_order [(''a'', zero_record\<lparr>Name := ''x''\<rparr>)] = Inr [zero_record\<lparr>Name := ''x''\<rparr>]"
    unfolding l by simp
  from both [THEN conjunct2, rule_format, OF conjI [OF g conjI [OF k this]]]
  have "respBody (serve sample_server (sample_state_request ''k1'') in_order [(''a'', zero_record\<lparr>Name := ''x''\<rparr>)])
      = jeState sample_json
          \<lparr>srCount = length [zero_record\<lparr>Name := ''x''\<rparr>], srRecords = [zero_record\<lparr>Name := ''x''\<rparr>]\<rparr>"
    by (rule conjunct2)
  then have "respBody (serve sample_server (sample_state_request ''k1'') in_order [(''a'', zero_record\<lparr>Name := ''x''\<rparr>)])
      = ''x''" by (simp add: sample_json_def)
  ultimately show ?thesis by (rule conjI)
qed

text \<open>
  An empty type, which the rules of the configuration allow, leaves \<open>/state\<close> open: a variable that is
  unset in a leniently expanded file is enough.
\<close>

lemma empty_type_is_open:
  "NewAuthenticator rand \<lparr>saType = [], saAPIKey = key\<rparr> = Inr NoAuth \<and>
   (get_route ''/state'' r \<longrightarrow> serve (NewServer ops (Some NoAuth) je metrics mux) r it s
      = handleState (NewServer ops (Some NoAuth) je metrics mux) r it s)"
  by (auto simp: NewAuthenticator_def serve_def requireAuth_def NewServer_def get_route_def)

text \<open>The health check, run against the server, passes exactly when the store can be listed.\<close>

definition to_server :: "'s server \<Rightarrow> (string \<times> Record) iteration \<Rightarrow> string \<Rightarrow> 's transport" where
  "to_server sv it baseURL req s =
     (Inr (serve sv \<lparr>inMethod = rqMethod req, inPath = drop (length baseURL) (rqURL req), inHeader = rqHeader req\<rparr> it s), s)"

lemma health_Check_server:
  assumes "urlErr (baseURL @ ''/healthz'') = None"
  shows "fst (health_Check urlErr (to_server sv it baseURL) baseURL s) = None \<longleftrightarrow>
    (\<exists>rs. stList (svOps sv) it s = Inr rs)"
  using assms
  by (auto simp: health_Check_def to_server_def serve_def get_route_def handleHealth_def writeJSONError_def Let_def
      split: sum.splits)

end
