(* ===== verification/Metrics_Registry.thy ===== *)
theory Metrics_Registry
  imports Transport
begin

text \<open>
  \<open>internal/metrics/metrics.go\<close>: the instruments as maps from label values to counts, gauges and
  lists of observations, and the methods that change them. The vectors with their labels, and their
  registration, are in \<open>Instruments\<close>; durations are in nanoseconds. Proved here: the API counter counts the attempts the transport
  makes, one by one, under the right status, and nothing else.
\<close>

record metrics =
  mtSyncTotal :: "(string \<times> string \<times> string, nat) go_map"
  mtSyncLatency :: "(string \<times> string, int list) go_map"
  mtDriftTotal :: "(string \<times> string, nat) go_map"
  mtAPICalls :: "(string \<times> string \<times> string, nat) go_map"
  mtAPILatency :: "(string \<times> string, int list) go_map"
  mtBreakerOpen :: "(string, bool) go_map"
  mtBackoffGated :: "(string, nat) go_map"

definition counter_inc :: "'l \<Rightarrow> ('l, nat) go_map \<Rightarrow> ('l, nat) go_map" where
  "counter_inc l c = go_put l (go_get 0 c l + 1) c"

definition observe :: "'l \<Rightarrow> int \<Rightarrow> ('l, int list) go_map \<Rightarrow> ('l, int list) go_map" where
  "observe l d h = go_put l (go_get [] h l @ [d]) h"

definition RecordSync :: "string \<Rightarrow> string \<Rightarrow> string \<Rightarrow> int \<Rightarrow> metrics \<Rightarrow> metrics" where
  "RecordSync upstream operation result dur m =
     m\<lparr>mtSyncTotal := counter_inc (upstream, operation, result) (mtSyncTotal m),
       mtSyncLatency := observe (upstream, operation) dur (mtSyncLatency m)\<rparr>"

definition RecordDrift :: "string \<Rightarrow> string \<Rightarrow> metrics \<Rightarrow> metrics" where
  "RecordDrift upstream reason m = m\<lparr>mtDriftTotal := counter_inc (upstream, reason) (mtDriftTotal m)\<rparr>"

definition statusLabel :: "int \<Rightarrow> string" where
  "statusLabel status = (if status = 0 then ''error'' else itoa status)"

definition RecordAPICall :: "string \<Rightarrow> string \<Rightarrow> int \<Rightarrow> int \<Rightarrow> metrics \<Rightarrow> metrics" where
  "RecordAPICall upstream meth status dur m =
     m\<lparr>mtAPICalls := counter_inc (upstream, meth, statusLabel status) (mtAPICalls m),
       mtAPILatency := observe (upstream, meth) dur (mtAPILatency m)\<rparr>"

definition SetCircuitBreakerOpen :: "string \<Rightarrow> bool \<Rightarrow> metrics \<Rightarrow> metrics" where
  "SetCircuitBreakerOpen upstream isOpen m = m\<lparr>mtBreakerOpen := go_put upstream isOpen (mtBreakerOpen m)\<rparr>"

definition RecordBackoffGated :: "string \<Rightarrow> metrics \<Rightarrow> metrics" where
  "RecordBackoffGated upstream m = m\<lparr>mtBackoffGated := counter_inc upstream (mtBackoffGated m)\<rparr>"

section \<open>The counter of API calls\<close>

lemma counter_inc_get [simp]:
  "go_get 0 (counter_inc l c) j = go_get 0 c j + (if j = l then 1 else 0)"
  by (simp add: counter_inc_def)

lemma itoa_not_error: "itoa n \<noteq> ''error''"
proof -
  have "hd (itoa n) \<noteq> CHR ''e''"
  proof (cases "n < 0")
    case True
    then show ?thesis by (simp add: itoa_def)
  next
    case False
    then have "itoa n = nat_decimal (nat n)" by (simp add: itoa_def)
    moreover have "hd (nat_decimal (nat n)) \<in> set (nat_decimal (nat n))" by (rule hd_in_set) simp
    then have "char_digit (hd (nat_decimal (nat n))) \<noteq> None" by (rule nat_decimal_digits)
    moreover have "char_digit (CHR ''e'') = None" by code_simp
    ultimately show ?thesis by metis
  qed
  then show ?thesis by auto
qed

text \<open>Statuses have labels of their own: no status reads as a failed call.\<close>

lemma statusLabel_inj:
  assumes "in_int64 s" "in_int64 t" "statusLabel s = statusLabel t"
  shows "s = t"
proof (cases "s = 0 \<or> t = 0")
  case True
  then show ?thesis
    using assms(3) itoa_not_error [of s] itoa_not_error [of t] by (auto simp: statusLabel_def split: if_splits)
next
  case False
  then have "itoa s = itoa t" using assms(3) by (simp add: statusLabel_def)
  then have "atoi (itoa s) = atoi (itoa t)" by simp
  then show ?thesis by (simp add: atoi_itoa assms(1,2))
qed

text \<open>
  A recorder over a world that holds the instruments; \<open>dur\<close> is how long the attempt took.
\<close>

record 'n metered_world =
  mwMetrics :: metrics
  mwNet :: 'n

definition recorder :: "('n metered_world \<Rightarrow> int) \<Rightarrow> string \<Rightarrow> string \<Rightarrow> int \<Rightarrow> 'n metered_world \<Rightarrow> 'n metered_world" where
  "recorder dur upstream meth status w =
     w\<lparr>mwMetrics := RecordAPICall upstream meth status (dur w) (mwMetrics w)\<rparr>"

definition under_meter :: "'n transport \<Rightarrow> 'n metered_world transport" where
  "under_meter next req w = (case next req (mwNet w) of (res, n) \<Rightarrow> (res, w\<lparr>mwNet := n\<rparr>))"

definition attempt_status :: "error + http_response \<Rightarrow> int" where
  "attempt_status res = (case res of Inl _ \<Rightarrow> 0 | Inr resp \<Rightarrow> respStatus resp)"

text \<open>One attempt through the middleware is counted once, under its method and status.\<close>

lemma Metrics_counts:
  assumes "Transport.Metrics name (Some (recorder dur)) (under_meter net) req w = (res, w')"
  shows "fst (net req (mwNet w)) = res \<and> mwNet w' = snd (net req (mwNet w)) \<and>
    go_get 0 (mtAPICalls (mwMetrics w')) l
      = go_get 0 (mtAPICalls (mwMetrics w)) l +
        (if l = (name, rqMethod req, statusLabel (attempt_status res)) then 1 else 0)"
  using assms
  by (auto simp: Transport.Metrics_def recorder_def under_meter_def RecordAPICall_def attempt_status_def
      split: prod.splits)

end
