(* ===== verification/Wiring.thy ===== *)
theory Wiring
  imports Config Yaml_Source Docker_Source Reconcile Pihole Technitium Cloudflare Server Metrics_Registry
begin

text \<open>
  \<open>cmd/beacons/main.go\<close> and \<open>internal/validateconfig\<close>: how a configuration becomes upstreams, sources,
  a store and a reconciler, and the dispatch on the command-line flags; what follows the start is in \<open>Lifecycle\<close>. The
  constructors are arguments in the record \<open>builders\<close>, instantiated at the end for the adapters whose
  model is a total upstream. The logger is a choice of handler; signals and goroutines are in \<open>Lifecycle\<close>, log lines are left out. Proved here: every
  configured upstream and source is wired, none as an unknown type; a dry run reaches no upstream;
  what \<open>-validate-config\<close> reads and when it passes.
\<close>

section \<open>Options\<close>

datatype slog_level = LevelDebug | LevelInfo | LevelWarn | LevelError

definition logLevel :: "string \<Rightarrow> slog_level" where
  "logLevel level =
     (let l = to_lower level in
      if l = ''debug'' then LevelDebug else if l = ''warn'' then LevelWarn
      else if l = ''error'' then LevelError else LevelInfo)"

text \<open>
  \<open>strings.EqualFold\<close> with a text of lower-case ASCII letters: case is ignored, and so is the difference
  between an \<open>s\<close> and the long s (U+017F), a \<open>k\<close> and the Kelvin sign (U+212A), here as their UTF-8 bytes.
\<close>

fun fold_simple :: "string \<Rightarrow> string" where
  "fold_simple (a # b # c # cs) =
     (if a = CHR 0xC5 \<and> b = CHR 0xBF then CHR ''s'' # fold_simple (c # cs)
      else if a = CHR 0xE2 \<and> b = CHR 0x84 \<and> c = CHR 0xAA then CHR ''k'' # fold_simple cs
      else lower_char a # fold_simple (b # c # cs))"
| "fold_simple [a, b] = (if a = CHR 0xC5 \<and> b = CHR 0xBF then ''s'' else [lower_char a, lower_char b])"
| "fold_simple [a] = [lower_char a]"
| "fold_simple [] = []"

definition EqualFold :: "string \<Rightarrow> string \<Rightarrow> bool" where
  "EqualFold s t \<longleftrightarrow> fold_simple s = fold_simple t"

datatype slog_handler = JSONHandler slog_level | TextHandler slog_level

text \<open>The handler \<open>initLogger\<close> makes the default, from the environment.\<close>

definition initLogger :: "(string \<Rightarrow> string) \<Rightarrow> slog_handler" where
  "initLogger getenv =
     (let opts = logLevel (getenv ''BEACONS_LOG_LEVEL'') in
      if EqualFold (getenv ''BEACONS_LOG_FORMAT'') ''json'' then JSONHandler opts else TextHandler opts)"

lemma fold_simple_ascii: "list_all (\<lambda>c. (of_char c :: nat) < 128) s \<Longrightarrow> fold_simple s = to_lower s"
  by (induction s rule: fold_simple.induct) (auto simp: to_lower_def)

text \<open>A format in ASCII means JSON exactly when it is \<open>json\<close> in any case; everything else is text.\<close>

lemma initLogger_format:
  assumes "list_all (\<lambda>c. (of_char c :: nat) < 128) (getenv ''BEACONS_LOG_FORMAT'')"
  shows "initLogger getenv = (if to_lower (getenv ''BEACONS_LOG_FORMAT'') = ''json''
      then JSONHandler (logLevel (getenv ''BEACONS_LOG_LEVEL'')) else TextHandler (logLevel (getenv ''BEACONS_LOG_LEVEL'')))"
proof -
  have "fold_simple ''json'' = ''json''" by code_simp
  then show ?thesis using fold_simple_ascii [OF assms] by (simp add: initLogger_def EqualFold_def Let_def)
qed

text \<open>\<open>time.Duration(n) * unit\<close>.\<close>

definition duration :: "int \<Rightarrow> int \<Rightarrow> int" where
  "duration n unit = wrap64 (n * unit)"

definition httpRetryOptions :: "UpstreamHTTPConfig \<Rightarrow> RetryOptions" where
  "httpRetryOptions cfg =
     \<lparr>MaxAttempts = RetryMaxAttempts cfg, BaseDelay = duration (RetryBaseDelayMs cfg) millisecond_ns,
      MaxDelay = duration (RetryMaxDelayMs cfg) millisecond_ns\<rparr>"

definition httpDebugOptions :: "string \<Rightarrow> UpstreamHTTPConfig \<Rightarrow> DebugLogOptions" where
  "httpDebugOptions name cfg =
     \<lparr>dlEnabled = UpstreamHTTPConfig.DebugLog cfg, dlName = name, dlRevealSecrets = DebugLogSecrets cfg,
      dlMaxBodyBytes = 0\<rparr>"

section \<open>Builders\<close>

type_synonym 'w api_recorder = "(string \<Rightarrow> string \<Rightarrow> int \<Rightarrow> 'w \<Rightarrow> 'w) option"

record ('st, 'w) builders =
  bdCloudflare :: "'w cf_options \<Rightarrow> 'w \<Rightarrow> (error + 'w upstream) \<times> 'w"
  bdPihole :: "'w pihole_options \<Rightarrow> 'w upstream"
  bdTechnitium :: "'w technitium_options \<Rightarrow> 'w \<Rightarrow> (error + 'w upstream) \<times> 'w"
  bdDocker :: "string \<Rightarrow> docker_source \<Rightarrow> error + 'w snapshotter"
  bdYaml :: "yaml_source \<Rightarrow> 'w snapshotter"
  bdFileStore :: "string \<Rightarrow> error + 'st"
  bdMemoryStore :: 'st
  bdDebugCell :: "(debug_state, 'w) cell"
  bdMetrics :: "'w api_recorder"

text \<open>The debug middleware of a client whose options name the upstream.\<close>

definition debug_middleware :: "(debug_state, 'w) cell \<Rightarrow> DebugLogOptions \<Rightarrow> 'w middleware option" where
  "debug_middleware c opts = (if dlEnabled opts then Some (Debug_Log.DebugLog c opts) else None)"

definition buildStore :: "('st, 'w) builders \<Rightarrow> StoreConfig \<Rightarrow> error + 'st" where
  "buildStore b cfg =
     (if stType cfg = ''file'' then
        (let path = (if stPath cfg = '''' then ''/data/beacons-state.json'' else stPath cfg) in bdFileStore b path)
      else Inr (bdMemoryStore b))"

definition buildUpstream ::
  "('st, 'w) builders \<Rightarrow> string \<Rightarrow> UpstreamConfig \<Rightarrow> 'w \<Rightarrow> (error + 'w upstream) \<times> 'w" where
  "buildUpstream b name cfg w =
     (if ucType cfg = ''cloudflare'' then
        bdCloudflare b
          \<lparr>coName = name, coAPIToken = APIToken cfg, coZoneID = ZoneID cfg, coRetry = httpRetryOptions (ucHTTP cfg),
           coMaxAuthFailures = AuthFailureThreshold (ucHTTP cfg),
           coDebug = debug_middleware (bdDebugCell b) (httpDebugOptions name (ucHTTP cfg)), coMetrics = bdMetrics b\<rparr> w
      else if ucType cfg = ''pihole'' then
        (Inr (bdPihole b
          \<lparr>poName = name, poBaseURL = URL cfg, poPassword = Password cfg, poRetry = httpRetryOptions (ucHTTP cfg),
           poMaxAuthFailures = AuthFailureThreshold (ucHTTP cfg), poDebug = httpDebugOptions name (ucHTTP cfg),
           poMetrics = bdMetrics b\<rparr>), w)
      else if ucType cfg = ''technitium'' then
        bdTechnitium b
          \<lparr>toName = name, toBaseURL = URL cfg, toAPIToken = APIToken cfg, toZone = Zone cfg,
           toRetry = httpRetryOptions (ucHTTP cfg), toMaxAuthFailures = AuthFailureThreshold (ucHTTP cfg),
           toDebug = debug_middleware (bdDebugCell b) (httpDebugOptions name (ucHTTP cfg)), toMetrics = bdMetrics b\<rparr> w
      else (Inl (OtherError (''unknown upstream type '' @ go_quote (ucType cfg) @ '' for '' @ go_quote name)), w))"

record buildSourceOptions =
  boName :: string
  boConfig :: SourceConfig
  boDefaults :: BaseRecord
  boPollInterval :: int
  boUseEvents :: bool
  boDebounceDelay :: int
  boStrictEnv :: bool
  boStrictValidation :: bool

definition buildSource :: "('st, 'w) builders \<Rightarrow> buildSourceOptions \<Rightarrow> error + 'w snapshotter" where
  "buildSource b opts =
     (if scType (boConfig opts) = ''docker'' then
        bdDocker b (Host (boConfig opts))
          \<lparr>dsName = boName opts, dsDefaults = boDefaults opts, dsStrict = boStrictValidation opts,
           dsPollInterval = boPollInterval opts, dsUseEvents = boUseEvents opts\<rparr>
      else if scType (boConfig opts) = ''yaml'' then
        Inr (bdYaml b
          \<lparr>ysName = boName opts, ysGlob = Glob (boConfig opts), ysDefaults = boDefaults opts,
           ysStrict = boStrictEnv opts, ysStrictValidation = boStrictValidation opts\<rparr>)
      else Inl (OtherError (''unknown source type '' @ go_quote (scType (boConfig opts)) @ '' for '' @ go_quote (boName opts))))"

section \<open>Starting up\<close>

text \<open>The loop over the configured upstreams, with the two maps it fills.\<close>

fun build_upstream_map ::
  "('st, 'w) builders \<Rightarrow> bool \<Rightarrow> (string \<times> UpstreamConfig) list \<Rightarrow> (string, 'w upstream) go_map
     \<Rightarrow> (string, int) go_map \<Rightarrow> 'w \<Rightarrow> (string, 'w upstream) go_map \<times> (string, int) go_map \<times> 'w" where
  "build_upstream_map b dryRun [] ups verify w = (ups, verify, w)"
| "build_upstream_map b dryRun ((name, ucfg) # rest) ups verify w =
     (case buildUpstream b name ucfg w of
        (Inl err, w1) \<Rightarrow> build_upstream_map b dryRun rest (go_put name (NewDisabled name err) ups) verify w1
      | (Inr u, w1) \<Rightarrow>
          build_upstream_map b dryRun rest (go_put name (if dryRun then NewDryRun u else u) ups)
            (go_put name (duration (VerifyInterval ucfg) second_ns) verify) w1)"

definition main_source :: "('st, 'w) builders \<Rightarrow> Config \<Rightarrow> string \<Rightarrow> SourceConfig \<Rightarrow> error + 'w snapshotter" where
  "main_source b cfg name scfg =
     buildSource b
       \<lparr>boName = name, boConfig = scfg, boDefaults = cfDefaults cfg,
        boPollInterval = duration (syPollInterval (cfSync cfg)) second_ns,
        boUseEvents = syUseEvents (cfSync cfg),
        boDebounceDelay = duration (syDebounceDelay (cfSync cfg)) millisecond_ns,
        boStrictEnv = syStrictEnv (cfSync cfg), boStrictValidation = syStrictValidation (cfSync cfg)\<rparr>"

fun build_source_list ::
  "('st, 'w) builders \<Rightarrow> Config \<Rightarrow> (string \<times> SourceConfig) list \<Rightarrow> 'w snapshotter list
     \<Rightarrow> error + 'w snapshotter list" where
  "build_source_list b cfg [] sources = Inr sources"
| "build_source_list b cfg ((name, scfg) # rest) sources =
     (case main_source b cfg name scfg of
        Inl err \<Rightarrow> Inl err
      | Inr s \<Rightarrow> build_source_list b cfg rest (sources @ [s]))"

text \<open>
  \<open>validateconfig.Run\<close> over the sources in the order given, with the builder \<open>main\<close> passes to it.
\<close>

definition validate_source ::
  "('st, 'w) builders \<Rightarrow> string \<Rightarrow> SourceConfig \<Rightarrow> BaseRecord \<Rightarrow> bool \<Rightarrow> bool \<Rightarrow> error + 'w snapshotter" where
  "validate_source b name scfg defaults strictEnv strictValidation =
     buildSource b
       \<lparr>boName = name, boConfig = scfg, boDefaults = defaults, boPollInterval = 0, boUseEvents = False,
        boDebounceDelay = 0, boStrictEnv = strictEnv, boStrictValidation = strictValidation\<rparr>"

fun validateconfig_Run ::
  "('st, 'w) builders \<Rightarrow> Config \<Rightarrow> (string \<times> SourceConfig) list \<Rightarrow> 'w \<Rightarrow> error option outcome \<times> 'w" where
  "validateconfig_Run b cfg [] w = (Returned None, w)"
| "validateconfig_Run b cfg ((name, scfg) # rest) w =
     (case validate_source b name scfg (cfDefaults cfg) (syStrictEnv (cfSync cfg)) (syStrictValidation (cfSync cfg)) of
        Inl err \<Rightarrow> (Returned (Some (Wrapped (''source '' @ go_quote name @ '': '') err '''')), w)
      | Inr s \<Rightarrow>
          if scType scfg \<noteq> ''yaml'' then validateconfig_Run b cfg rest w
          else
            (case snapSnapshot s w of
               (Panicked m, w1) \<Rightarrow> (Panicked m, w1)
             | (Returned (Inl err), w1) \<Rightarrow>
                 (Returned (Some (Wrapped (''source '' @ go_quote name @ '': '') err '''')), w1)
             | (Returned (Inr records), w1) \<Rightarrow> validateconfig_Run b cfg rest w1))"

record main_flags =
  mfConfig :: string
  mfHealthcheck :: bool
  mfHealthAddr :: string
  mfVersion :: bool
  mfValidate :: bool

text \<open>
  What the start of the program comes to: an exit, a crash, or running: the reconciler, its store and
  the authenticator of the HTTP server, if there is one.
\<close>

datatype ('s, 'w) startup =
    Exits int
  | Crashes string
  | Runs "('s, 'w) reconciler" 's "authenticator option"

text \<open>The arguments of the start: what is outside \<open>main\<close>, and the orders of its two loops over maps.\<close>

record ('s, 'w) program =
  pgHealth :: "string \<Rightarrow> 'w \<Rightarrow> error option \<times> 'w"
  pgLoad :: "string \<Rightarrow> error + Config"
  pgBuilders :: "('s store_ops \<times> 's, 'w) builders"
  pgUpstreams :: "(string \<times> UpstreamConfig) iteration"
  pgSources :: "(string \<times> SourceConfig) iteration"
  pgRand :: "error + string"
  pgEnv :: "'w env"
  pgSleep :: "int \<Rightarrow> 'w \<Rightarrow> 'w"

definition http_auth :: "error + string \<Rightarrow> HTTPConfig \<Rightarrow> error + authenticator option" where
  "http_auth rand cfg =
     (if hcAddr cfg = '''' then Inr None
      else
        (case NewAuthenticator rand \<lparr>saType = acType (hcAuth cfg), saAPIKey = acAPIKey (hcAuth cfg)\<rparr> of
           Inl err \<Rightarrow> Inl err
         | Inr auth \<Rightarrow> Inr (Some auth)))"

text \<open>The HTTP server of \<open>main\<close>: its address, timeouts and handler, if an address is configured.\<close>

definition http_timeouts :: "HTTPConfig \<Rightarrow> Timeouts" where
  "http_timeouts cfg = \<lparr>ReadTimeout = duration (hcReadTimeout cfg) second_ns, WriteTimeout = duration (hcWriteTimeout cfg) second_ns,
     IdleTimeout = duration (hcIdleTimeout cfg) second_ns, ShutdownTimeout = duration (hcShutdownTimeout cfg) second_ns\<rparr>"

definition main_server ::
  "json_encoders \<Rightarrow> (incoming \<Rightarrow> http_response) \<Rightarrow> (incoming \<Rightarrow> http_response) \<Rightarrow> 's store_ops \<Rightarrow> authenticator option
     \<Rightarrow> HTTPConfig \<Rightarrow> (string \<times> Timeouts \<times> 's http_server) option" where
  "main_server je gatherer mux ops auth cfg =
     (if hcAddr cfg = '''' then None
      else Some (hcAddr cfg, http_timeouts cfg, new_http_server (NewServer ops auth je gatherer mux) (http_timeouts cfg)))"

definition main_run :: "('s, 'w) program \<Rightarrow> Config \<Rightarrow> 'w \<Rightarrow> ('s, 'w) startup \<times> 'w" where
  "main_run pg cfg w =
     (case build_upstream_map (pgBuilders pg) (syDryRun (cfSync cfg)) (iterate (pgUpstreams pg) (cfUpstreams cfg)) [] [] w of
        (ups, verify, w1) \<Rightarrow>
          (case build_source_list (pgBuilders pg) cfg (iterate (pgSources pg) (cfSources cfg)) [] of
             Inl err \<Rightarrow> (Exits 1, w1)
           | Inr sources \<Rightarrow>
               (case buildStore (pgBuilders pg) (cfStore cfg) of
                  Inl err \<Rightarrow> (Exits 1, w1)
                | Inr (ops, st) \<Rightarrow>
                    (case http_auth (pgRand pg) (cfHTTP cfg) of
                       Inl err \<Rightarrow> (Exits 1, w1)
                     | Inr auth \<Rightarrow>
                         (Runs (NewReconciler ops sources ups verify
                              (duration (syReconcileInterval (cfSync cfg)) second_ns)
                              (duration (syDebounceDelay (cfSync cfg)) millisecond_ns) 4 (pgEnv pg) (pgSleep pg))
                            st auth, w1)))))"

definition main_start :: "('s, 'w) program \<Rightarrow> main_flags \<Rightarrow> 'w \<Rightarrow> ('s, 'w) startup \<times> 'w" where
  "main_start pg flags w =
     (if mfVersion flags then (Exits 0, w)
      else if mfHealthcheck flags then
        (case pgHealth pg (mfHealthAddr flags) w of (err, w1) \<Rightarrow> (Exits (if err \<noteq> None then 1 else 0), w1))
      else
        (case pgLoad pg (mfConfig flags) of
           Inl err \<Rightarrow> (Exits 1, w)
         | Inr cfg \<Rightarrow>
             if mfValidate flags then
               (case validateconfig_Run (pgBuilders pg) cfg (iterate (pgSources pg) (cfSources cfg)) w of
                  (Panicked m, w1) \<Rightarrow> (Crashes m, w1)
                | (Returned (Some err), w1) \<Rightarrow> (Exits 1, w1)
                | (Returned None, w1) \<Rightarrow> (Exits 0, w1))
             else main_run pg cfg w))"

section \<open>What a pass can touch\<close>

text \<open>
  \<open>obs\<close> is what one sees of the outside world, say the contents of all providers. Upstreams that
  never change it are a contract of their own; the worker pool, a plan and a whole pass then keep it.
\<close>

locale inert_upstream =
  fixes u :: "'w upstream"
    and obs :: "'w \<Rightarrow> 'v"
  assumes upsert_keeps: "obs (snd (upUpsert u r w)) = obs w"
    and delete_keeps: "obs (snd (upDelete u r w)) = obs w"
    and list_keeps: "upList u = Some list \<Longrightarrow> obs (snd (list w)) = obs w"
begin

lemma call_keeps:
  "upUpsert u r w = (res, w1) \<Longrightarrow> obs w1 = obs w" "upDelete u r w = (res, w1) \<Longrightarrow> obs w1 = obs w"
  "upList u = Some list \<Longrightarrow> list w = (lres, w1) \<Longrightarrow> obs w1 = obs w"
  using upsert_keeps delete_keeps list_keeps by (metis snd_conv)+

lemma worker_keeps: "obs (snd (worker env u rec op w)) = obs w"
proof -
  have "obs w1 = obs w" if "do_op env u op prior w = (res, w1)" for prior res w1
    using that
    by (auto simp: do_op_def Let_def call_keeps
        split: OpKind.splits prod.splits outcome.splits option.splits if_splits)
  then show ?thesis by (auto simp: worker_def Let_def split: prod.splits outcome.splits)
qed

end

text \<open>The two wrappers are inert, whatever is observed.\<close>

interpretation disabled: inert_upstream "NewDisabled name err" obs for name err obs
  by unfold_locales (simp_all add: NewDisabled_def)

interpretation dry_run: inert_upstream "NewDryRun u" obs for u obs
  by unfold_locales (simp_all add: NewDryRun_def)

lemma run_pool_keeps:
  assumes "\<And>x w. obs (snd (f x w)) = obs w"
  shows "obs (snd (run_pool f k choices tasks res w)) = obs w"
proof (induction "length tasks" arbitrary: tasks choices res w)
  case 0
  then show ?case by simp
next
  case (Suc n)
  then obtain t ts where t: "tasks = t # ts" by (cases tasks) auto
  obtain c where c: "c < length tasks"
    and r: "run_pool f k choices tasks res w
      = run_pool f k (tl choices) (take c tasks @ drop (Suc c) tasks)
          (res[fst (tasks ! c) := fst (f (snd (tasks ! c)) w)]) (snd (f (snd (tasks ! c)) w))"
    using run_pool_step [where f = f and k = k and t = t and ts = ts and w = w] t by metis
  have "n = length (take c tasks @ drop (Suc c) tasks)" using Suc(2) c by simp
  from Suc(1) [OF this] show ?case unfolding r by (simp add: assms)
qed

lemma applyUpstream_keeps:
  "inert_upstream u obs \<Longrightarrow> obs (snd (applyUpstream ex choices u ops rec now nr w)) = obs w"
  unfolding applyUpstream_def Let_def by (intro run_pool_keeps inert_upstream.worker_keeps)

lemma apply_groups_keeps:
  assumes "\<forall>(name, u) \<in> set (exUpstreams ex). inert_upstream u obs"
  shows "obs (xsWorld (apply_groups ex sched rec now groups st)) = obs (xsWorld st)"
proof (induction groups arbitrary: st)
  case (Cons g gs)
  obtain name ops where g: "g = (name, ops)" by (cases g)
  show ?case
  proof (cases "map_of (exUpstreams ex) name")
    case None
    with Cons g show ?thesis by (simp add: apply_groups.simps)
  next
    case (Some u)
    then have "inert_upstream u obs" using assms by (auto dest: map_of_SomeD)
    from applyUpstream_keeps [OF this] Cons g Some show ?thesis by (simp add: apply_groups.simps Let_def split_def)
  qed
qed simp

lemma Apply_keeps:
  assumes "\<forall>(name, u) \<in> set (exUpstreams ex). inert_upstream u obs"
  shows "obs (xsWorld (Apply ex sched it plan recorded st)) = obs (xsWorld st)"
  using apply_groups_keeps [OF assms]
  by (simp add: Apply_def apply_plan_def run_batch_def Let_def split_def split: option.splits)

lemma collect_sources_keeps:
  assumes "\<forall>src \<in> set srcs. \<forall>w. obs (snd (snapSnapshot src w)) = obs w"
  shows "obs (snd (snd (collect_sources srcs d sn lg w))) = obs w"
  using assms
proof (induction srcs arbitrary: d sn lg w)
  case (Cons src srcs)
  obtain res w1 where r: "snapSnapshot src w = (res, w1)" by (cases "snapSnapshot src w")
  with Cons.prems have "obs w1 = obs w" by (metis list.set_intros(1) snd_conv)
  with Cons r show ?case by (simp split: outcome.splits sum.splits)
qed simp

lemma collect_upstreams_keeps:
  assumes "\<forall>(name, u) \<in> set us. inert_upstream u obs"
  shows "obs (snd (snd (collect_upstreams interval now us st w))) = obs w"
  using assms
proof (induction us arbitrary: st w)
  case (Cons x us)
  obtain name u where x: "x = (name, u)" by (cases x)
  with Cons.prems have u: "inert_upstream u obs" by simp
  have ih: "obs (snd (snd (collect_upstreams interval now us st w))) = obs w" for st w
    using Cons by simp
  show ?case
  proof (cases "upList u")
    case None
    with ih x show ?thesis by simp
  next
    case (Some list)
    obtain res w1 where r: "list w = (res, w1)" by (cases "list w")
    with inert_upstream.call_keeps(3) [OF u Some] have "obs w1 = obs w" by blast
    with ih x Some r show ?thesis by (simp split: outcome.splits sum.splits)
  qed
qed simp

lemma reconcile_keeps:
  assumes up: "\<forall>(name, u) \<in> set (rcUpstreams rc). inert_upstream u obs"
    and ex: "exUpstreams (rcExecutor rc) = rcUpstreams rc"
    and src: "\<forall>src \<in> set (rcSources rc). \<forall>w. obs (snd (snapSnapshot src w)) = obs w"
    and sl: "\<forall>d w. obs (rcSleep rc d w) = obs w"
  shows "obs (rsWorld (reconcile rc pc st)) = obs (rsWorld st)"
proof -
  have c: "obs w = obs w0" if "CollectDesired (rcSources rc) lg0 w0 = (r, lg, w)" for lg0 w0 r lg w
    using collect_sources_keeps [OF src, of "[]" "[]" lg0 w0] that by (simp add: CollectDesired_def)
  have u: "obs w1 = obs w" if "CollectUpstreams (pcUpstreams pc) (rcUpstreams rc) v now nc w = (q, uc, w1)" for v now nc w q uc w1
    using collect_upstreams_keeps [of "iterate (pcUpstreams pc) (rcUpstreams rc)" obs] up that
    unfolding CollectUpstreams_def by (metis set_iterate snd_conv)
  have a: "obs (xsWorld (Apply (rcExecutor rc) sched it plan recorded xs)) = obs (xsWorld xs)" for sched it plan recorded xs
    using Apply_keeps [of "rcExecutor rc" obs] up ex by simp
  show ?thesis
    by (auto simp: reconcile_def Let_def a sl split: prod.splits outcome.splits sum.splits) (metis c u)+
qed

section \<open>What is wired\<close>

text \<open>The upstream and the interval that building an upstream leads to.\<close>

definition wired :: "bool \<Rightarrow> string \<Rightarrow> error + 'w upstream \<Rightarrow> 'w upstream" where
  "wired dryRun name out =
     (case out of Inl err \<Rightarrow> NewDisabled name err | Inr u \<Rightarrow> if dryRun then NewDryRun u else u)"

definition wired_interval :: "UpstreamConfig \<Rightarrow> error + 'w upstream \<Rightarrow> int option" where
  "wired_interval ucfg out =
     (case out of Inl err \<Rightarrow> None | Inr u \<Rightarrow> Some (duration (VerifyInterval ucfg) second_ns))"

lemma build_upstream_map_spec:
  "\<lbrakk>build_upstream_map b dry ucfgs ups verify w = (ups', verify', w'); go_map_wf ucfgs\<rbrakk> \<Longrightarrow>
     (case map_of ucfgs name of
        None \<Rightarrow> map_of ups' name = map_of ups name \<and> map_of verify' name = map_of verify name
      | Some ucfg \<Rightarrow> \<exists>w0 out w1. buildUpstream b name ucfg w0 = (out, w1) \<and>
          map_of ups' name = Some (wired dry name out) \<and>
          map_of verify' name = (case wired_interval ucfg out of None \<Rightarrow> map_of verify name | Some d \<Rightarrow> Some d))"
proof (induction ucfgs arbitrary: ups verify w)
  case (Cons x rest)
  obtain n ucfg where x: "x = (n, ucfg)" by (cases x)
  obtain out w1 where o: "buildUpstream b n ucfg w = (out, w1)" by (cases "buildUpstream b n ucfg w")
  let ?ups = "go_put n (wired dry n out) ups"
  let ?verify = "case wired_interval ucfg out of None \<Rightarrow> verify | Some d \<Rightarrow> go_put n d verify"
  have step: "build_upstream_map b dry rest ?ups ?verify w1 = (ups', verify', w')"
    using Cons.prems(1) x o by (auto simp: wired_def wired_interval_def split: sum.splits)
  have wf: "go_map_wf rest" using Cons.prems(2) by simp
  note ih = Cons.IH [OF step wf]
  show ?case
  proof (cases "name = n")
    case True
    then have "map_of rest name = None" using Cons.prems(2) x by (simp add: map_of_eq_None_iff)
    with ih True have "map_of ups' name = Some (wired dry n out) \<and>
        map_of verify' name = (case wired_interval ucfg out of None \<Rightarrow> map_of verify name | Some d \<Rightarrow> Some d)"
      by (auto split: option.splits)
    with o x True show ?thesis by auto
  next
    case False
    have v: "map_of ?verify name = map_of verify name" using False by (auto split: option.splits)
    show ?thesis
    proof (cases "map_of rest name")
      case None
      with ih v False x show ?thesis by simp
    next
      case (Some c)
      with ih obtain w0 out' w2 where "buildUpstream b name c w0 = (out', w2)"
        "map_of ups' name = Some (wired dry name out')"
        "map_of verify' name = (case wired_interval c out' of None \<Rightarrow> map_of verify name | Some d \<Rightarrow> Some d)"
        unfolding v by auto
      with Some False x show ?thesis by auto
    qed
  qed
qed simp

lemma main_run_Runs:
  assumes "main_run pg cfg w = (Runs rc st auth, w')"
  obtains ups verify w1 sources ops where
    "build_upstream_map (pgBuilders pg) (syDryRun (cfSync cfg)) (iterate (pgUpstreams pg) (cfUpstreams cfg)) [] [] w
       = (ups, verify, w1)"
    "build_source_list (pgBuilders pg) cfg (iterate (pgSources pg) (cfSources cfg)) [] = Inr sources"
    "rc = NewReconciler ops sources ups verify (duration (syReconcileInterval (cfSync cfg)) second_ns)
       (duration (syDebounceDelay (cfSync cfg)) millisecond_ns) 4 (pgEnv pg) (pgSleep pg)"
  using assms by (auto simp: main_run_def split: prod.splits sum.splits)

text \<open>
  C27. Every configured upstream is wired, and only those. When the program starts running, each name
  in the configuration maps to the adapter built from its settings, to the dry-run wrapper of it in
  dry-run mode, or, when the adapter could not be built, to a disabled upstream that answers every
  call with the error; it is verified at the configured interval exactly when it could be built.
  One that cannot be built stops neither the program nor the other upstreams.
\<close>

theorem main_wires_upstreams:
  assumes "main_run pg cfg w = (Runs rc st auth, w')" "go_map_wf (cfUpstreams cfg)"
  shows "case map_of (cfUpstreams cfg) name of
      None \<Rightarrow> map_of (rcUpstreams rc) name = None \<and> map_of (rcVerify rc) name = None
    | Some ucfg \<Rightarrow> \<exists>w0 out w1. buildUpstream (pgBuilders pg) name ucfg w0 = (out, w1) \<and>
        map_of (rcUpstreams rc) name = Some (wired (syDryRun (cfSync cfg)) name out) \<and>
        map_of (rcVerify rc) name = wired_interval ucfg out"
proof -
  from assms(1) obtain ups verify w1 sources ops where
    b: "build_upstream_map (pgBuilders pg) (syDryRun (cfSync cfg)) (iterate (pgUpstreams pg) (cfUpstreams cfg)) [] [] w
       = (ups, verify, w1)"
    and rc: "rc = NewReconciler ops sources ups verify (duration (syReconcileInterval (cfSync cfg)) second_ns)
       (duration (syDebounceDelay (cfSync cfg)) millisecond_ns) 4 (pgEnv pg) (pgSleep pg)"
    by (rule main_run_Runs)
  have m: "map_of (iterate (pgUpstreams pg) (cfUpstreams cfg)) = map_of (cfUpstreams cfg)"
    using assms(2) by simp
  have "go_map_wf (iterate (pgUpstreams pg) (cfUpstreams cfg))" using assms(2) by simp
  note spec = build_upstream_map_spec [OF b this, of name, unfolded m]
  show ?thesis
  proof (cases "map_of (cfUpstreams cfg) name")
    case None
    with spec show ?thesis by (simp add: rc)
  next
    case (Some ucfg)
    with spec obtain w0 out w2 where "buildUpstream (pgBuilders pg) name ucfg w0 = (out, w2)"
      "map_of ups name = Some (wired (syDryRun (cfSync cfg)) name out)"
      "map_of verify name = wired_interval ucfg out" by (auto split: option.splits)
    with Some show ?thesis by (auto simp: rc)
  qed
qed

section \<open>Dry runs\<close>

lemma build_dry_keeps:
  "\<lbrakk>build_upstream_map b True ucfgs ups verify w = (ups', verify', w'); \<forall>(n, u) \<in> set ups. inert_upstream u obs\<rbrakk>
     \<Longrightarrow> \<forall>(n, u) \<in> set ups'. inert_upstream u obs"
proof (induction ucfgs arbitrary: ups verify w)
  case (Cons x rest)
  obtain n ucfg where x: "x = (n, ucfg)" by (cases x)
  obtain out w1 where o: "buildUpstream b n ucfg w = (out, w1)" by (cases "buildUpstream b n ucfg w")
  have k: "inert_upstream u obs" if "(m, u) \<in> set (go_put n (wired True n out) ups)" for m u
    using mem_go_put [OF that] Cons.prems(2)
      disabled.inert_upstream_axioms dry_run.inert_upstream_axioms
    by (auto simp: wired_def split: sum.splits)
  then have "\<forall>(m, u) \<in> set (go_put n (wired True n out) ups). inert_upstream u obs" by blast
  with Cons.IH Cons.prems(1) x o show ?case by (auto simp: wired_def split: sum.splits)
qed simp


section \<open>When the start fails\<close>

lemma main_source_fails:
  assumes "source_ok s" "main_source b cfg name s = Inl err"
  shows "scType s = ''docker'' \<and> (\<exists>src. bdDocker b (Host s) src = Inl err)"
  using assms by (auto simp: main_source_def buildSource_def source_ok_def split: if_splits)

lemma build_source_list_fails:
  "\<lbrakk>build_source_list b cfg scfgs sources = Inl err; \<forall>(n, s) \<in> set scfgs. source_ok s\<rbrakk> \<Longrightarrow>
     \<exists>n s src. (n, s) \<in> set scfgs \<and> scType s = ''docker'' \<and> bdDocker b (Host s) src = Inl err"
proof (induction scfgs arbitrary: sources)
  case (Cons x rest)
  obtain n s where x: "x = (n, s)" by (cases x)
  show ?case
  proof (cases "main_source b cfg n s")
    case (Inl e)
    with Cons.prems x main_source_fails [of s b cfg n e] show ?thesis by auto
  next
    case (Inr u)
    with Cons.IH [of "sources @ [u]"] Cons.prems x show ?thesis by auto
  qed
qed simp

text \<open>
  What can stop a start. With a configuration that meets the rules of \<open>Load\<close>, the program exits
  instead of running only because a client for a configured Docker source could not be made, the
  state file could not be opened, or no random key could be generated, and then with code 1. The
  branches for unknown types and for the missing path of the store are never taken.
\<close>

theorem main_start_stops:
  assumes "config_ok lib cfg" "main_run pg cfg w = (Exits n, w')"
  shows "n = 1 \<and> \<not> ((\<forall>(name, s) \<in> set (cfSources cfg). scType s = ''docker'' \<longrightarrow>
        (\<forall>src. \<exists>snap. bdDocker (pgBuilders pg) (Host s) src = Inr snap)) \<and>
      (stType (cfStore cfg) = ''file'' \<longrightarrow> (\<exists>st. bdFileStore (pgBuilders pg) (stPath (cfStore cfg)) = Inr st)) \<and>
      (\<exists>buf. pgRand pg = Inr buf))"
proof -
  let ?b = "pgBuilders pg"
  obtain ups verify w1 where b: "build_upstream_map ?b (syDryRun (cfSync cfg))
      (iterate (pgUpstreams pg) (cfUpstreams cfg)) [] [] w = (ups, verify, w1)"
    by (metis prod_cases3)
  have src: "\<forall>(name, s) \<in> set (iterate (pgSources pg) (cfSources cfg)). source_ok s"
    using assms(1) by (simp add: config_ok_def)
  have n: "n = 1" using assms(2) b by (auto simp: main_run_def split: sum.splits)
  show ?thesis
  proof (cases "build_source_list ?b cfg (iterate (pgSources pg) (cfSources cfg)) []")
    case (Inl err)
    from build_source_list_fails [OF this src] obtain name s source
      where d: "(name, s) \<in> set (cfSources cfg)" "scType s = ''docker''" "bdDocker ?b (Host s) source = Inl err" by auto
    have "\<not> (\<forall>(name, s) \<in> set (cfSources cfg). scType s = ''docker'' \<longrightarrow>
        (\<forall>src. \<exists>snap. bdDocker ?b (Host s) src = Inr snap))"
    proof
      assume "\<forall>(name, s) \<in> set (cfSources cfg). scType s = ''docker'' \<longrightarrow>
        (\<forall>src. \<exists>snap. bdDocker ?b (Host s) src = Inr snap)"
      from bspec [OF this d(1)] d(2) have "\<exists>snap. bdDocker ?b (Host s) source = Inr snap" by simp
      with d(3) show False by simp
    qed
    with n show ?thesis by blast
  next
    case (Inr sources)
    show ?thesis
    proof (cases "buildStore ?b (cfStore cfg)")
      case store: (Inl err)
      then show ?thesis
        using n assms(1) by (auto simp: buildStore_def config_ok_def Let_def split: if_splits)
    next
      case store: (Inr os)
      then obtain err where "http_auth (pgRand pg) (cfHTTP cfg) = Inl err"
        using assms(2) b Inr by (cases os) (auto simp: main_run_def split: sum.splits)
      then show ?thesis
        using n assms(1)
        by (auto simp: http_auth_def NewAuthenticator_def generateAPIKey_def config_ok_def split: if_splits sum.splits)
    qed
  qed
qed

text \<open>The sources only read, if the calls they make of the system and of Docker do.\<close>

lemma parse_files_keeps:
  assumes "\<And>path w. obs (snd (sysReadFile sys path w)) = obs w"
  shows "obs (snd (parse_files lib ord sys src fs acc w)) = obs w"
proof (induction fs arbitrary: acc w)
  case (Cons f fs)
  have "obs w1 = obs w" if "sysReadFile sys f w = (res, w1)" for res w1
    using assms that by (metis snd_conv)
  with Cons show ?case by (auto simp: parseFile_def split: prod.splits sum.splits)
qed simp

lemma yaml_reads_only:
  assumes "\<And>glob w. obs (snd (sysGlob sys glob w)) = obs w" "\<And>dir w. obs (snd (sysStat sys dir w)) = obs w"
    "\<And>path w. obs (snd (sysReadFile sys path w)) = obs w"
  shows "obs (snd (snapSnapshot (yaml_snapshotter lib ord sys src) w)) = obs w"
proof -
  have g: "obs w1 = obs w" if "sysGlob sys (ysGlob src) w = (res, w1)" for res w1
    using assms(1) that by (metis snd_conv)
  have t: "obs w2 = obs w1" if "sysStat sys dir w1 = (res, w2)" for dir res w1 w2
    using assms(2) that by (metis snd_conv)
  have p: "obs w2 = obs w1" if "parse_files lib ord sys src fs [] w1 = (res, w2)" for fs res w1 w2
    using parse_files_keeps [of obs sys, OF assms(3)] that by (metis snd_conv)
  show ?thesis
    by (auto simp: yaml_snapshotter_def yaml_Snapshot_def Let_def split: prod.splits sum.splits option.splits)
      (metis g t p)+
qed

lemma docker_reads_only:
  assumes "\<And>w. obs (snd (ContainerList w)) = obs w"
  shows "obs (snd (snapSnapshot (docker_snapshotter lib ord src ContainerList) w)) = obs w"
  using assms [of w] by (auto simp: docker_snapshotter_def docker_Snapshot_def split: prod.splits sum.splits)

section \<open>Validating a configuration\<close>

text \<open>
  \<open>-validate-config\<close> passes only if every source can be built and every YAML source was read; a
  source of another type is built and never read.
\<close>

lemma validateconfig_passes:
  "validateconfig_Run b cfg scfgs w = (Returned None, w') \<Longrightarrow> (name, scfg) \<in> set scfgs \<Longrightarrow>
     \<exists>s. validate_source b name scfg (cfDefaults cfg) (syStrictEnv (cfSync cfg)) (syStrictValidation (cfSync cfg)) = Inr s \<and>
       (scType scfg = ''yaml'' \<longrightarrow> (\<exists>w1 rs w2. snapSnapshot s w1 = (Returned (Inr rs), w2)))"
proof (induction scfgs arbitrary: w)
  case (Cons x rest)
  obtain n c where x: "x = (n, c)" by (cases x)
  from Cons.prems(1) x obtain s where s: "validate_source b n c (cfDefaults cfg) (syStrictEnv (cfSync cfg))
      (syStrictValidation (cfSync cfg)) = Inr s" by (auto split: sum.splits)
  show ?case
  proof (cases "scType c = ''yaml''")
    case False
    with Cons x s show ?thesis by auto
  next
    case True
    with Cons.prems(1) x s obtain rs w1 where r: "snapSnapshot s w = (Returned (Inr rs), w1)"
      "validateconfig_Run b cfg rest w1 = (Returned None, w')"
      by (auto split: prod.splits outcome.splits sum.splits)
    with Cons.IH [OF r(2)] Cons.prems(2) x s True show ?thesis by auto
  qed
qed simp

lemma validateconfig_contacts_nothing:
  "\<forall>(name, scfg) \<in> set scfgs. scType scfg \<noteq> ''yaml'' \<Longrightarrow> snd (validateconfig_Run b cfg scfgs w) = w"
  by (induction scfgs) (auto split: sum.splits)

section \<open>Durations\<close>

text \<open>
  The rules put no upper bound on the intervals: a large number of seconds overflows, into a
  negative interval or into one of a fraction of a second.
\<close>

lemma interval_overflow:
  "duration 9223372037 second_ns < 0 \<and> duration 18446744074 second_ns = 290448384"
  by (simp add: duration_def second_ns_def wrap64_def)

section \<open>The constructors of the adapters\<close>

text \<open>
  The Pi-hole and Technitium adapters and the YAML source as the builders of a program. The
  Cloudflare adapter stays an argument: its paging loop may not end, so it is not a total upstream
  (see \<open>Cloudflare\<close>).
\<close>

definition adapter_builders ::
  "'w http_env \<Rightarrow> (breaker_state, 'w) cell \<Rightarrow> (breaker_state, 'w) cell \<Rightarrow> (session_state, 'w) cell
     \<Rightarrow> (debug_state, 'w) cell \<Rightarrow> pihole_lib \<Rightarrow> technitium_lib \<Rightarrow> 'w transport \<Rightarrow> go_lib
     \<Rightarrow> (string \<Rightarrow> yaml_orders) \<Rightarrow> 'w yaml_sys \<Rightarrow> ('st, 'w) builders \<Rightarrow> ('st, 'w) builders" where
  "adapter_builders env cb0 cb cs cd plib tlib base lib ord sys b =
     b\<lparr>bdPihole := (\<lambda>opts. pihole_upstream plib (pihole_New env cb cs cd plib opts base)),
       bdTechnitium := (\<lambda>opts w. case technitium_New env cb0 cb tlib opts base w of
          (Inl e, w1) \<Rightarrow> (Inl e, w1)
        | (Inr u, w1) \<Rightarrow> (Inr (technitium_upstream tlib u), w1)),
       bdYaml := yaml_snapshotter lib ord sys\<rparr>"

lemma adapter_names:
  "upName (bdPihole (adapter_builders env cb0 cb cs cd plib tlib base lib ord sys b) opts) = poName opts"
  "snapName (bdYaml (adapter_builders env cb0 cb cs cd plib tlib base lib ord sys b) src) = ysName src"
  by (simp_all add: adapter_builders_def pihole_upstream_def pihole_New_def yaml_snapshotter_def Let_def)

section \<open>A concrete program\<close>

text \<open>
  The world counts the calls that reach a provider. The Pi-hole answers, the zone of the other
  provider cannot be fetched, and no Docker client can be made.
\<close>

definition sample_builders :: "(memory_store store_ops \<times> memory_store, int) builders" where
  "sample_builders =
     \<lparr>bdCloudflare = (\<lambda>opts w. (Inl (OtherError ''no such zone''), w + 1)), bdPihole = (\<lambda>opts. ok_upstream (poName opts)),
      bdTechnitium = (\<lambda>opts w. (Inr (ok_upstream (toName opts)), w + 1)),
      bdDocker = (\<lambda>h src. Inl (OtherError ''bad host'')),
      bdYaml = (\<lambda>src. fixed_source (ysName src) [sample_record]),
      bdFileStore = (\<lambda>p. Inl (OtherError ''read-only'')), bdMemoryStore = (memory_ops, []),
      bdDebugCell = \<lparr>cellGet = (\<lambda>w. \<lparr>dbSeq = 0, dbLog = []\<rparr>), cellPut = (\<lambda>s w. w)\<rparr>, bdMetrics = None\<rparr>"

definition sample_program :: "(memory_store, int) program" where
  "sample_program =
     \<lparr>pgHealth = (\<lambda>a w. (None, w)), pgLoad = (\<lambda>p. Inr config_defaults), pgBuilders = sample_builders,
      pgUpstreams = in_order, pgSources = in_order, pgRand = Inr (replicate 32 (CHR ''x'')), pgEnv = clock_env,
      pgSleep = (\<lambda>d w. w)\<rparr>"

definition sample_config :: "bool \<Rightarrow> Config" where
  "sample_config dry = config_defaults
     \<lparr>cfUpstreams := [(''pi'', zero_upstream\<lparr>ucType := ''pihole'', URL := ''http://pi'', VerifyInterval := 60\<rparr>),
        (''cf'', zero_upstream\<lparr>ucType := ''cloudflare'', APIToken := ''t'', ZoneID := ''z''\<rparr>)],
      cfSources := [(''y'', zero_source\<lparr>scType := ''yaml'', Glob := ''/d/*.yaml''\<rparr>)],
      cfSync := cfSync config_defaults\<lparr>syDryRun := dry\<rparr>\<rparr>"

lemma sample_build:
  "buildUpstream sample_builders ''pi'' (zero_upstream\<lparr>ucType := ''pihole'', URL := ''http://pi'', VerifyInterval := 60\<rparr>) w
     = (Inr (ok_upstream ''pi''), w)"
  "buildUpstream sample_builders ''cf'' (zero_upstream\<lparr>ucType := ''cloudflare'', APIToken := ''t'', ZoneID := ''z''\<rparr>) w
     = (Inl (OtherError ''no such zone''), w + 1)"
  by (simp_all add: buildUpstream_def sample_builders_def)

lemma sample_main_run:
  "\<exists>rc auth. main_run sample_program (sample_config dry) 0 = (Runs rc [] auth, 1) \<and>
     rcSources rc = [fixed_source ''y'' [sample_record]]"
proof -
  have m: "build_upstream_map sample_builders dry (cfUpstreams (sample_config dry)) [] [] 0
      = ([(''pi'', wired dry ''pi'' (Inr (ok_upstream ''pi''))), (''cf'', NewDisabled ''cf'' (OtherError ''no such zone''))],
         [(''pi'', duration 60 second_ns)], 1)"
    by (simp add: sample_config_def sample_build wired_def)
  have "build_source_list sample_builders (sample_config dry) (cfSources (sample_config dry)) []
      = Inr [fixed_source ''y'' [sample_record]]"
    by (simp add: sample_config_def main_source_def buildSource_def sample_builders_def)
  moreover have "buildStore sample_builders (cfStore (sample_config dry)) = Inr (memory_ops, [])"
    by (simp add: sample_config_def config_defaults_def buildStore_def sample_builders_def)
  moreover have "\<exists>auth. http_auth (Inr (replicate 32 (CHR ''x''))) (cfHTTP (sample_config dry)) = Inr auth"
    by (simp add: sample_config_def config_defaults_def http_auth_def NewAuthenticator_def generateAPIKey_def)
  moreover have "syDryRun (cfSync (sample_config dry)) = dry" by (simp add: sample_config_def)
  ultimately show ?thesis
    using m by (auto simp: main_run_def sample_program_def)
qed

theorem main_wires_upstreams_witness:
  "\<exists>rc auth. main_run sample_program (sample_config True) 0 = (Runs rc [] auth, 1) \<and>
     map_of (rcUpstreams rc) ''pi'' = Some (NewDryRun (ok_upstream ''pi'')) \<and>
     map_of (rcUpstreams rc) ''cf'' = Some (NewDisabled ''cf'' (OtherError ''no such zone''))"
proof -
  obtain rc auth where r: "main_run sample_program (sample_config True) 0 = (Runs rc [] auth, 1)"
    using sample_main_run by blast
  have wf: "go_map_wf (cfUpstreams (sample_config True))" by (simp add: sample_config_def)
  have b: "pgBuilders sample_program = sample_builders" by (simp add: sample_program_def)
  have d: "syDryRun (cfSync (sample_config True))" by (simp add: sample_config_def)
  have "map_of (rcUpstreams rc) ''pi'' = Some (NewDryRun (ok_upstream ''pi''))"
    using main_wires_upstreams [OF r wf, of "''pi''"] b d
    by (auto simp: sample_config_def sample_build wired_def)
  moreover have "map_of (rcUpstreams rc) ''cf'' = Some (NewDisabled ''cf'' (OtherError ''no such zone''))"
    using main_wires_upstreams [OF r wf, of "''cf''"] b d
    by (auto simp: sample_config_def sample_build wired_def)
  ultimately show ?thesis using r by blast
qed


definition docker_config :: Config where
  "docker_config = config_defaults\<lparr>cfSources := [(''d'', zero_source\<lparr>scType := ''docker''\<rparr>)]\<rparr>"

theorem main_start_stops_witness:
  "\<exists>n w'. main_run sample_program docker_config 0 = (Exits n, w') \<and> n = 1"
proof -
  have "split_host_port '':9090'' \<noteq> None" by code_simp
  then have c: "config_ok sample_lib docker_config"
    by (simp add: docker_config_def config_defaults_def config_ok_def zero_base_def zero_source_def source_ok_def)
  have "build_source_list sample_builders docker_config (cfSources docker_config) [] = Inl (OtherError ''bad host'')"
    by (simp add: docker_config_def main_source_def buildSource_def sample_builders_def)
  moreover have "cfUpstreams docker_config = []" by (simp add: docker_config_def config_defaults_def)
  ultimately obtain n w' where r: "main_run sample_program docker_config 0 = (Exits n, w')"
    by (simp add: main_run_def sample_program_def)
  with main_start_stops [OF c r] show ?thesis by blast
qed

end
