(* ===== verification/Pass_Metrics.thy ===== *)
theory Pass_Metrics
  imports Reconcile Metrics_Registry
begin

text \<open>
  The metrics of a pass: what \<open>executor.go\<close>, \<open>upstream_collect.go\<close> and \<open>reconcile.go\<close> record around the
  calls of the upstreams, for the operations held back by a retry gate and for the corrections of
  drift. The other theories leave these calls out; here is the pass with them, over a world that
  holds the instruments. Proved here: with the instruments forgotten it is the pass of \<open>Reconcile\<close>,
  and the counters account for every operation of a plan exactly once.
\<close>

section \<open>Recording around the calls\<close>

text \<open>\<open>Time.Sub\<close> saturates.\<close>

definition time_sub :: "int \<Rightarrow> int \<Rightarrow> int" where
  "time_sub t u = max min_int64 (min max_int64 (t - u))"

text \<open>The method \<open>observe\<close> of the executor.\<close>

definition observe_call ::
  "('w \<Rightarrow> int) \<Rightarrow> string \<Rightarrow> string \<Rightarrow> error option \<Rightarrow> int \<Rightarrow> 'w metered_world \<Rightarrow> 'w metered_world" where
  "observe_call now upstreamName oper err start w =
     (let result = (if err \<noteq> None then ''failure'' else ''success'')
      in w\<lparr>mwMetrics := RecordSync upstreamName oper result (time_sub (now (mwNet w)) start) (mwMetrics w)\<rparr>)"

definition metered_upsert ::
  "'w env \<Rightarrow> 'w upstream \<Rightarrow> Record \<Rightarrow> 'w metered_world \<Rightarrow> error option outcome \<times> 'w metered_world" where
  "metered_upsert env u r w =
     (let start = envNow env (mwNet w) in
      case upUpsert u r (mwNet w) of
        (Panicked m, n) \<Rightarrow> (Panicked m, w\<lparr>mwNet := n\<rparr>)
      | (Returned err, n) \<Rightarrow>
          (Returned err, observe_call (envNow env) (Upstream r) ''upsert'' err start (w\<lparr>mwNet := n\<rparr>)))"

definition metered_delete ::
  "'w env \<Rightarrow> 'w upstream \<Rightarrow> Record \<Rightarrow> 'w metered_world \<Rightarrow> error option outcome \<times> 'w metered_world" where
  "metered_delete env u r w =
     (let start = envNow env (mwNet w) in
      case upDelete u r (mwNet w) of
        (Panicked m, n) \<Rightarrow> (Panicked m, w\<lparr>mwNet := n\<rparr>)
      | (Returned err, n) \<Rightarrow>
          (Returned err, observe_call (envNow env) (Upstream r) ''delete'' err start (w\<lparr>mwNet := n\<rparr>)))"

text \<open>The collector's own \<open>observe\<close>.\<close>

definition observe_list :: "('w \<Rightarrow> int) \<Rightarrow> string \<Rightarrow> error option \<Rightarrow> int \<Rightarrow> 'w metered_world \<Rightarrow> 'w metered_world" where
  "observe_list now name err start = observe_call now name ''list'' err start"

definition metered_list ::
  "'w env \<Rightarrow> string \<Rightarrow> ('w \<Rightarrow> (error + Record list) outcome \<times> 'w)
     \<Rightarrow> 'w metered_world \<Rightarrow> (error + Record list) outcome \<times> 'w metered_world" where
  "metered_list env name list w =
     (let start = envNow env (mwNet w) in
      case list (mwNet w) of
        (Panicked m, n) \<Rightarrow> (Panicked m, w\<lparr>mwNet := n\<rparr>)
      | (Returned res, n) \<Rightarrow>
          (Returned res, observe_list (envNow env) name (case res of Inl e \<Rightarrow> Some e | Inr _ \<Rightarrow> None)
             start (w\<lparr>mwNet := n\<rparr>)))"

text \<open>An upstream as the executor and the collector call it.\<close>

definition metered :: "'w env \<Rightarrow> string \<times> 'w upstream \<Rightarrow> string \<times> 'w metered_world upstream" where
  "metered env nu =
     (case nu of (name, u) \<Rightarrow>
       (name, \<lparr>upName = upName u, upUpsert = metered_upsert env u, upDelete = metered_delete env u,
               upList = map_option (metered_list env name) (upList u), upDriftEqual = upDriftEqual u\<rparr>))"

definition metered_env :: "'w env \<Rightarrow> 'w metered_world env" where
  "metered_env env = \<lparr>envNow = (\<lambda>w. envNow env (mwNet w)), envCtxErr = (\<lambda>w. envCtxErr env (mwNet w))\<rparr>"

definition metered_source :: "'w snapshotter \<Rightarrow> 'w metered_world snapshotter" where
  "metered_source src = \<lparr>snapName = snapName src,
     snapSnapshot = (\<lambda>w. case snapSnapshot src (mwNet w) of (r, n) \<Rightarrow> (r, w\<lparr>mwNet := n\<rparr>))\<rparr>"

definition metered_executor :: "('s, 'w) executor \<Rightarrow> ('s, 'w metered_world) executor" where
  "metered_executor ex = \<lparr>exOps = exOps ex, exUpstreams = map (metered (exEnv ex)) (exUpstreams ex),
     exMaxConc = exMaxConc ex, exBackoff = exBackoff ex, exEnv = metered_env (exEnv ex)\<rparr>"

section \<open>The pass with its metrics\<close>

text \<open>The operations that a retry gate holds back are counted in the loop that starts the workers.\<close>

fun count_gated :: "(string, int) go_map \<Rightarrow> int \<Rightarrow> Op list \<Rightarrow> metrics \<Rightarrow> metrics" where
  "count_gated nextRetry now [] m = m"
| "count_gated nextRetry now (op # ops) m =
     count_gated nextRetry now ops
       (if Kind op \<noteq> OpNoop \<and> gated nextRetry now op then RecordBackoffGated (Upstream (opRecord op)) m else m)"

definition metered_applyUpstream ::
  "('s, 'w) executor \<Rightarrow> nat list \<Rightarrow> 'w metered_world upstream \<Rightarrow> Op list \<Rightarrow> (string, Record) go_map \<Rightarrow> int
     \<Rightarrow> (string, int) go_map \<Rightarrow> 'w metered_world \<Rightarrow> applyResult list \<times> 'w metered_world" where
  "metered_applyUpstream ex choices u ops recordedByKey now nextRetry w =
     applyUpstream (metered_executor ex) choices u ops recordedByKey now nextRetry
       (w\<lparr>mwMetrics := count_gated nextRetry now ops (mwMetrics w)\<rparr>)"

fun metered_groups ::
  "('s, 'w) executor \<Rightarrow> (string \<Rightarrow> nat list) \<Rightarrow> (string, Record) go_map \<Rightarrow> int
     \<Rightarrow> (string \<times> Op list) list \<Rightarrow> ('s, 'w metered_world) exec_state \<Rightarrow> ('s, 'w metered_world) exec_state" where
  "metered_groups ex sched recordedByKey now [] st = st"
| "metered_groups ex sched recordedByKey now ((name, ops) # rest) st =
     metered_groups ex sched recordedByKey now rest
       (case map_of (exUpstreams (metered_executor ex)) name of
          None \<Rightarrow> st\<lparr>xsStore := applyUnknownUpstream ex ops (xsStore st)\<rparr>
        | Some u \<Rightarrow>
            (let (results, w) = metered_applyUpstream ex (sched name) u ops recordedByKey now
                                  (xsNextRetry st) (xsWorld st);
                 (s, nr) = persist ex results now (xsStore st) (xsNextRetry st)
             in \<lparr>xsStore = s, xsNextRetry = nr, xsWorld = w\<rparr>))"

definition metered_plan ::
  "('s, 'w) executor \<Rightarrow> (string \<Rightarrow> nat list) \<Rightarrow> (string \<times> Op list) iteration \<Rightarrow> Plan \<Rightarrow> Record list
     \<Rightarrow> ('s, 'w metered_world) exec_state \<Rightarrow> ('s, 'w metered_world) exec_state" where
  "metered_plan ex sched it plan recorded st =
     metered_groups ex sched (go_index RecordKey recorded) (envNow (exEnv ex) (mwNet (xsWorld st)))
       (iterate it plan) st"

definition metered_Apply ::
  "('s, 'w) executor \<Rightarrow> (string \<Rightarrow> nat list) \<Rightarrow> (string \<times> Op list) iteration \<Rightarrow> Plan \<Rightarrow> Record list
     \<Rightarrow> ('s, 'w metered_world) exec_state \<Rightarrow> ('s, 'w metered_world) exec_state" where
  "metered_Apply ex sched it plan recorded st =
     (case stBatch (exOps ex) of
        None \<Rightarrow> metered_plan ex sched it plan recorded st
      | Some b \<Rightarrow>
          (let (err, s, nr, w) = run_batch b
             (\<lambda>(s, nr, w).
                let st1 = metered_plan ex sched it plan recorded
                            \<lparr>xsStore = s, xsNextRetry = nr, xsWorld = w\<rparr>
                in (None, xsStore st1, xsNextRetry st1, xsWorld st1))
             (xsStore st, xsNextRetry st, xsWorld st)
           in \<lparr>xsStore = s, xsNextRetry = nr, xsWorld = w\<rparr>))"

text \<open>\<open>logDrift\<close>, less its log lines.\<close>

fun drift_ops :: "string \<Rightarrow> Op list \<Rightarrow> metrics \<Rightarrow> metrics" where
  "drift_ops upstreamName [] m = m"
| "drift_ops upstreamName (op # ops) m =
     drift_ops upstreamName ops
       (if DriftReason op = '''' then m else RecordDrift upstreamName (DriftReason op) m)"

fun logDrift :: "(string \<times> Op list) list \<Rightarrow> metrics \<Rightarrow> metrics" where
  "logDrift [] m = m"
| "logDrift ((upstreamName, ops) # rest) m = logDrift rest (drift_ops upstreamName ops m)"

text \<open>\<open>reconcile\<close> with its metrics; \<open>logged\<close> is the order in which \<open>logDrift\<close> ranges over the plan.\<close>

definition metered_reconcile ::
  "('s, 'w) reconciler \<Rightarrow> 'w pass_choices \<Rightarrow> (string \<times> Op list) iteration
     \<Rightarrow> ('s, 'w metered_world) rec_state \<Rightarrow> ('s, 'w metered_world) rec_state" where
  "metered_reconcile rc pc logged st =
     (if envCtxErr (rcEnv rc) (mwNet (rsWorld st)) then st
      else case CollectDesired (map metered_source (rcSources rc)) (rsLastGood st) (rsWorld st) of
        (Panicked m, lg, w) \<Rightarrow> st\<lparr>rsLastGood := lg, rsWorld := w\<rparr>
      | (Returned (desired, snapshotted), lg, w) \<Rightarrow>
      (case stList (rcOps rc) (pcList pc) (rsStore st) of
         Inl err \<Rightarrow>
           (let failures = wrap64 (rsListFailures st + 1) in
            st\<lparr>rsLastGood := lg, rsListFailures := failures,
               rsWorld := w\<lparr>mwNet := rcSleep rc (storeReadBackoff failures) (mwNet w)\<rparr>\<rparr>)
       | Inr recorded \<Rightarrow>
           (let snapshotted' = markOrphanSources (rcSources rc) recorded snapshotted in
            case collect_upstreams (rcVerify rc) (envNow (rcEnv rc) (mwNet w))
                   (map (metered (rcEnv rc)) (iterate (pcUpstreams pc) (rcUpstreams rc)))
                   \<lparr>ucActual = [], ucFetched = [], ucNextCheck = rsNextCheck st\<rparr> w of
              (Panicked m, uc, w1) \<Rightarrow>
                st\<lparr>rsLastGood := lg, rsListFailures := 0, rsNextCheck := ucNextCheck uc, rsWorld := w1\<rparr>
            | (Returned _, uc, w1) \<Rightarrow>
                (let plan = diff (pcDiff pc) desired recorded snapshotted'
                              \<lparr>Actual = ucActual uc, Fetched = ucFetched uc, Compare = rcDrift rc\<rparr>;
                     w2 = w1\<lparr>mwMetrics := logDrift (iterate logged plan) (mwMetrics w1)\<rparr>;
                     xs = metered_Apply (rcExecutor rc) (pcSched pc) (pcPlan pc) plan recorded
                            \<lparr>xsStore = rsStore st, xsNextRetry = rsNextRetry st, xsWorld = w2\<rparr>
                 in \<lparr>rsStore = xsStore xs, rsNextRetry = xsNextRetry xs, rsLastGood = lg,
                     rsNextCheck = ucNextCheck uc, rsListFailures = 0, rsWorld = xsWorld xs\<rparr>))))"

section \<open>Metrics change nothing\<close>

text \<open>\<open>forgets f' f\<close>: with the instruments forgotten, \<open>f'\<close> is \<open>f\<close>.\<close>

definition forgets :: "('w metered_world \<Rightarrow> 'r \<times> 'w metered_world) \<Rightarrow> ('w \<Rightarrow> 'r \<times> 'w) \<Rightarrow> bool" where
  "forgets f' f \<longleftrightarrow> (\<forall>w. map_prod id mwNet (f' w) = f (mwNet w))"

lemma forgetsI: "(\<And>w. map_prod id mwNet (f' w) = f (mwNet w)) \<Longrightarrow> forgets f' f"
  by (simp add: forgets_def)

lemma forgetsD: "forgets f' f \<Longrightarrow> f (mwNet w) = (fst (f' w), mwNet (snd (f' w)))"
  unfolding forgets_def by (drule spec [of _ w]) (cases "f' w", simp)

lemma observe_call_net [simp]: "mwNet (observe_call now n oper err start w) = mwNet w"
  by (simp add: observe_call_def)

lemma metered_upsert_forgets: "forgets (metered_upsert env u r) (upUpsert u r)"
  by (auto simp: metered_upsert_def Let_def split: prod.splits outcome.splits intro!: forgetsI)

lemma metered_delete_forgets: "forgets (metered_delete env u r) (upDelete u r)"
  by (auto simp: metered_delete_def Let_def split: prod.splits outcome.splits intro!: forgetsI)

lemma metered_list_forgets: "forgets (metered_list env n list) list"
  by (auto simp: metered_list_def observe_list_def Let_def split: prod.splits outcome.splits intro!: forgetsI)

lemma metered_simps [simp]:
  "fst (metered env nu) = fst nu" "upName (snd (metered env nu)) = upName (snd nu)"
  "upUpsert (snd (metered env nu)) = metered_upsert env (snd nu)"
  "upDelete (snd (metered env nu)) = metered_delete env (snd nu)"
  "upList (snd (metered env nu)) = map_option (metered_list env (fst nu)) (upList (snd nu))"
  "upDriftEqual (snd (metered env nu)) = upDriftEqual (snd nu)"
  by (simp_all add: metered_def split: prod.splits)

lemma metered_env_simps [simp]:
  "envNow (metered_env env) w = envNow env (mwNet w)" "envCtxErr (metered_env env) w = envCtxErr env (mwNet w)"
  by (simp_all add: metered_env_def)

lemma metered_worker_forgets:
  "forgets (worker (metered_env env) (snd (metered env (name, u))) rec op) (worker env u rec op)"
proof (rule forgetsI)
  fix w
  note f = forgetsD [OF metered_upsert_forgets, of u _ w env] forgetsD [OF metered_delete_forgets, of u _ w env]
  show "map_prod id mwNet (worker (metered_env env) (snd (metered env (name, u))) rec op w)
    = worker env u rec op (mwNet w)"
    by (auto simp: worker_def do_op_def Let_def f
        split: prod.splits outcome.splits option.splits OpKind.splits)
qed

lemma run_pool_forgets:
  assumes "\<And>x. forgets (f' x) (f x)"
  shows "forgets (run_pool f' k choices tasks res) (run_pool f k choices tasks res)"
proof (rule forgetsI)
  show "map_prod id mwNet (run_pool f' k choices tasks res w) = run_pool f k choices tasks res (mwNet w)" for w
    using assms
  proof (induction f' k choices tasks res w rule: run_pool.induct)
    case (2 f' k choices t ts res w)
    note f = forgetsD [OF 2(2)]
    show ?case
      unfolding run_pool.simps(2) Let_def
      by (simp only: split_def f fst_conv snd_conv) (rule 2(1) [OF refl refl _ refl _ 2(2)], simp_all)
  qed simp
qed

lemma metered_applyUpstream_forgets:
  "forgets (metered_applyUpstream ex choices (snd (metered (exEnv ex) (name, u))) ops rec now nr)
     (applyUpstream ex choices u ops rec now nr)"
proof (rule forgetsI)
  fix w
  let ?f' = "worker (metered_env (exEnv ex)) (snd (metered (exEnv ex) (name, u))) rec"
  have "forgets (run_pool ?f' (exMaxConc ex) choices tasks res)
      (run_pool (worker (exEnv ex) u rec) (exMaxConc ex) choices tasks res)" for tasks res
    by (rule run_pool_forgets) (rule metered_worker_forgets)
  from forgetsD [OF this, of _ _ "w\<lparr>mwMetrics := count_gated nr now ops (mwMetrics w)\<rparr>"]
  show "map_prod id mwNet (metered_applyUpstream ex choices (snd (metered (exEnv ex) (name, u))) ops rec now nr w)
    = applyUpstream ex choices u ops rec now nr (mwNet w)"
    by (simp add: metered_applyUpstream_def applyUpstream_def metered_executor_def Let_def map_prod_def split_def)
qed

lemma map_of_metered:
  "map_of (map (metered env) ups) name = map_option (\<lambda>u. snd (metered env (name, u))) (map_of ups name)"
  by (induction ups) (auto simp: metered_def)

definition forget_exec :: "('s, 'w metered_world) exec_state \<Rightarrow> ('s, 'w) exec_state" where
  "forget_exec st = \<lparr>xsStore = xsStore st, xsNextRetry = xsNextRetry st, xsWorld = mwNet (xsWorld st)\<rparr>"

definition forget_rec :: "('s, 'w metered_world) rec_state \<Rightarrow> ('s, 'w) rec_state" where
  "forget_rec st = \<lparr>rsStore = rsStore st, rsNextRetry = rsNextRetry st, rsLastGood = rsLastGood st,
     rsNextCheck = rsNextCheck st, rsListFailures = rsListFailures st, rsWorld = mwNet (rsWorld st)\<rparr>"

lemma forget_exec_simps [simp]:
  "xsStore (forget_exec st) = xsStore st" "xsNextRetry (forget_exec st) = xsNextRetry st"
  "xsWorld (forget_exec st) = mwNet (xsWorld st)"
  "forget_exec (st\<lparr>xsStore := s\<rparr>) = (forget_exec st)\<lparr>xsStore := s\<rparr>"
  "forget_exec \<lparr>xsStore = s, xsNextRetry = nr, xsWorld = w\<rparr> = \<lparr>xsStore = s, xsNextRetry = nr, xsWorld = mwNet w\<rparr>"
  by (simp_all add: forget_exec_def)

lemma metered_groups_forget:
  "forget_exec (metered_groups ex sched rec now groups st) = apply_groups ex sched rec now groups (forget_exec st)"
proof (induction groups arbitrary: st)
  case (Cons g rest)
  obtain name ops where g: "g = (name, ops)" by (cases g)
  show ?case
  proof (cases "map_of (exUpstreams ex) name")
    case None
    then show ?thesis by (simp add: g Cons.IH metered_executor_def map_of_metered apply_groups.simps)
  next
    case (Some u)
    then show ?thesis
      using forgetsD [OF metered_applyUpstream_forgets, of ex "sched name" u ops rec now "xsNextRetry st" "xsWorld st" name]
      by (simp add: g Cons.IH metered_executor_def map_of_metered Let_def split_def apply_groups.simps)
  qed
qed (simp add: apply_groups.simps)

lemma metered_plan_forget:
  "forget_exec (metered_plan ex sched it plan recorded st) = apply_plan ex sched it plan recorded (forget_exec st)"
  unfolding metered_plan_def apply_plan_def metered_groups_forget by simp

lemma metered_Apply_forget:
  "forget_exec (metered_Apply ex sched it plan recorded st) = Apply ex sched it plan recorded (forget_exec st)"
proof (cases "stBatch (exOps ex)")
  case None
  then show ?thesis by (simp add: metered_Apply_def Apply_def metered_plan_forget)
next
  case (Some b)
  have p: "xsStore (metered_plan ex sched it plan recorded st1) = xsStore (apply_plan ex sched it plan recorded (forget_exec st1))"
    "xsNextRetry (metered_plan ex sched it plan recorded st1) = xsNextRetry (apply_plan ex sched it plan recorded (forget_exec st1))"
    "mwNet (xsWorld (metered_plan ex sched it plan recorded st1)) = xsWorld (apply_plan ex sched it plan recorded (forget_exec st1))"
    for st1
    unfolding metered_plan_forget [symmetric] by simp_all
  show ?thesis by (simp add: Some metered_Apply_def Apply_def run_batch_def Let_def split_def p)
qed

lemma metered_Apply_fields:
  "xsStore (metered_Apply ex sched it plan recorded st) = xsStore (Apply ex sched it plan recorded (forget_exec st))"
  "xsNextRetry (metered_Apply ex sched it plan recorded st) = xsNextRetry (Apply ex sched it plan recorded (forget_exec st))"
  "mwNet (xsWorld (metered_Apply ex sched it plan recorded st)) = xsWorld (Apply ex sched it plan recorded (forget_exec st))"
  unfolding metered_Apply_forget [symmetric] by simp_all

lemma metered_sources_forget:
  "collect_sources srcs d sn lg (mwNet w)
     = (case collect_sources (map metered_source srcs) d sn lg w of (r, lg', w') \<Rightarrow> (r, lg', mwNet w'))"
proof (induction srcs arbitrary: d sn lg w)
  case (Cons src srcs)
  obtain r n where s: "snapSnapshot src (mwNet w) = (r, n)" by (cases "snapSnapshot src (mwNet w)")
  show ?case
    using Cons.IH [of _ _ _ "w\<lparr>mwNet := n\<rparr>"] s
    by (auto simp: metered_source_def split: outcome.splits sum.splits)
qed simp

lemma metered_upstreams_forget:
  "collect_upstreams interval now ups uc (mwNet w)
     = (case collect_upstreams interval now (map (metered env) ups) uc w of (r, uc', w') \<Rightarrow> (r, uc', mwNet w'))"
proof (induction ups arbitrary: uc w)
  case (Cons nu ups)
  obtain name u where nu: "nu = (name, u)" by (cases nu)
  show ?case
  proof (cases "upList u = None \<or> \<not> check_due interval (ucNextCheck uc) now name")
    case True
    then show ?thesis using Cons.IH by (auto simp: nu metered_def split: option.splits)
  next
    case False
    then obtain l where l: "upList u = Some l" by auto
    obtain r w1 where r: "metered_list env name l w = (r, w1)" by (cases "metered_list env name l w")
    have "l (mwNet w) = (r, mwNet w1)" using forgetsD [OF metered_list_forgets, of l w env name] r by simp
    with False l r show ?thesis
      using Cons.IH [of _ w1] by (auto simp: nu metered_def split: outcome.splits sum.splits)
  qed
qed simp

text \<open>The pass with its metrics is the pass of \<open>Reconcile\<close> when the instruments are forgotten.\<close>

lemma forget_rec_simps [simp]:
  "rsStore (forget_rec st) = rsStore st" "rsNextRetry (forget_rec st) = rsNextRetry st"
  "rsLastGood (forget_rec st) = rsLastGood st" "rsNextCheck (forget_rec st) = rsNextCheck st"
  "rsListFailures (forget_rec st) = rsListFailures st" "rsWorld (forget_rec st) = mwNet (rsWorld st)"
  by (simp_all add: forget_rec_def)

theorem metered_reconcile_forget:
  "forget_rec (metered_reconcile rc pc logged st) = reconcile rc pc (forget_rec st)"
proof -
  obtain r lg w where c: "CollectDesired (map metered_source (rcSources rc)) (rsLastGood st) (rsWorld st) = (r, lg, w)"
    by (metis prod_cases3)
  then have c': "CollectDesired (rcSources rc) (rsLastGood st) (mwNet (rsWorld st)) = (r, lg, mwNet w)"
    by (simp add: CollectDesired_def metered_sources_forget)
  obtain ur uc w1 where u: "collect_upstreams (rcVerify rc) (envNow (rcEnv rc) (mwNet w))
      (map (metered (rcEnv rc)) (iterate (pcUpstreams pc) (rcUpstreams rc)))
      \<lparr>ucActual = [], ucFetched = [], ucNextCheck = rsNextCheck st\<rparr> w = (ur, uc, w1)"
    by (metis prod_cases3)
  then have u': "CollectUpstreams (pcUpstreams pc) (rcUpstreams rc) (rcVerify rc)
      (envNow (rcEnv rc) (mwNet w)) (rsNextCheck st) (mwNet w) = (ur, uc, mwNet w1)"
    by (simp add: CollectUpstreams_def metered_upstreams_forget [where env = "rcEnv rc"])
  show ?thesis
    by (cases "envCtxErr (rcEnv rc) (mwNet (rsWorld st))"; cases r; cases "stList (rcOps rc) (pcList pc) (rsStore st)"; cases ur)
      (simp_all add: metered_reconcile_def reconcile_def c c' u u' Let_def split_def,
       simp_all add: forget_rec_def metered_Apply_fields)
qed

section \<open>What the counters say\<close>

definition sync_calls :: "metrics \<Rightarrow> string \<Rightarrow> string \<Rightarrow> nat" where
  "sync_calls m up oper =
     go_get 0 (mtSyncTotal m) (up, oper, ''success'') + go_get 0 (mtSyncTotal m) (up, oper, ''failure'')"

text \<open>Every operation ends as a call that was made or as one held back.\<close>

definition accounted :: "metrics \<Rightarrow> string \<Rightarrow> nat" where
  "accounted m up = sync_calls m up ''upsert'' + sync_calls m up ''delete'' + go_get 0 (mtBackoffGated m) up"

definition never_panics :: "'w upstream \<Rightarrow> bool" where
  "never_panics u \<longleftrightarrow> (\<forall>r w m. fst (upUpsert u r w) \<noteq> Panicked m \<and> fst (upDelete u r w) \<noteq> Panicked m)"

lemma observe_call_calls:
  "sync_calls (mwMetrics (observe_call now n oper' err start w)) up oper
     = sync_calls (mwMetrics w) up oper + (if up = n \<and> oper = oper' then 1 else 0)"
  "mtBackoffGated (mwMetrics (observe_call now n oper' err start w)) = mtBackoffGated (mwMetrics w)"
  "mtDriftTotal (mwMetrics (observe_call now n oper' err start w)) = mtDriftTotal (mwMetrics w)"
  by (auto simp: observe_call_def RecordSync_def sync_calls_def Let_def)

lemma metered_call_counts:
  assumes "never_panics u"
  shows "sync_calls (mwMetrics (snd (metered_upsert env u r w))) up oper
      = sync_calls (mwMetrics w) up oper + (if up = Upstream r \<and> oper = ''upsert'' then 1 else 0)"
    "sync_calls (mwMetrics (snd (metered_delete env u r w))) up oper
      = sync_calls (mwMetrics w) up oper + (if up = Upstream r \<and> oper = ''delete'' then 1 else 0)"
    "mtBackoffGated (mwMetrics (snd (metered_upsert env u r w))) = mtBackoffGated (mwMetrics w)"
    "mtBackoffGated (mwMetrics (snd (metered_delete env u r w))) = mtBackoffGated (mwMetrics w)"
proof -
  obtain e n where "upUpsert u r (mwNet w) = (Returned e, n)"
    using assms by (metis never_panics_def outcome.exhaust prod.collapse)
  moreover obtain e' n' where "upDelete u r (mwNet w) = (Returned e', n')"
    using assms by (metis never_panics_def outcome.exhaust prod.collapse)
  ultimately show "sync_calls (mwMetrics (snd (metered_upsert env u r w))) up oper
      = sync_calls (mwMetrics w) up oper + (if up = Upstream r \<and> oper = ''upsert'' then 1 else 0)"
    "sync_calls (mwMetrics (snd (metered_delete env u r w))) up oper
      = sync_calls (mwMetrics w) up oper + (if up = Upstream r \<and> oper = ''delete'' then 1 else 0)"
    "mtBackoffGated (mwMetrics (snd (metered_upsert env u r w))) = mtBackoffGated (mwMetrics w)"
    "mtBackoffGated (mwMetrics (snd (metered_delete env u r w))) = mtBackoffGated (mwMetrics w)"
    by (simp_all add: metered_upsert_def metered_delete_def observe_call_calls)
qed

definition op_call :: "Op \<Rightarrow> string" where
  "op_call op = (if Kind op = OpDelete then ''delete'' else ''upsert'')"

lemma worker_counts:
  assumes "never_panics u" "Kind op \<noteq> OpNoop"
  shows "sync_calls (mwMetrics (snd (worker env' (snd (metered env (name, u))) rec op w))) up oper
      = sync_calls (mwMetrics w) up oper + (if Upstream (opRecord op) = up \<and> op_call op = oper then 1 else 0)"
    "mtBackoffGated (mwMetrics (snd (worker env' (snd (metered env (name, u))) rec op w))) = mtBackoffGated (mwMetrics w)"
  using assms(2) unfolding worker_world
  by (auto simp: metered_call_counts [OF assms(1)] op_call_def split: OpKind.splits)

lemma run_pool_adds:
  fixes c :: "'w \<Rightarrow> nat"
  assumes "\<forall>(i, x) \<in> set tasks. \<forall>w. c (snd (f x w)) = c w + g x"
  shows "c (snd (run_pool f k choices tasks res w)) = c w + sum_list (map (g \<circ> snd) tasks)"
  using assms
proof (induction "length tasks" arbitrary: tasks choices res w)
  case 0
  then show ?case by simp
next
  case (Suc n)
  then obtain t ts where t: "tasks = t # ts" by (cases tasks) auto
  obtain i where i: "i < length tasks"
    and r: "run_pool f k choices tasks res w
      = run_pool f k (tl choices) (take i tasks @ drop (Suc i) tasks)
          (res[fst (tasks ! i) := fst (f (snd (tasks ! i)) w)]) (snd (f (snd (tasks ! i)) w))"
    using run_pool_step [where f = f and k = k and t = t and ts = ts and w = w] t by metis
  let ?rest = "take i tasks @ drop (Suc i) tasks"
  have m: "mset tasks = add_mset (tasks ! i) (mset ?rest)" using i by (rule drop_nth_mset)
  then have "set ?rest \<subseteq> set tasks" by (metis set_mset_add_mset_insert set_mset_mset subset_insertI)
  then have a: "\<forall>(i, x) \<in> set ?rest. \<forall>w. c (snd (f x w)) = c w + g x" using Suc(3) by blast
  have n: "n = length ?rest" using Suc(2) i by simp
  have "c (snd (f (snd (tasks ! i)) w)) = c w + g (snd (tasks ! i))"
    using Suc(3) nth_mem [OF i] by (auto simp: split_def)
  moreover have "sum_list (map (g \<circ> snd) tasks) = g (snd (tasks ! i)) + sum_list (map (g \<circ> snd) ?rest)"
    using arg_cong [OF m, of "\<lambda>M. \<Sum>x \<in># M. g (snd x)"] by (simp add: sum_mset_sum_list [symmetric] comp_def)
  ultimately show ?case using Suc(1) [OF n a, of "tl choices" _ "snd (f (snd (tasks ! i)) w)"] r by simp
qed

lemma sum_tasks:
  "sum_list (map ((\<lambda>x. if R x then 1 else 0) \<circ> snd) (filter (\<lambda>(i, x). Q x) (enumerate n xs)))
     = length (filter (\<lambda>x. Q x \<and> R x) xs)"
  by (induction xs arbitrary: n) auto

lemma count_gated_calls [simp]: "sync_calls (count_gated nr now ops m) up oper = sync_calls m up oper"
  by (induction nr now ops m rule: count_gated.induct) (simp_all add: RecordBackoffGated_def sync_calls_def)

lemma count_gated_gates:
  "go_get 0 (mtBackoffGated (count_gated nr now ops m)) up
     = go_get 0 (mtBackoffGated m) up +
       length (filter (\<lambda>op. Kind op \<noteq> OpNoop \<and> gated nr now op \<and> Upstream (opRecord op) = up) ops)"
  by (induction nr now ops m rule: count_gated.induct) (simp_all add: RecordBackoffGated_def)

lemma applyUpstream_counts:
  assumes "never_panics u"
  shows "sync_calls (mwMetrics (snd (metered_applyUpstream ex choices (snd (metered (exEnv ex) (name, u))) ops rec now nr w))) up oper
      = sync_calls (mwMetrics w) up oper +
        length (filter (\<lambda>op. attempted nr now op \<and> Upstream (opRecord op) = up \<and> op_call op = oper) ops)"
    "go_get 0 (mtBackoffGated (mwMetrics (snd (metered_applyUpstream ex choices (snd (metered (exEnv ex) (name, u))) ops rec now nr w)))) up
      = go_get 0 (mtBackoffGated (mwMetrics w)) up +
        length (filter (\<lambda>op. Kind op \<noteq> OpNoop \<and> gated nr now op \<and> Upstream (opRecord op) = up) ops)"
proof -
  let ?u = "snd (metered (exEnv ex) (name, u))" and ?env = "metered_env (exEnv ex)"
  let ?P = "\<lambda>op. Kind op \<noteq> OpNoop \<and> \<not> gated nr now op"
  let ?tasks = "filter (\<lambda>(i, op). ?P op) (enumerate 0 ops)"
  let ?R = "\<lambda>op. Upstream (opRecord op) = up \<and> op_call op = oper"
  let ?res = "replicate (length ops) skip_result"
  have calls: "sync_calls (mwMetrics (snd (run_pool (worker ?env ?u rec) (exMaxConc ex) choices ?tasks ?res w))) up oper
      = sync_calls (mwMetrics w) up oper + length (filter (\<lambda>op. ?P op \<and> ?R op) ops)" for w
  proof -
    have "sync_calls (mwMetrics (snd (run_pool (worker ?env ?u rec) (exMaxConc ex) choices ?tasks ?res w))) up oper
      = sync_calls (mwMetrics w) up oper + sum_list (map ((\<lambda>op. if ?R op then 1 else 0) \<circ> snd) ?tasks)"
      by (rule run_pool_adds [where c = "\<lambda>w. sync_calls (mwMetrics w) up oper"])
        (auto simp: worker_counts(1) [OF assms])
    then show ?thesis by (simp only: sum_tasks)
  qed
  have gates: "go_get 0 (mtBackoffGated (mwMetrics (snd (run_pool (worker ?env ?u rec) (exMaxConc ex) choices ?tasks ?res w)))) up
      = go_get 0 (mtBackoffGated (mwMetrics w)) up + sum_list (map ((\<lambda>_. 0) \<circ> snd) ?tasks)" for w
    by (rule run_pool_adds [where c = "\<lambda>w. go_get 0 (mtBackoffGated (mwMetrics w)) up"])
      (auto simp: worker_counts(2) [OF assms])
  show "sync_calls (mwMetrics (snd (metered_applyUpstream ex choices ?u ops rec now nr w))) up oper
      = sync_calls (mwMetrics w) up oper +
        length (filter (\<lambda>op. attempted nr now op \<and> Upstream (opRecord op) = up \<and> op_call op = oper) ops)"
    using calls [of "w\<lparr>mwMetrics := count_gated nr now ops (mwMetrics w)\<rparr>"]
    by (simp add: metered_applyUpstream_def applyUpstream_def metered_executor_def Let_def attempted_def conj_assoc)
  show "go_get 0 (mtBackoffGated (mwMetrics (snd (metered_applyUpstream ex choices ?u ops rec now nr w)))) up
      = go_get 0 (mtBackoffGated (mwMetrics w)) up +
        length (filter (\<lambda>op. Kind op \<noteq> OpNoop \<and> gated nr now op \<and> Upstream (opRecord op) = up) ops)"
    using gates [of "w\<lparr>mwMetrics := count_gated nr now ops (mwMetrics w)\<rparr>"]
    by (simp add: metered_applyUpstream_def applyUpstream_def metered_executor_def Let_def count_gated_gates comp_def)
qed

lemma applyUpstream_accounted:
  assumes "never_panics u"
  shows "accounted (mwMetrics (snd (metered_applyUpstream ex choices (snd (metered (exEnv ex) (name, u))) ops rec now nr w))) up
      = accounted (mwMetrics w) up + length (filter (\<lambda>op. Kind op \<noteq> OpNoop \<and> Upstream (opRecord op) = up) ops)"
proof -
  have "length (filter (\<lambda>op. Kind op \<noteq> OpNoop \<and> Upstream (opRecord op) = up) ops)
      = length (filter (\<lambda>op. attempted nr now op \<and> Upstream (opRecord op) = up \<and> op_call op = ''upsert'') ops)
        + length (filter (\<lambda>op. attempted nr now op \<and> Upstream (opRecord op) = up \<and> op_call op = ''delete'') ops)
        + length (filter (\<lambda>op. Kind op \<noteq> OpNoop \<and> gated nr now op \<and> Upstream (opRecord op) = up) ops)"
    by (induction ops) (auto simp: attempted_def op_call_def)
  then show ?thesis by (simp add: accounted_def applyUpstream_counts [OF assms])
qed

text \<open>The operations of the configured upstreams under a label.\<close>

definition planned :: "(string, 'w upstream) go_map \<Rightarrow> (string \<times> Op list) list \<Rightarrow> string \<Rightarrow> nat" where
  "planned ups groups up =
     sum_list (map (\<lambda>(name, ops). if map_of ups name = None then 0
       else length (filter (\<lambda>op. Kind op \<noteq> OpNoop \<and> Upstream (opRecord op) = up) ops)) groups)"

lemma metered_groups_accounted:
  assumes "\<forall>(n, u) \<in> set (exUpstreams ex). never_panics u"
  shows "accounted (mwMetrics (xsWorld (metered_groups ex sched rec now groups st))) up
    = accounted (mwMetrics (xsWorld st)) up + planned (exUpstreams ex) groups up"
proof (induction groups arbitrary: st)
  case (Cons g rest)
  obtain name ops where g: "g = (name, ops)" by (cases g)
  show ?case
  proof (cases "map_of (exUpstreams ex) name")
    case None
    then show ?thesis by (simp add: g Cons.IH metered_executor_def map_of_metered planned_def)
  next
    case (Some u)
    then have "never_panics u" using assms by (auto dest: map_of_SomeD)
    with Some show ?thesis
      by (simp add: g Cons.IH metered_executor_def map_of_metered planned_def Let_def split_def
          applyUpstream_accounted)
  qed
qed (simp add: planned_def)

lemma sum_list_iterate: "sum_list (map f (iterate it xs)) = (sum_list (map f xs) :: nat)"
proof -
  have "mset (map f (iterate it xs)) = mset (map f xs)" by simp
  then show ?thesis by (metis sum_mset_sum_list)
qed

lemma planned_iterate [simp]: "planned ups (iterate it plan) up = planned ups plan up"
  unfolding planned_def by (rule sum_list_iterate)

lemma metered_Apply_accounted:
  assumes "\<forall>(n, u) \<in> set (exUpstreams ex). never_panics u"
  shows "accounted (mwMetrics (xsWorld (metered_Apply ex sched it plan recorded st))) up
    = accounted (mwMetrics (xsWorld st)) up + planned (exUpstreams ex) plan up"
  by (simp add: metered_Apply_def run_batch_def metered_plan_def metered_groups_accounted [OF assms]
      Let_def split_def split: option.splits)

section \<open>Drift\<close>

definition drift_count :: "(string \<times> Op list) list \<Rightarrow> string \<Rightarrow> string \<Rightarrow> nat" where
  "drift_count groups up reason =
     sum_list (map (\<lambda>(name, ops). if name = up then length (filter (\<lambda>op. DriftReason op = reason) ops) else 0) groups)"

lemma drift_ops_accounted [simp]: "accounted (drift_ops n ops m) up = accounted m up"
  by (induction n ops m rule: drift_ops.induct) (simp_all add: RecordDrift_def accounted_def sync_calls_def)

lemma drift_ops_counts:
  "reason \<noteq> '''' \<Longrightarrow> go_get 0 (mtDriftTotal (drift_ops n ops m)) (up, reason)
     = go_get 0 (mtDriftTotal m) (up, reason) +
       (if n = up then length (filter (\<lambda>op. DriftReason op = reason) ops) else 0)"
  by (induction n ops m rule: drift_ops.induct) (auto simp: RecordDrift_def)

lemma logDrift_accounted [simp]: "accounted (logDrift groups m) up = accounted m up"
  by (induction groups m rule: logDrift.induct) simp_all

lemma logDrift_counts:
  "reason \<noteq> '''' \<Longrightarrow> go_get 0 (mtDriftTotal (logDrift groups m)) (up, reason)
     = go_get 0 (mtDriftTotal m) (up, reason) + drift_count groups up reason"
  by (induction groups m rule: logDrift.induct) (simp_all add: drift_ops_counts drift_count_def)

lemma drift_count_iterate [simp]: "drift_count (iterate it plan) up reason = drift_count plan up reason"
  unfolding drift_count_def by (rule sum_list_iterate)

text \<open>The calls of the upstreams leave the counter of drift alone.\<close>

lemma metered_call_drift:
  "mtDriftTotal (mwMetrics (snd (metered_upsert env u r w))) = mtDriftTotal (mwMetrics w)"
  "mtDriftTotal (mwMetrics (snd (metered_delete env u r w))) = mtDriftTotal (mwMetrics w)"
  by (auto simp: metered_upsert_def metered_delete_def observe_call_calls Let_def
      split: prod.splits outcome.splits)

lemma count_gated_drift [simp]: "mtDriftTotal (count_gated nr now ops m) = mtDriftTotal m"
  by (induction nr now ops m rule: count_gated.induct) (simp_all add: RecordBackoffGated_def)

lemma applyUpstream_drift:
  "go_get 0 (mtDriftTotal (mwMetrics (snd (metered_applyUpstream ex choices (snd (metered (exEnv ex) (name, u))) ops rec now nr w)))) l
     = go_get 0 (mtDriftTotal (mwMetrics w)) l"
proof -
  let ?f = "worker (metered_env (exEnv ex)) (snd (metered (exEnv ex) (name, u))) rec"
  have "go_get 0 (mtDriftTotal (mwMetrics (snd (run_pool ?f (exMaxConc ex) choices tasks res w)))) l
      = go_get 0 (mtDriftTotal (mwMetrics w)) l + sum_list (map ((\<lambda>_. 0) \<circ> snd) tasks)" for tasks res w
    by (rule run_pool_adds [where c = "\<lambda>w. go_get 0 (mtDriftTotal (mwMetrics w)) l"])
      (auto simp: worker_world metered_call_drift split: OpKind.splits)
  then show ?thesis
    by (simp add: metered_applyUpstream_def applyUpstream_def metered_executor_def Let_def comp_def)
qed

lemma metered_Apply_drift:
  "go_get 0 (mtDriftTotal (mwMetrics (xsWorld (metered_Apply ex sched it plan recorded st)))) l
     = go_get 0 (mtDriftTotal (mwMetrics (xsWorld st))) l"
proof -
  have "go_get 0 (mtDriftTotal (mwMetrics (xsWorld (metered_groups ex sched rec now groups st)))) l
      = go_get 0 (mtDriftTotal (mwMetrics (xsWorld st))) l" for rec now groups st
  proof (induction groups arbitrary: st)
    case (Cons g rest)
    then show ?case
      by (cases g) (simp add: metered_executor_def map_of_metered Let_def split_def applyUpstream_drift
          split: option.splits)
  qed simp
  then show ?thesis
    by (simp add: metered_Apply_def run_batch_def metered_plan_def Let_def split_def split: option.splits)
qed

section \<open>A whole pass\<close>

lemma metered_sources_metrics:
  "collect_sources (map metered_source srcs) d sn lg w = (r, lg', w') \<Longrightarrow> mwMetrics w' = mwMetrics w"
proof (induction srcs arbitrary: d sn lg w)
  case (Cons src srcs)
  then show ?case
    by (auto simp: metered_source_def split: prod.splits outcome.splits sum.splits)
qed simp

lemma metered_list_metrics:
  "metered_list env n list w = (r, w') \<Longrightarrow>
     accounted (mwMetrics w') up = accounted (mwMetrics w) up \<and> mtDriftTotal (mwMetrics w') = mtDriftTotal (mwMetrics w)"
  by (auto simp: metered_list_def observe_list_def accounted_def observe_call_calls Let_def split: prod.splits outcome.splits)

lemma metered_upstreams_metrics:
  "collect_upstreams interval now (map (metered env) ups) uc w = (r, uc', w') \<Longrightarrow>
     accounted (mwMetrics w') up = accounted (mwMetrics w) up \<and> mtDriftTotal (mwMetrics w') = mtDriftTotal (mwMetrics w)"
proof (induction ups arbitrary: uc w)
  case (Cons nu ups)
  obtain name u where nu: "nu = (name, u)" by (cases nu)
  show ?case
  proof (cases "upList u = None \<or> \<not> check_due interval (ucNextCheck uc) now name")
    case True
    then show ?thesis using Cons by (auto simp: nu metered_def split: option.splits)
  next
    case False
    then obtain l where l: "upList u = Some l" by auto
    obtain q w1 where q: "metered_list env name l w = (q, w1)" by (cases "metered_list env name l w")
    show ?thesis
      using False l q Cons.prems Cons.IH [of _ w1] metered_list_metrics [OF q, of up]
      by (auto simp: nu metered_def split: outcome.splits sum.splits)
  qed
qed simp

text \<open>The plan of a pass; \<open>None\<close> when the pass ends before it makes one.\<close>

definition pass_plan :: "('s, 'w) reconciler \<Rightarrow> 'w pass_choices \<Rightarrow> ('s, 'w) rec_state \<Rightarrow> Plan option" where
  "pass_plan rc pc st =
     (if envCtxErr (rcEnv rc) (rsWorld st) then None
      else case CollectDesired (rcSources rc) (rsLastGood st) (rsWorld st) of
        (Returned (desired, snapshotted), lg, w) \<Rightarrow>
          (case stList (rcOps rc) (pcList pc) (rsStore st) of
             Inr recorded \<Rightarrow>
               (case CollectUpstreams (pcUpstreams pc) (rcUpstreams rc) (rcVerify rc)
                       (envNow (rcEnv rc) w) (rsNextCheck st) w of
                  (Returned _, uc, w1) \<Rightarrow>
                    Some (diff (pcDiff pc) desired recorded (markOrphanSources (rcSources rc) recorded snapshotted)
                      \<lparr>Actual = ucActual uc, Fetched = ucFetched uc, Compare = rcDrift rc\<rparr>)
                | _ \<Rightarrow> None)
           | _ \<Rightarrow> None)
      | _ \<Rightarrow> None)"

text \<open>
  C17. The counters of a pass account for its plan. Whatever the retry gates and the order of the
  workers, each create, update and delete that the plan holds for a configured upstream is counted
  once under the upstream's label: as a call that was made, with its result, or as one held back; a
  pass that makes no plan counts nothing. Each correction of drift is counted once under its reason.
\<close>

theorem pass_metrics_account:
  assumes "\<forall>(n, u) \<in> set (exUpstreams (rcExecutor rc)). never_panics u" "reason \<noteq> []"
  shows "let m = mwMetrics (rsWorld st);
      m' = mwMetrics (rsWorld (metered_reconcile rc pc logged st));
      plan = pass_plan rc pc (forget_rec st)
    in accounted m' up = accounted m up +
         (case plan of None \<Rightarrow> 0 | Some p \<Rightarrow> planned (exUpstreams (rcExecutor rc)) p up) \<and>
       go_get 0 (mtDriftTotal m') (up, reason) = go_get 0 (mtDriftTotal m) (up, reason) +
         (case plan of None \<Rightarrow> 0 | Some p \<Rightarrow> drift_count p up reason)"
proof -
  obtain r lg w where c: "CollectDesired (map metered_source (rcSources rc)) (rsLastGood st) (rsWorld st) = (r, lg, w)"
    by (metis prod_cases3)
  then have c': "CollectDesired (rcSources rc) (rsLastGood st) (mwNet (rsWorld st)) = (r, lg, mwNet w)"
    by (simp add: CollectDesired_def metered_sources_forget)
  have cm: "mwMetrics w = mwMetrics (rsWorld st)" using c unfolding CollectDesired_def by (rule metered_sources_metrics)
  obtain ur uc w1 where u: "collect_upstreams (rcVerify rc) (envNow (rcEnv rc) (mwNet w))
      (map (metered (rcEnv rc)) (iterate (pcUpstreams pc) (rcUpstreams rc)))
      \<lparr>ucActual = [], ucFetched = [], ucNextCheck = rsNextCheck st\<rparr> w = (ur, uc, w1)"
    by (metis prod_cases3)
  then have u': "CollectUpstreams (pcUpstreams pc) (rcUpstreams rc) (rcVerify rc)
      (envNow (rcEnv rc) (mwNet w)) (rsNextCheck st) (mwNet w) = (ur, uc, mwNet w1)"
    by (simp add: CollectUpstreams_def metered_upstreams_forget [where env = "rcEnv rc"])
  have um: "accounted (mwMetrics w1) up = accounted (mwMetrics (rsWorld st)) up"
    "mtDriftTotal (mwMetrics w1) = mtDriftTotal (mwMetrics (rsWorld st))"
    using metered_upstreams_metrics [OF u, of up] cm by simp_all
  note defs = metered_reconcile_def pass_plan_def c c' u u' Let_def split_def cm um
    metered_Apply_accounted [OF assms(1)] metered_Apply_drift logDrift_counts [OF assms(2)]
  show ?thesis
    by (cases "envCtxErr (rcEnv rc) (mwNet (rsWorld st))"; cases r; cases "stList (rcOps rc) (pcList pc) (rsStore st)"; cases ur)
      (simp_all add: defs)
qed

definition no_metrics :: metrics where
  "no_metrics = \<lparr>mtSyncTotal = [], mtSyncLatency = [], mtDriftTotal = [], mtAPICalls = [],
     mtAPILatency = [], mtBreakerOpen = [], mtBackoffGated = []\<rparr>"

definition sample_metered_state :: "Record list \<Rightarrow> (file_store, int metered_world) rec_state" where
  "sample_metered_state rs = \<lparr>rsStore = rsStore (sample_rec_state rs), rsNextRetry = [], rsLastGood = [],
     rsNextCheck = [], rsListFailures = 0, rsWorld = \<lparr>mwMetrics = no_metrics, mwNet = 0\<rparr>\<rparr>"

theorem pass_metrics_account_witness:
  "accounted (mwMetrics (rsWorld (metered_reconcile
     (sample_reconciler [fixed_source ''d'' [sample_record]] (bad_upstream ''pi'')) sample_choices in_order
     (sample_metered_state [])))) ''pi'' = 1"
proof -
  let ?rc = "sample_reconciler [fixed_source ''d'' [sample_record]] (bad_upstream ''pi'')"
  let ?st = "sample_metered_state []"
  have np: "\<forall>(n, u) \<in> set (exUpstreams (rcExecutor ?rc)). never_panics u"
    by (simp add: sample_reconciler_def NewReconciler_def NewExecutor_def never_panics_def bad_upstream_def)
  have up: "Upstream sample_record = ''pi''" by (simp add: sample_record_def)
  have "pass_plan ?rc sample_choices (forget_rec ?st) = Some [(''pi'', [simple_op OpCreate sample_record])]"
    by (simp add: pass_plan_def sample_reconciler_def NewReconciler_def clock_env_def CollectDesired_def
        fixed_source_def sample_metered_state_def sample_rec_state_def sample_choices_def
        file_ops_def fs_list_def CollectUpstreams_def bad_upstream_def diff_def plain_orders_def
        go_get_def Let_def plan_add_def desired_op_def up)
  then show ?thesis
    using pass_metrics_account [OF np, where reason = DriftMissing and st = ?st and pc = sample_choices
        and logged = in_order and up = "''pi''"]
    by (simp add: Let_def planned_def DriftMissing_def sample_metered_state_def no_metrics_def accounted_def
        sync_calls_def go_get_def sample_reconciler_def NewReconciler_def NewExecutor_def sample_record_def
        del: forget_rec_simps)
qed

end
