(* ===== verification/Lifecycle.thy ===== *)
theory Lifecycle
  imports Reconcile Server
begin

text \<open>
  The running program: \<open>main\<close> from the start of its two parts to its exit, and \<open>Server.Run\<close> with its
  shutdown goroutine. The reconciler is the loop of \<open>Reconcile\<close>, step by step; the two share the
  context, which a signal or a failing server cancels. Proved here: once the context is
  cancelled nothing is written and the program winds down to its exit in a bounded number of steps,
  whatever else happens; the exit code says whether the server failed; and requests that are being
  served can be cut off by the exit.
\<close>

section \<open>The parts of the process\<close>

text \<open>\<open>HttpEnded\<close> carries what \<open>srv.Run\<close> returned.\<close>

datatype http_phase = HttpOff | HttpStarting | HttpServing | HttpEnded "error option"

text \<open>The goroutine in \<open>Run\<close> that waits for the context and then calls \<open>srv.Shutdown\<close>.\<close>

datatype shutdown_phase = NoShutdown | AwaitsDone | Draining | Drained

record ('s, 'w) life =
  lfRun :: "('s, 'w) run_state"
  lfHttp :: http_phase
  lfShutdown :: shutdown_phase
  lfRequests :: nat
  lfExit :: "int option"

definition life_init :: "bool \<Rightarrow> ('s, 'w) rec_state \<Rightarrow> ('s, 'w) life" where
  "life_init http st = \<lparr>lfRun = run_init st, lfHttp = (if http then HttpStarting else HttpOff),
     lfShutdown = NoShutdown, lfRequests = 0, lfExit = None\<rparr>"

definition ctx_done :: "('s, 'w) reconciler \<Rightarrow> ('s, 'w) life \<Rightarrow> bool" where
  "ctx_done rc s \<longleftrightarrow> envCtxErr (rcEnv rc) (rsWorld (rnRec (lfRun s)))"

text \<open>\<open>cancel\<close> says what the world is like once the context is cancelled.\<close>

definition cancel_ctx :: "('w \<Rightarrow> 'w) \<Rightarrow> ('s, 'w) life \<Rightarrow> ('s, 'w) life" where
  "cancel_ctx cancel s =
     (let run = lfRun s; rec = rnRec run
      in s\<lparr>lfRun := run\<lparr>rnRec := rec\<lparr>rsWorld := cancel (rsWorld rec)\<rparr>\<rparr>\<rparr>)"

text \<open>The exit code once the reconciler and the server have ended.\<close>

definition main_exit :: "error option \<Rightarrow> error option \<Rightarrow> int" where
  "main_exit reconcileErr httpErr = (if reconcileErr \<noteq> None \<or> httpErr \<noteq> None then 1 else 0)"

text \<open>
  What can happen: a signal; a step of the reconciler or its environment; \<open>net.Listen\<close> and \<open>Serve\<close>
  return, where \<open>None\<close> for \<open>Serve\<close> is \<open>http.ErrServerClosed\<close>; requests come and end; \<open>Shutdown\<close> is
  called and returns, with all requests ended or at its timeout; \<open>main\<close> returns.
\<close>

datatype 'w life_event =
    Signal
  | ReconcilerStep "'w run_event"
  | Listens "error option"
  | ServeEnds "error option"
  | RequestArrives
  | RequestEnds
  | ShutdownBegins
  | ShutdownEnds
  | MainReturns

text \<open>A context stays cancelled, so the world changes only to worlds that agree.\<close>

fun keeps_done :: "('s, 'w) reconciler \<Rightarrow> 'w run_event \<Rightarrow> ('s, 'w) life \<Rightarrow> bool" where
  "keeps_done rc (WorldChanges w) s \<longleftrightarrow> (ctx_done rc s \<longrightarrow> envCtxErr (rcEnv rc) w)"
| "keeps_done rc ev s \<longleftrightarrow> True"

text \<open>
  \<open>Server.Run\<close> and its goroutine. \<open>Serve\<close> returns \<open>ErrServerClosed\<close> as soon as \<open>Shutdown\<close> has been
  called, not when it has returned.
\<close>

fun server_move :: "('s, 'w) reconciler \<Rightarrow> 'w life_event \<Rightarrow> ('s, 'w) life \<Rightarrow> ('s, 'w) life option" where
  "server_move rc (Listens listenErr) s =
     (if lfHttp s = HttpStarting then
        (if listenErr \<noteq> None then Some (s\<lparr>lfHttp := HttpEnded (server_Run listenErr None)\<rparr>)
         else Some (s\<lparr>lfHttp := HttpServing, lfShutdown := AwaitsDone\<rparr>))
      else None)"
| "server_move rc (ServeEnds serveErr) s =
     (if lfHttp s = HttpServing then
        (if serveErr \<noteq> None then Some (s\<lparr>lfHttp := HttpEnded (server_Run None serveErr)\<rparr>)
         else if lfShutdown s = Draining \<or> lfShutdown s = Drained then
           Some (s\<lparr>lfHttp := HttpEnded (server_Run None None)\<rparr>)
         else None)
      else None)"
| "server_move rc RequestArrives s =
     (if lfHttp s = HttpServing \<and> lfShutdown s = AwaitsDone then Some (s\<lparr>lfRequests := lfRequests s + 1\<rparr>) else None)"
| "server_move rc RequestEnds s =
     (if 0 < lfRequests s then Some (s\<lparr>lfRequests := lfRequests s - 1\<rparr>) else None)"
| "server_move rc ShutdownBegins s =
     (if lfShutdown s = AwaitsDone \<and> ctx_done rc s then Some (s\<lparr>lfShutdown := Draining\<rparr>) else None)"
| "server_move rc ShutdownEnds s =
     (if lfShutdown s = Draining then Some (s\<lparr>lfShutdown := Drained\<rparr>) else None)"
| "server_move rc ev s = None"

text \<open>The goroutine in \<open>main\<close> that calls \<open>srv.Run\<close>: an error cancels the context.\<close>

definition after_Run :: "('w \<Rightarrow> 'w) \<Rightarrow> ('s, 'w) life \<Rightarrow> ('s, 'w) life" where
  "after_Run cancel s = (case lfHttp s of HttpEnded (Some err) \<Rightarrow> cancel_ctx cancel s | _ \<Rightarrow> s)"

text \<open>
  \<open>main\<close>: the loop of the reconciler returns \<open>nil\<close>, and only when the context is cancelled already; then
  the server is waited for.
\<close>

fun life_move :: "('s, 'w) reconciler \<Rightarrow> ('w \<Rightarrow> 'w) \<Rightarrow> 'w life_event \<Rightarrow> ('s, 'w) life \<Rightarrow> ('s, 'w) life option" where
  "life_move rc cancel Signal s = Some (cancel_ctx cancel s)"
| "life_move rc cancel (ReconcilerStep ev) s =
     (if keeps_done rc ev s then map_option (\<lambda>run. s\<lparr>lfRun := run\<rparr>) (run_step rc ev (lfRun s)) else None)"
| "life_move rc cancel (Listens err) s = map_option (after_Run cancel) (server_move rc (Listens err) s)"
| "life_move rc cancel (ServeEnds err) s = map_option (after_Run cancel) (server_move rc (ServeEnds err) s)"
| "life_move rc cancel MainReturns s =
     (if rnExited (lfRun s) then
        (case lfHttp s of
           HttpOff \<Rightarrow> Some (s\<lparr>lfExit := Some (main_exit None None)\<rparr>)
         | HttpEnded httpErr \<Rightarrow> Some (s\<lparr>lfExit := Some (main_exit None httpErr)\<rparr>)
         | _ \<Rightarrow> None)
      else None)"
| "life_move rc cancel ev s = server_move rc ev s"

definition life_step :: "('s, 'w) reconciler \<Rightarrow> ('w \<Rightarrow> 'w) \<Rightarrow> 'w life_event \<Rightarrow> ('s, 'w) life \<Rightarrow> ('s, 'w) life option" where
  "life_step rc cancel ev s = (if lfExit s = None then life_move rc cancel ev s else None)"

inductive life_reachable ::
  "('s, 'w) reconciler \<Rightarrow> ('w \<Rightarrow> 'w) \<Rightarrow> bool \<Rightarrow> ('s, 'w) rec_state \<Rightarrow> ('s, 'w) life \<Rightarrow> bool"
  for rc :: "('s, 'w) reconciler" and cancel :: "'w \<Rightarrow> 'w" and http :: bool and st :: "('s, 'w) rec_state" where
  life_begin: "life_reachable rc cancel http st (life_init http st)"
| life_next: "life_reachable rc cancel http st s \<Longrightarrow> life_step rc cancel ev s = Some s' \<Longrightarrow>
    life_reachable rc cancel http st s'"

inductive_cases life_reachableE: "life_reachable rc cancel http st s"

section \<open>Invariant\<close>

definition http_failed :: "('s, 'w) life \<Rightarrow> bool" where
  "http_failed s \<longleftrightarrow> (\<exists>err. lfHttp s = HttpEnded (Some err))"

definition http_over :: "('s, 'w) life \<Rightarrow> bool" where
  "http_over s \<longleftrightarrow> lfHttp s = HttpOff \<or> (\<exists>err. lfHttp s = HttpEnded err)"

text \<open>
  A server that failed has cancelled the context, the loop has ended only under a cancelled context,
  and \<open>main\<close> has returned only when both parts have.
\<close>

definition life_inv :: "('s, 'w) reconciler \<Rightarrow> ('s, 'w) life \<Rightarrow> bool" where
  "life_inv rc s \<longleftrightarrow>
     (http_failed s \<longrightarrow> ctx_done rc s) \<and>
     (rnExited (lfRun s) \<longrightarrow> ctx_done rc s \<and> rnStarted (lfRun s)) \<and>
     (lfHttp s = HttpServing \<longrightarrow> lfShutdown s \<noteq> NoShutdown) \<and>
     (lfHttp s = HttpStarting \<longrightarrow> lfShutdown s = NoShutdown) \<and>
     (\<forall>c. lfExit s = Some c \<longrightarrow> rnExited (lfRun s) \<and> http_over s \<and> c = (if http_failed s then 1 else 0))"

lemma reconcile_done: "envCtxErr (rcEnv rc) (rsWorld st) \<Longrightarrow> reconcile rc pc st = st"
  by (simp add: reconcile_def)

lemma run_step_done:
  assumes "run_step rc ev run = Some run'" "envCtxErr (rcEnv rc) (rsWorld (rnRec run))"
    "\<And>w. ev = WorldChanges w \<Longrightarrow> envCtxErr (rcEnv rc) w"
  shows "envCtxErr (rcEnv rc) (rsWorld (rnRec run')) \<and> rsStore (rnRec run') = rsStore (rnRec run) \<and>
    rsNextRetry (rnRec run') = rsNextRetry (rnRec run)"
  using assms
  by (cases ev) (auto simp: run_pass_def receive_notify_def reconcile_done split: if_splits)

lemma run_step_exited:
  assumes "run_step rc ev run = Some run'"
  shows "rnExited run' \<longrightarrow> rnExited run \<or> (envCtxErr (rcEnv rc) (rsWorld (rnRec run')) \<and> rnStarted run')"
    "rnStarted run \<longrightarrow> rnStarted run'" "rnExited run \<longrightarrow> rnExited run'"
  using assms by (cases ev; auto simp: run_pass_def receive_notify_def run_live_def split: if_splits)+

lemma cancel_ctx_simps [simp]:
  "lfHttp (cancel_ctx cancel s) = lfHttp s" "lfShutdown (cancel_ctx cancel s) = lfShutdown s"
  "lfExit (cancel_ctx cancel s) = lfExit s" "rnExited (lfRun (cancel_ctx cancel s)) = rnExited (lfRun s)"
  "rnStarted (lfRun (cancel_ctx cancel s)) = rnStarted (lfRun s)"
  "rsStore (rnRec (lfRun (cancel_ctx cancel s))) = rsStore (rnRec (lfRun s))"
  "rsNextRetry (rnRec (lfRun (cancel_ctx cancel s))) = rsNextRetry (rnRec (lfRun s))"
  by (simp_all add: cancel_ctx_def Let_def)

lemma cancel_ctx_done: "\<forall>w. envCtxErr (rcEnv rc) (cancel w) \<Longrightarrow> ctx_done rc (cancel_ctx cancel s)"
  by (simp add: ctx_done_def cancel_ctx_def Let_def)

lemma ctx_done_simps [simp]:
  "ctx_done rc (s\<lparr>lfHttp := h\<rparr>) = ctx_done rc s" "ctx_done rc (s\<lparr>lfRequests := n\<rparr>) = ctx_done rc s"
  "ctx_done rc (s\<lparr>lfShutdown := d\<rparr>) = ctx_done rc s" "ctx_done rc (s\<lparr>lfExit := c\<rparr>) = ctx_done rc s"
  by (simp_all add: ctx_done_def)

lemma keeps_doneD: "keeps_done rc ev s \<Longrightarrow> ctx_done rc s \<Longrightarrow> ev = WorldChanges w \<Longrightarrow> envCtxErr (rcEnv rc) w"
  by simp

lemma after_Run_simps [simp]:
  "after_Run cancel (s\<lparr>lfHttp := HttpEnded (Some err)\<rparr>) = cancel_ctx cancel (s\<lparr>lfHttp := HttpEnded (Some err)\<rparr>)"
  "after_Run cancel (s\<lparr>lfHttp := HttpEnded None\<rparr>) = s\<lparr>lfHttp := HttpEnded None\<rparr>"
  "after_Run cancel (s\<lparr>lfHttp := HttpServing, lfShutdown := d\<rparr>) = s\<lparr>lfHttp := HttpServing, lfShutdown := d\<rparr>"
  by (simp_all add: after_Run_def)

lemma server_Run_simps [simp]: "server_Run (Some e) x = Some e" "server_Run None x = x"
  by (simp_all add: server_Run_def)

text \<open>A step under a cancelled context.\<close>

lemma life_step_done:
  assumes "life_step rc cancel ev s = Some s'" "ctx_done rc s" "\<forall>w. envCtxErr (rcEnv rc) (cancel w)"
  shows "ctx_done rc s' \<and> rsStore (rnRec (lfRun s')) = rsStore (rnRec (lfRun s)) \<and>
    rsNextRetry (rnRec (lfRun s')) = rsNextRetry (rnRec (lfRun s))"
proof (cases "\<exists>rev. ev = ReconcilerStep rev")
  case True
  then obtain rev run where e: "ev = ReconcilerStep rev" "keeps_done rc rev s"
    "run_step rc rev (lfRun s) = Some run" "s' = s\<lparr>lfRun := run\<rparr>"
    using assms(1) by (auto simp: life_step_def split: if_splits)
  from run_step_done [OF e(3)] keeps_doneD [OF e(2) assms(2)] assms(2) e(4)
  show ?thesis by (simp add: ctx_done_def)
next
  case False
  then show ?thesis
    using assms
    by (cases ev) (auto simp: life_step_def cancel_ctx_done split: if_splits http_phase.splits)
qed

lemma life_step_inv:
  assumes "life_step rc cancel ev s = Some s'" "life_inv rc s" "\<forall>w. envCtxErr (rcEnv rc) (cancel w)"
  shows "life_inv rc s'"
proof (cases "\<exists>rev. ev = ReconcilerStep rev")
  case True
  then obtain rev run where e: "ev = ReconcilerStep rev" "keeps_done rc rev s"
    "run_step rc rev (lfRun s) = Some run" "s' = s\<lparr>lfRun := run\<rparr>"
    using assms(1) by (auto simp: life_step_def split: if_splits)
  have x: "lfExit s = None" using assms(1) by (auto simp: life_step_def split: if_splits)
  have "ctx_done rc s \<Longrightarrow> ctx_done rc s'" using life_step_done [OF assms(1) _ assms(3)] by blast
  then show ?thesis
    using assms(2) e(4) x run_step_exited [OF e(3)]
    by (auto simp: life_inv_def http_failed_def http_over_def ctx_done_def)
next
  case False
  note defs = life_step_def life_inv_def http_failed_def http_over_def main_exit_def
  show ?thesis
  proof (cases "ctx_done rc s")
    case True
    then have "ctx_done rc s'" using life_step_done [OF assms(1) _ assms(3)] by blast
    with True False assms(1,2) show ?thesis
      by (cases ev) (auto simp: defs split: if_split_asm http_phase.split_asm)
  next
    case nd: False
    then have "\<not> rnExited (lfRun s)" "\<not> http_failed s" using assms(2) by (auto simp: life_inv_def)
    with nd False assms show ?thesis
      by (cases ev) (auto simp: defs cancel_ctx_done split: if_split_asm http_phase.split_asm)
  qed
qed

lemma life_reachable_inv:
  assumes "life_reachable rc cancel http st s" "\<forall>w. envCtxErr (rcEnv rc) (cancel w)"
  shows "life_inv rc s"
  using assms(1)
proof (induction rule: life_reachable.induct)
  case life_begin
  show ?case by (simp add: life_init_def life_inv_def http_failed_def run_init_def)
next
  case (life_next s ev s')
  with life_step_inv assms(2) show ?case by blast
qed

section \<open>Winding down\<close>

text \<open>The steps that the two parts and \<open>main\<close> take by themselves to come to their end.\<close>

fun winding :: "'w life_event \<Rightarrow> bool" where
  "winding (ReconcilerStep (LoopStart pc)) = True"
| "winding (ReconcilerStep LoopDone) = True"
| "winding (ReconcilerStep _) = False"
| "winding Signal = False"
| "winding RequestArrives = False"
| "winding RequestEnds = False"
| "winding _ = True"

definition life_rank :: "('s, 'w) life \<Rightarrow> nat" where
  "life_rank s =
     (if rnStarted (lfRun s) then 0 else 1) + (if rnExited (lfRun s) then 0 else 1) +
     (case lfHttp s of HttpStarting \<Rightarrow> 4 | HttpServing \<Rightarrow> 1 | _ \<Rightarrow> 0) +
     (case lfShutdown s of AwaitsDone \<Rightarrow> 2 | Draining \<Rightarrow> 1 | _ \<Rightarrow> 0) +
     (if lfExit s = None then 1 else 0)"

lemma life_rank_cancel [simp]: "life_rank (cancel_ctx cancel s) = life_rank s"
  by (simp add: life_rank_def)

lemma life_rank_step:
  assumes "life_step rc cancel ev s = Some s'" "life_inv rc s"
  shows "if winding ev then life_rank s' < life_rank s else life_rank s' \<le> life_rank s"
proof (cases "\<exists>rev. ev = ReconcilerStep rev")
  case True
  then obtain rev run where e: "ev = ReconcilerStep rev" 
    "run_step rc rev (lfRun s) = Some run" "s' = s\<lparr>lfRun := run\<rparr>"
    using assms(1) by (auto simp: life_step_def split: if_splits)
  then show ?thesis
    by (cases rev) (auto simp: life_rank_def run_pass_def receive_notify_def run_live_def split: if_splits)
next
  case False
  have "lfHttp s = HttpStarting \<Longrightarrow> lfShutdown s = NoShutdown" using assms(2) by (simp add: life_inv_def)
  with False assms(1) show ?thesis
    by (cases ev) (auto simp: life_step_def life_rank_def split: if_split_asm http_phase.split_asm)
qed

lemma winding_enabled:
  assumes "life_inv rc s" "ctx_done rc s" "lfExit s = None"
  shows "\<exists>ev s'. winding ev \<and> life_step rc cancel ev s = Some s'"
proof (cases "rnExited (lfRun s)")
  case False
  show ?thesis
  proof (cases "rnStarted (lfRun s)")
    case True
    with False assms(2,3) show ?thesis
      by (intro exI [of _ "ReconcilerStep LoopDone"]) (simp add: life_step_def run_live_def ctx_done_def)
  next
    case started: False
    with assms(3) show ?thesis
      by (intro exI [of _ "ReconcilerStep (LoopStart undefined)"]) (simp add: life_step_def)
  qed
next
  case True
  show ?thesis
  proof (cases "lfHttp s")
    case HttpStarting
    then show ?thesis using assms(3) by (intro exI [of _ "Listens None"]) (simp add: life_step_def)
  next
    case HttpServing
    then have "lfShutdown s \<noteq> NoShutdown" using assms(1) by (simp add: life_inv_def)
    then consider "lfShutdown s = AwaitsDone" | "lfShutdown s = Draining \<or> lfShutdown s = Drained"
      by (cases "lfShutdown s") auto
    then show ?thesis
    proof cases
      case 1
      with assms(2,3) show ?thesis by (intro exI [of _ ShutdownBegins]) (simp add: life_step_def)
    next
      case 2
      with assms(3) HttpServing show ?thesis by (intro exI [of _ "ServeEnds None"]) (auto simp: life_step_def)
    qed
  qed (use True assms(3) in \<open>auto simp: life_step_def intro!: exI [of _ MainReturns]\<close>)
qed


text \<open>A context whose world counts down to its cancellation at zero.\<close>

definition countdown_env :: "int env" where
  "countdown_env = \<lparr>envNow = (\<lambda>w. w), envCtxErr = (\<lambda>w. w = 0)\<rparr>"

definition sample_life_reconciler :: "(file_store, int) reconciler" where
  "sample_life_reconciler = NewReconciler (file_ops sample_enc) [] [] [] 0 5 4 countdown_env (\<lambda>d w. w)"

definition sample_life_state :: "(file_store, int) rec_state" where
  "sample_life_state = (sample_rec_state [])\<lparr>rsWorld := 1\<rparr>"

fun life_run ::
  "('s, 'w) reconciler \<Rightarrow> ('w \<Rightarrow> 'w) \<Rightarrow> 'w life_event list \<Rightarrow> ('s, 'w) life \<Rightarrow> ('s, 'w) life option" where
  "life_run rc cancel [] s = Some s"
| "life_run rc cancel (ev # evs) s =
     (case life_step rc cancel ev s of None \<Rightarrow> None | Some s' \<Rightarrow> life_run rc cancel evs s')"

lemma life_run_reachable:
  "life_run rc cancel evs s = Some s' \<Longrightarrow> life_reachable rc cancel http st s \<Longrightarrow>
     life_reachable rc cancel http st s'"
proof (induction evs arbitrary: s)
  case (Cons ev evs)
  then show ?case by (auto split: option.splits intro: life_next)
qed simp


text \<open>
  \<open>Serve\<close> returns as soon as \<open>Shutdown\<close> is called, and \<open>main\<close> does not wait for the goroutine in which
  \<open>Shutdown\<close> waits for the requests: a request can be cut off by the exit, with code 0.
\<close>

lemma shutdown_cut_short:
  "\<exists>s. life_reachable sample_life_reconciler (\<lambda>_. 0) True sample_life_state s \<and>
    lfExit s = Some 0 \<and> lfRequests s = 1 \<and> lfShutdown s = Draining"
proof -
  have "\<exists>s. life_run sample_life_reconciler (\<lambda>_. 0)
      [Listens None, RequestArrives, Signal, ReconcilerStep (LoopStart sample_choices), ShutdownBegins,
       ReconcilerStep LoopDone, ServeEnds None, MainReturns] (life_init True sample_life_state) = Some s \<and>
    lfExit s = Some 0 \<and> lfRequests s = 1 \<and> lfShutdown s = Draining"
    by (simp add: life_step_def life_init_def after_Run_def cancel_ctx_def Let_def run_init_def run_pass_def run_live_def
        sample_life_reconciler_def NewReconciler_def countdown_env_def reconcile_done ctx_done_def main_exit_def)
  then show ?thesis using life_run_reachable life_begin by blast
qed

end
