(* ===== verification/Url_Codec.thy ===== *)
theory Url_Codec
  imports Http_Api
begin

text \<open>
  Reading back what \<open>url.Values.Encode\<close> writes, the way a server does (\<open>url.ParseQuery\<close>). The
  adapters send every field of a record this way. Proved here: the parameters arrive as they were
  set, whatever bytes their values have, so no value can change another parameter.
\<close>

section \<open>Escaping\<close>

definition hex_value :: "char \<Rightarrow> nat" where
  "hex_value c = (let n = of_char c in if n < 58 then n - 48 else n - 55)"

fun query_unescape :: "string \<Rightarrow> string" where
  "query_unescape (c # a # b # cs) =
     (if c = CHR ''+'' then CHR '' '' # query_unescape (a # b # cs)
      else if c = CHR ''%'' then char_of (16 * hex_value a + hex_value b) # query_unescape cs
      else c # query_unescape (a # b # cs))"
| "query_unescape (c # cs) = (if c = CHR ''+'' then CHR '' '' else c) # query_unescape cs"
| "query_unescape [] = []"

definition escape_char :: "char \<Rightarrow> string" where
  "escape_char c =
     (if c = CHR '' '' then ''+'' else if unreserved c then [c]
      else let n = of_char c :: nat in [CHR ''%'', upper_hex (n div 16), upper_hex (n mod 16)])"

lemma query_escape_Cons: "query_escape (c # s) = escape_char c @ query_escape s"
  by (simp add: query_escape_def escape_char_def)

lemma query_escape_Nil: "query_escape [] = []"
  by (simp add: query_escape_def)

lemma of_char_less: "(of_char c :: nat) < 256"
proof -
  have "(of_char c :: nat) mod 256 < 256" by simp
  then show ?thesis by simp
qed

lemma of_char_upper_hex: "d < 16 \<Longrightarrow> (of_char (upper_hex d) :: nat) = (if d < 10 then 48 + d else 55 + d)"
  by (simp add: upper_hex_def)

lemma hex_value_upper: "d < 16 \<Longrightarrow> hex_value (upper_hex d) = d"
  by (simp add: hex_value_def of_char_upper_hex Let_def)

lemma unreserved_plain:
  assumes "unreserved c"
  shows "c \<noteq> CHR ''+''" "c \<noteq> CHR ''%''" "c \<noteq> CHR ''&''" "c \<noteq> CHR ''=''"
  using assms by (auto simp: unreserved_def Let_def)

lemma query_unescape_plain:
  "c \<noteq> CHR ''+'' \<Longrightarrow> c \<noteq> CHR ''%'' \<Longrightarrow> query_unescape (c # s) = c # query_unescape s"
  by (cases s; cases "tl s") auto

lemma query_unescape_plus: "query_unescape (CHR ''+'' # s) = CHR '' '' # query_unescape s"
  by (cases s; cases "tl s") auto

lemma query_unescape_char: "query_unescape (escape_char c @ s) = c # query_unescape s"
proof -
  have d: "(of_char c :: nat) div 16 < 16" "(of_char c :: nat) mod 16 < 16"
    using of_char_less [of c] by (auto intro: less_mult_imp_div_less)
  have "char_of (16 * ((of_char c :: nat) div 16) + of_char c mod 16) = c" by simp
  then show ?thesis
    by (auto simp: escape_char_def query_unescape_plus query_unescape_plain unreserved_plain Let_def
        hex_value_upper d)
qed

lemma query_unescape_escape [simp]: "query_unescape (query_escape s) = s"
  by (induction s) (simp_all add: query_escape_Cons query_escape_Nil query_unescape_char)

lemma escape_char_safe: "x \<in> set (escape_char c) \<Longrightarrow> x \<noteq> CHR ''&'' \<and> x \<noteq> CHR ''=''"
proof -
  have h: "upper_hex d \<noteq> CHR ''&'' \<and> upper_hex d \<noteq> CHR ''=''" if "d < 16" for d
  proof -
    have "(of_char (upper_hex d) :: nat) \<noteq> of_char (CHR ''&'') \<and> (of_char (upper_hex d) :: nat) \<noteq> of_char (CHR ''='')"
      using that by (auto simp: of_char_upper_hex)
    then show ?thesis by metis
  qed
  have d: "(of_char c :: nat) div 16 < 16" "(of_char c :: nat) mod 16 < 16"
    using of_char_less [of c] by (auto intro: less_mult_imp_div_less)
  assume "x \<in> set (escape_char c)"
  then show ?thesis
    using h [OF d(1)] h [OF d(2)] unreserved_plain [of c]
    by (auto simp: escape_char_def Let_def split: if_splits)
qed

lemma query_escape_safe: "CHR ''&'' \<notin> set (query_escape s)" "CHR ''='' \<notin> set (query_escape s)"
  by (induction s) (auto simp: query_escape_Cons query_escape_Nil dest: escape_char_safe)

section \<open>Parameters\<close>

definition decode_pair :: "string \<Rightarrow> string \<times> string" where
  "decode_pair s =
     (case cut s ''='' of None \<Rightarrow> (query_unescape s, '''') | Some (k, v) \<Rightarrow> (query_unescape k, query_unescape v))"

fun split_amp :: "string \<Rightarrow> string \<Rightarrow> string list" where
  "split_amp w [] = [w]"
| "split_amp w (c # cs) = (if c = CHR ''&'' then w # split_amp [] cs else split_amp (w @ [c]) cs)"

text \<open>\<open>url.ParseQuery\<close>: empty pieces are skipped.\<close>

definition parse_query :: "string \<Rightarrow> url_values" where
  "parse_query q = map decode_pair (filter (\<lambda>s. s \<noteq> '''') (split_amp '''' q))"

lemma split_amp_word: "CHR ''&'' \<notin> set s \<Longrightarrow> split_amp w (s @ cs) = split_amp (w @ s) cs"
  by (induction s arbitrary: w) auto

lemma split_amp_join:
  "ss \<noteq> [] \<Longrightarrow> \<forall>s \<in> set ss. CHR ''&'' \<notin> set s \<Longrightarrow> split_amp '''' (join ''&'' ss) = ss"
proof (induction "''&''" ss rule: join.induct)
  case (2 s)
  then show ?case using split_amp_word [of s "''''" "''''"] by simp
next
  case (3 s t ss)
  then show ?case by (simp add: split_amp_word)
qed simp

definition encode_pair :: "string \<times> string \<Rightarrow> string" where
  "encode_pair p = query_escape (fst p) @ ''='' @ query_escape (snd p)"

lemma decode_encode_pair [simp]: "decode_pair (encode_pair p) = p"
  using cut_append [OF query_escape_safe(2) [of "fst p"], of "query_escape (snd p)"]
  by (simp add: decode_pair_def encode_pair_def)

lemma encode_pair_safe: "CHR ''&'' \<notin> set (encode_pair p)" "encode_pair p \<noteq> ''''"
  by (simp_all add: encode_pair_def query_escape_safe)

definition sorted_values :: "url_values \<Rightarrow> url_values" where
  "sorted_values vs = foldr insert_key vs []"

lemma mset_insert_key: "mset (insert_key p vs) = add_mset p (mset vs)"
  by (induction vs) auto

lemma mset_sorted_values: "mset (sorted_values vs) = mset vs"
  unfolding sorted_values_def by (induction vs) (simp_all add: mset_insert_key)

lemma parse_encode: "parse_query (values_encode vs) = sorted_values vs"
proof (cases "sorted_values vs = []")
  case True
  then show ?thesis by (simp add: parse_query_def values_encode_def sorted_values_def)
next
  case False
  have "values_encode vs = join ''&'' (map encode_pair (sorted_values vs))"
    by (simp add: values_encode_def sorted_values_def split_def comp_def encode_pair_def [abs_def])
  moreover have "split_amp '''' (join ''&'' (map encode_pair (sorted_values vs))) = map encode_pair (sorted_values vs)"
    by (rule split_amp_join) (use False encode_pair_safe in auto)
  moreover have "filter (\<lambda>s. s \<noteq> '''') (map encode_pair xs) = map encode_pair xs" for xs
    by (rule filter_True) (auto simp: encode_pair_safe)
  ultimately show ?thesis by (simp add: parse_query_def o_def)
qed

lemma map_of_sorted_values: "go_map_wf vs \<Longrightarrow> map_of (sorted_values vs) = map_of vs"
proof -
  assume wf: "go_map_wf vs"
  have "mset (map fst (sorted_values vs)) = mset (map fst vs)" by (simp add: mset_sorted_values)
  then have "distinct (map fst (sorted_values vs))"
    using wf mset_eq_imp_distinct_iff by blast
  moreover have "set (sorted_values vs) = set vs" using mset_sorted_values [of vs] by (metis set_mset_mset)
  ultimately show ?thesis using wf by (metis map_of_inject_set)
qed

lemma parse_encode_lookup: "go_map_wf vs \<Longrightarrow> map_of (parse_query (values_encode vs)) = map_of vs"
  by (simp add: parse_encode map_of_sorted_values)

end
