(* ===== verification/Technitium_Zone.thy ===== *)
theory Technitium_Zone
  imports Technitium Url_Codec
begin

text \<open>
  The Technitium adapter against a server that keeps a zone. What the server does is the predicate
  \<open>technitium_serves\<close>, the documented API as far as the adapter uses it; at the end a server that does it
  is given, which reads the requests as they are sent. Proved here: \<open>Upsert\<close> brings the record into
  the zone, is idempotent and touches no record of another name or type; \<open>Delete\<close> removes exactly
  the records of the name, type and value; \<open>List\<close> returns the zone.
\<close>

section \<open>A server with a zone\<close>

definition technitium_get :: "'w tClient \<Rightarrow> url_values \<Rightarrow> http_request" where
  "technitium_get c params =
     \<lparr>rqMethod = ''GET'', rqURL = tcBaseURL c @ ''/api/zones/records/get'' @ ''?'' @ values_encode params,
      rqHeader = [], rqBody = None, rqGetBody = None, rqDeadline = None\<rparr>"

definition technitium_post :: "'w tClient \<Rightarrow> string \<Rightarrow> url_values \<Rightarrow> http_request" where
  "technitium_post c path params =
     \<lparr>rqMethod = ''POST'', rqURL = tcBaseURL c @ path,
      rqHeader = header_set ''Content-Type'' ''application/x-www-form-urlencoded'' [],
      rqBody = Some (values_encode params), rqGetBody = Some (Inr (values_encode params)), rqDeadline = None\<rparr>"

definition domain_params :: "'w tClient \<Rightarrow> string \<Rightarrow> url_values" where
  "domain_params c d = [(''domain'', d), (''zone'', tcZone c)]"

definition zone_params :: "'w tClient \<Rightarrow> url_values" where
  "zone_params c = [(''domain'', tcZone c), (''zone'', tcZone c), (''listZone'', ''true'')]"

text \<open>An answer with status \<open>ok\<close>, one that carries records, and the world after it.\<close>

definition answers_ok :: "technitium_lib \<Rightarrow> 'w tClient \<Rightarrow> http_request \<Rightarrow> 'w \<Rightarrow> 'w \<Rightarrow> bool" where
  "answers_ok lib c req w w1 \<longleftrightarrow>
     (\<exists>resp env. tcHttp c req w = (Inr resp, w1) \<and> tlEnvelope lib (respBody resp) = Inr env \<and> apStatus env = ''ok'')"

definition answers_records :: "technitium_lib \<Rightarrow> 'w tClient \<Rightarrow> http_request \<Rightarrow> 'w \<Rightarrow> zoneRecord list \<Rightarrow> 'w \<Rightarrow> bool" where
  "answers_records lib c req w recs w1 \<longleftrightarrow>
     (\<exists>resp env. tcHttp c req w = (Inr resp, w1) \<and> tlEnvelope lib (respBody resp) = Inr env \<and>
        apStatus env = ''ok'' \<and> tlRecords lib (apResponse env) = Inr recs)"

text \<open>The parameters of a write: one value per key, and the zone of the client.\<close>

definition write_params :: "'w tClient \<Rightarrow> url_values \<Rightarrow> bool" where
  "write_params c p \<longleftrightarrow> go_map_wf p \<and> param p ''zone'' = tcZone c"

text \<open>
  The server: a listing returns the records of a name, or of the zone, and changes nothing; an
  added record is new in its zone when it had none of the name and type; an update changes the picked records,
  a deletion removes them. Preferences fit into an \<open>int\<close>, or they would not have been decoded.
\<close>

definition technitium_serves :: "technitium_lib \<Rightarrow> 'w tClient \<Rightarrow> ('w \<Rightarrow> zoneRecord list) \<Rightarrow> bool" where
  "technitium_serves lib c zone \<longleftrightarrow>
     (\<forall>url. tlUrlErr lib url = None) \<and>
     (\<forall>w. \<forall>rec \<in> set (zone w). in_int64 (Preference (zrRData rec))) \<and>
     (\<forall>d w. \<exists>w1. answers_records lib c (technitium_get c (domain_params c d)) w
        (filter (\<lambda>rec. zrName rec = d) (zone w)) w1 \<and> zone w1 = zone w) \<and>
     (\<forall>w. \<exists>w1. answers_records lib c (technitium_get c (zone_params c)) w (zone w) w1 \<and> zone w1 = zone w) \<and>
     (\<forall>p w. write_params c p \<and>
        filter (\<lambda>rec. zrName rec = param p ''domain'' \<and> zrType rec = param p ''type'') (zone w) = [] \<longrightarrow>
        (\<exists>w1. answers_ok lib c (technitium_post c ''/api/zones/records/add'' p) w w1 \<and>
           zone w1 = zone w @ [added_record p])) \<and>
     (\<forall>p w. write_params c p \<longrightarrow>
        (\<exists>w1. answers_ok lib c (technitium_post c ''/api/zones/records/update'' p) w w1 \<and>
           zone w1 = map (\<lambda>rec. if picked p rec then updated_record p else rec) (zone w))) \<and>
     (\<forall>p w. write_params c p \<longrightarrow>
        (\<exists>w1. answers_ok lib c (technitium_post c ''/api/zones/records/delete'' p) w w1 \<and>
           zone w1 = filter (\<lambda>rec. \<not> picked p rec) (zone w)))"

lemma do_get:
  assumes "\<And>url. tlUrlErr lib url = None"
    "answers_records lib c (technitium_get c params) w recs w1"
  shows "decode_records lib (technitium_do lib c ''GET'' ''/api/zones/records/get'' params w) = (Inr recs, w1)"
  using assms
  by (auto simp: technitium_do_def new_request_def technitium_get_def answers_records_def client_Do_def decode_records_def)

lemma do_post:
  assumes "\<And>url. tlUrlErr lib url = None" "answers_ok lib c (technitium_post c path params) w w1"
  shows "do_error (technitium_do lib c ''POST'' path params w) = (None, w1)"
  using assms
  by (auto simp: technitium_do_def new_request_def technitium_post_def answers_ok_def client_Do_def do_error_def)

text \<open>The operations of the client on the zone.\<close>

lemma getRecords_serves:
  assumes "technitium_serves lib c zone"
  obtains w1 where "getRecords lib c d w = (Inr (filter (\<lambda>rec. zrName rec = d) (zone w)), w1)" "zone w1 = zone w"
proof -
  obtain w1 where "answers_records lib c (technitium_get c (domain_params c d)) w (filter (\<lambda>rec. zrName rec = d) (zone w)) w1"
    "zone w1 = zone w"
    using assms unfolding technitium_serves_def by meson
  with assms show ?thesis
    by (intro that [of w1]) (simp_all add: getRecords_def domain_params_def do_get technitium_serves_def)
qed

lemma listZoneRecords_serves:
  assumes "technitium_serves lib c zone"
  obtains w1 where "listZoneRecords lib c w = (Inr (zone w), w1)" "zone w1 = zone w"
proof -
  obtain w1 where "answers_records lib c (technitium_get c (zone_params c)) w (zone w) w1" "zone w1 = zone w"
    using assms unfolding technitium_serves_def by meson
  with assms show ?thesis
    by (intro that [of w1]) (simp_all add: listZoneRecords_def zone_params_def do_get technitium_serves_def)
qed

lemma writes_serve:
  assumes "technitium_serves lib c zone" "write_params c p"
  shows "filter (\<lambda>rec. zrName rec = param p ''domain'' \<and> zrType rec = param p ''type'') (zone w) = [] \<Longrightarrow>
      \<exists>w1. addRecord lib c p w = (None, w1) \<and> zone w1 = zone w @ [added_record p]"
    "\<exists>w1. updateRecord lib c p w = (None, w1) \<and>
       zone w1 = map (\<lambda>rec. if picked p rec then updated_record p else rec) (zone w)"
    "\<exists>w1. deleteRecord lib c p w = (None, w1) \<and> zone w1 = filter (\<lambda>rec. \<not> picked p rec) (zone w)"
proof -
  have u: "tlUrlErr lib url = None" for url using assms(1) by (simp add: technitium_serves_def)
  show "\<exists>w1. addRecord lib c p w = (None, w1) \<and> zone w1 = zone w @ [added_record p]"
    if "filter (\<lambda>rec. zrName rec = param p ''domain'' \<and> zrType rec = param p ''type'') (zone w) = []"
    using assms that do_post [OF u] unfolding technitium_serves_def addRecord_def by meson
  show "\<exists>w1. updateRecord lib c p w = (None, w1) \<and>
       zone w1 = map (\<lambda>rec. if picked p rec then updated_record p else rec) (zone w)"
    using assms do_post [OF u] unfolding technitium_serves_def updateRecord_def by meson
  show "\<exists>w1. deleteRecord lib c p w = (None, w1) \<and> zone w1 = filter (\<lambda>rec. \<not> picked p rec) (zone w)"
    using assms do_post [OF u] unfolding technitium_serves_def deleteRecord_def by meson
qed

lemma filterByType_eq: "filterByType recs t = filter (\<lambda>rec. zrType rec = t) recs"
  by (induction recs) auto

section \<open>The adapter on the zone\<close>

lemma base_params_wf: "go_map_wf (base_params zone r)"
  by (simp add: base_params_def Let_def)

lemma params_written:
  "write_params c (addParams (tcZone c) r)" "write_params c (updateParams (tcZone c) cur r)"
  "write_params c (deleteParams (tcZone c) r)"
  "param (addParams zone r) ''domain'' = Name r" "param (addParams zone r) ''type'' = Type r"
  by (auto simp: write_params_def base_params_wf technitium_params Let_def)

text \<open>The records at the place of \<open>r\<close>: of its name and type.\<close>

definition at_place :: "Record \<Rightarrow> zoneRecord \<Rightarrow> bool" where
  "at_place r rec \<longleftrightarrow> zrName rec = Name r \<and> zrType rec = Type r"

definition technitium_fits :: "Record \<Rightarrow> bool" where
  "technitium_fits r \<longleftrightarrow> supported (Type r) \<and> in_int64 (TTL r) \<and> in_int64 (Priority r)"

text \<open>The records a deletion of \<open>r\<close> is meant for.\<close>

definition deletes_record :: "Record \<Rightarrow> zoneRecord \<Rightarrow> bool" where
  "deletes_record r rec \<longleftrightarrow> at_place r rec \<and>
     (Type r = RecordTypeCNAME \<or> recordValue rec = Value r \<and> (Type r = RecordTypeMX \<longrightarrow> recordPriority rec = Priority r))"

lemma params_facts:
  assumes "technitium_fits r"
  shows "at_place r (added_record (addParams zone r))" "recordUpToDate (added_record (addParams zone r)) r"
    "at_place r cur \<Longrightarrow> in_int64 (Preference (zrRData cur)) \<Longrightarrow>
       picked (updateParams zone cur r) cur \<and> at_place r (updated_record (updateParams zone cur r)) \<and>
       recordUpToDate (updated_record (updateParams zone cur r)) r"
    "picked (deleteParams zone r) rec \<longleftrightarrow> deletes_record r rec"
proof -
  have a: "supported (Type r)" "in_int64 (TTL r)" "in_int64 (Priority r)"
    using assms by (simp_all add: technitium_fits_def)
  note rt = technitium_params_roundtrip [OF a, of zone]
  show "at_place r (added_record (addParams zone r))" "recordUpToDate (added_record (addParams zone r)) r"
    using rt by (simp_all add: at_place_def)
  show "picked (updateParams zone cur r) cur \<and> at_place r (updated_record (updateParams zone cur r)) \<and>
       recordUpToDate (updated_record (updateParams zone cur r)) r"
    if "at_place r cur" "in_int64 (Preference (zrRData cur))"
    using rt that by (simp add: at_place_def)
  show "picked (deleteParams zone r) rec \<longleftrightarrow> deletes_record r rec"
    using rt by (simp add: deletes_record_def at_place_def)
qed

lemma picked_update_place: "picked (updateParams zone cur r) rec \<Longrightarrow> at_place r rec"
  by (auto simp: picked_def at_place_def technitium_params Let_def split: if_splits)

lemma matches_eq:
  "filterByType (filter (\<lambda>rec. zrName rec = Name r) recs) (Type r) = filter (at_place r) recs"
  by (simp add: filterByType_eq at_place_def [abs_def] conj_commute)

lemma Upsert_on_zone:
  assumes serves: "technitium_serves lib (tuClient u) zone" and z: "tuZone u = tcZone (tuClient u)"
    and fits: "technitium_fits r"
  obtains w1 where "technitium_Upsert lib u r w = (None, w1)"
    "filter (\<lambda>rec. \<not> at_place r rec) (zone w1) = filter (\<lambda>rec. \<not> at_place r rec) (zone w)"
    "\<exists>cur rest. filter (at_place r) (zone w1) = cur # rest \<and> recordUpToDate cur r"
    "\<And>cur rest. filter (at_place r) (zone w) = cur # rest \<Longrightarrow> recordUpToDate cur r \<Longrightarrow> zone w1 = zone w"
    "length (filter (at_place r) (zone w1)) = max 1 (length (filter (at_place r) (zone w)))"
proof -
  note facts = params_facts [OF fits]
  have sup: "supported (Type r)" using fits by (simp add: technitium_fits_def)
  obtain w0 where w0: "getRecords lib (tuClient u) (Name r) w = (Inr (filter (\<lambda>rec. zrName rec = Name r) (zone w)), w0)"
    "zone w0 = zone w" using getRecords_serves [OF serves] by metis
  have up: "technitium_Upsert lib u r w =
      (case filter (at_place r) (zone w) of
         [] \<Rightarrow> addRecord lib (tuClient u) (addParams (tuZone u) r) w0
       | cur # _ \<Rightarrow> if recordUpToDate cur r then (None, w0)
           else updateRecord lib (tuClient u) (updateParams (tuZone u) cur r) w0)"
    by (simp add: technitium_Upsert_def sup w0(1) matches_eq)
  show ?thesis
  proof (cases "filter (at_place r) (zone w)")
    case Nil
    let ?p = "addParams (tuZone u) r"
    have "filter (\<lambda>rec. zrName rec = param ?p ''domain'' \<and> zrType rec = param ?p ''type'') (zone w0) = []"
      using Nil w0(2) by (simp add: params_written at_place_def [abs_def])
    then obtain w1 where w1: "addRecord lib (tuClient u) ?p w0 = (None, w1)" "zone w1 = zone w0 @ [added_record ?p]"
      using writes_serve(1) [OF serves params_written(1) [of "tuClient u" r, folded z]] by blast
    show ?thesis
      by (rule that [of w1]) (use up Nil w1 w0(2) facts(1,2) in simp_all)
  next
    case (Cons cur rest)
    show ?thesis
    proof (cases "recordUpToDate cur r")
      case True
      show ?thesis by (rule that [of w0]) (use up Cons True w0(2) in simp_all)
    next
      case False
      let ?p = "updateParams (tuZone u) cur r"
      obtain w1 where w1: "updateRecord lib (tuClient u) ?p w0 = (None, w1)"
        "zone w1 = map (\<lambda>rec. if picked ?p rec then updated_record ?p else rec) (zone w0)"
        using writes_serve(2) [OF serves params_written(2) [of "tuClient u" cur r, folded z]] by blast
      have cur: "at_place r cur" "cur \<in> set (zone w)"
        using Cons by (auto simp: filter_eq_Cons_iff)
      then have i: "in_int64 (Preference (zrRData cur))" using serves by (simp add: technitium_serves_def)
      note f = facts(3) [OF cur(1) i, of "tuZone u"]
      have place: "at_place r (if picked ?p rec then updated_record ?p else rec) \<longleftrightarrow> at_place r rec" for rec
        using f picked_update_place by auto
      have other: "\<not> at_place r rec \<Longrightarrow> \<not> picked ?p rec" for rec using picked_update_place by blast
      have "filter (\<lambda>rec. \<not> at_place r rec) (zone w1) = filter (\<lambda>rec. \<not> at_place r rec) (zone w)"
        unfolding w1(2) w0(2) filter_map by (simp add: comp_def place) (rule map_idI, use other in auto)
      moreover have "filter (at_place r) (zone w1) = map (\<lambda>rec. if picked ?p rec then updated_record ?p else rec) (cur # rest)"
        unfolding w1(2) w0(2) filter_map by (simp add: comp_def place Cons)
      ultimately show ?thesis
        using up Cons False w1(1) f by (intro that [of w1]) simp_all
    qed
  qed
qed

text \<open>
  Two values of one name and type, which sources may well ask for: the adapter has one place for both, so the
  second upsert overwrites the record of the first, and both calls succeed.
\<close>

lemma second_value_overwrites:
  assumes "technitium_serves lib (tuClient u) zone" "tuZone u = tcZone (tuClient u)"
    and fits: "technitium_fits r" "technitium_fits r'"
    and same: "Name r' = Name r" "Type r' = Type r" "Value r' \<noteq> Value r"
    and new: "filter (at_place r) (zone w) = []"
  shows "\<exists>w1 w2 rec. technitium_Upsert lib u r w = (None, w1) \<and> technitium_Upsert lib u r' w1 = (None, w2) \<and>
    filter (at_place r) (zone w2) = [rec] \<and> recordUpToDate rec r' \<and> \<not> recordUpToDate rec r"
proof -
  have place: "at_place r' = at_place r" by (simp add: at_place_def fun_eq_iff same)
  obtain w1 where w1: "technitium_Upsert lib u r w = (None, w1)" "length (filter (at_place r) (zone w1)) = 1"
    by (rule Upsert_on_zone [OF assms(1,2) fits(1), of w]) (use new in simp)
  obtain w2 rec rest where w2: "technitium_Upsert lib u r' w1 = (None, w2)" "length (filter (at_place r) (zone w2)) = 1"
    "filter (at_place r) (zone w2) = rec # rest" "recordUpToDate rec r'"
    by (rule Upsert_on_zone [OF assms(1,2) fits(2), of w1]) (use w1(2) place in auto)
  have "\<not> recordUpToDate rec r" using w2(4) same(3) by (auto simp: recordUpToDate_def same(2) split: if_splits)
  with w1 w2 show ?thesis by auto
qed

lemma Delete_on_zone:
  assumes serves: "technitium_serves lib (tuClient u) zone" and z: "tuZone u = tcZone (tuClient u)"
    and fits: "technitium_fits r"
  obtains w1 where "technitium_Delete lib u r w = (None, w1)"
    "zone w1 = filter (\<lambda>rec. \<not> deletes_record r rec) (zone w)"
proof -
  have sup: "supported (Type r)" using fits by (simp add: technitium_fits_def)
  obtain w0 where w0: "getRecords lib (tuClient u) (Name r) w = (Inr (filter (\<lambda>rec. zrName rec = Name r) (zone w)), w0)"
    "zone w0 = zone w" using getRecords_serves [OF serves] by metis
  have del: "technitium_Delete lib u r w = (if filter (at_place r) (zone w) = [] then (None, w0)
      else deleteRecord lib (tuClient u) (deleteParams (tuZone u) r) w0)"
    by (simp add: technitium_Delete_def sup w0(1) matches_eq)
  show ?thesis
  proof (cases "filter (at_place r) (zone w) = []")
    case True
    then have "filter (\<lambda>rec. \<not> deletes_record r rec) (zone w) = zone w"
      by (intro filter_True) (auto simp: filter_empty_conv deletes_record_def)
    with True del w0(2) show ?thesis by (intro that [of w0]) simp_all
  next
    case False
    obtain w1 where "deleteRecord lib (tuClient u) (deleteParams (tuZone u) r) w0 = (None, w1)"
      "zone w1 = filter (\<lambda>rec. \<not> picked (deleteParams (tuZone u) r) rec) (zone w0)"
      using writes_serve(3) [OF serves params_written(3) [of "tuClient u" r, folded z]] by blast
    with False del w0(2) params_facts(4) [OF fits] show ?thesis by (intro that [of w1]) simp_all
  qed
qed

lemma List_on_zone:
  assumes "technitium_serves lib (tuClient u) zone"
  obtains w1 where "technitium_List lib u w = (Inr (zone_records (tuName u) (zone w)), w1)" "zone w1 = zone w"
proof -
  obtain w1 where "listZoneRecords lib (tuClient u) w = (Inr (zone w), w1)" "zone w1 = zone w"
    using listZoneRecords_serves [OF assms] by metis
  then show ?thesis by (intro that [of w1]) (simp_all add: technitium_List_def)
qed


section \<open>A sample server\<close>

text \<open>
  The server reads the query of a GET and the body of a POST, as it gets them, and answers with the
  records in a text of their fields.
\<close>

definition enc_zr :: "zoneRecord \<Rightarrow> string" where
  "enc_zr rec = (let d = zrRData rec in enc_entries
     [zrName rec, zrType rec, itoa (zrTTL rec), IPAddress d, rdCNAME d, Text d, Exchange d, itoa (Preference d), NameServer d])"

definition dec_zr :: "string \<Rightarrow> zoneRecord" where
  "dec_zr s = (let f = dec_entries [] s in
     \<lparr>zrName = f ! 0, zrType = f ! 1, zrTTL = atoi_or 0 (f ! 2),
      zrRData = \<lparr>IPAddress = f ! 3, rdCNAME = f ! 4, Text = f ! 5, Exchange = f ! 6,
        Preference = atoi_or 0 (f ! 7), NameServer = f ! 8\<rparr>\<rparr>)"

definition sample_tc_lib :: technitium_lib where
  "sample_tc_lib = \<lparr>tlUrlErr = (\<lambda>s. None),
     tlEnvelope = (\<lambda>s. Inr \<lparr>apStatus = ''ok'', apErrorMessage = '''', apResponse = s\<rparr>),
     tlRecords = (\<lambda>s. Inr (map dec_zr (dec_entries [] s)))\<rparr>"

definition tc_answer :: "zoneRecord list \<Rightarrow> http_response" where
  "tc_answer recs = \<lparr>respStatus = 200, respHeader = [], respBody = enc_entries (map enc_zr recs)\<rparr>"

text \<open>Its zone: the records with their numbers as a client reads them.\<close>

definition sample_tc_zone :: "zoneRecord list \<Rightarrow> zoneRecord list" where
  "sample_tc_zone w = map (\<lambda>rec. dec_zr (enc_zr rec)) w"

definition sample_tc_net :: "zoneRecord list transport" where
  "sample_tc_net req w =
     (if rqMethod req = ''GET'' then
        (let p = parse_query (drop (length ''http://tc/api/zones/records/get?'') (rqURL req)) in
         (Inr (tc_answer (if param p ''listZone'' = ''true'' then w
            else filter (\<lambda>rec. zrName rec = param p ''domain'') w)), w))
      else
        (let p = parse_query (case rqBody req of Some b \<Rightarrow> b | None \<Rightarrow> ''''); z = sample_tc_zone w in
         (Inr (tc_answer []),
          if has_suffix (rqURL req) ''add'' then z @ [added_record p]
          else if has_suffix (rqURL req) ''update'' then map (\<lambda>rec. if picked p rec then updated_record p else rec) z
          else filter (\<lambda>rec. \<not> picked p rec) z)))"

definition sample_technitium :: "zoneRecord list technitium" where
  "sample_technitium = \<lparr>tuName = ''tc'', tuZone = ''lan'',
     tuClient = \<lparr>tcHttp = sample_tc_net, tcBaseURL = ''http://tc'', tcZone = ''lan''\<rparr>\<rparr>"

lemma in_int64_atoi_or: "in_int64 (atoi_or 0 s)"
  using atoi_in_int64 [of s] by (auto simp: atoi_or_def in_int64_def min_int64_def max_int64_def)

lemma dec_enc_zr: "in_int64 (zrTTL rec) \<Longrightarrow> in_int64 (Preference (zrRData rec)) \<Longrightarrow> dec_zr (enc_zr rec) = rec"
  by (cases rec; cases "zrRData rec") (simp add: dec_zr_def enc_zr_def Let_def num_param_itoa del: enc_entries.simps dec_entries.simps)

lemma dec_enc_int64: "in_int64 (zrTTL (dec_zr s))" "in_int64 (Preference (zrRData (dec_zr s)))"
  by (simp_all add: dec_zr_def Let_def in_int64_atoi_or)

lemma param_parse: "go_map_wf p \<Longrightarrow> param (parse_query (values_encode p)) = param p"
  by (simp add: fun_eq_iff param_def go_get_def parse_encode_lookup)

lemma params_parse:
  assumes "go_map_wf p"
  shows "added_record (parse_query (values_encode p)) = added_record p"
    "updated_record (parse_query (values_encode p)) = updated_record p"
    "picked (parse_query (values_encode p)) = picked p"
  using param_parse [OF assms] by (simp_all add: added_record_def updated_record_def picked_def [abs_def] num_param_def)

lemma sample_tc_zone_id: "(\<And>rec. rec \<in> set w \<Longrightarrow> in_int64 (zrTTL rec) \<and> in_int64 (Preference (zrRData rec))) \<Longrightarrow>
    sample_tc_zone w = w"
  unfolding sample_tc_zone_def by (rule map_idI) (simp add: dec_enc_zr)

lemma written_int64:
  "in_int64 (zrTTL (added_record p)) \<and> in_int64 (Preference (zrRData (added_record p)))"
  "in_int64 (zrTTL (updated_record p)) \<and> in_int64 (Preference (zrRData (updated_record p)))"
  by (simp_all add: added_record_def updated_record_def num_param_def in_int64_atoi_or)

lemma sample_tc_zone_int64: "rec \<in> set (sample_tc_zone w) \<Longrightarrow> in_int64 (zrTTL rec) \<and> in_int64 (Preference (zrRData rec))"
  by (auto simp: sample_tc_zone_def dec_enc_int64)

lemma sample_tc_get:
  assumes "go_map_wf p"
  shows "sample_tc_net (technitium_get (tuClient sample_technitium) p) w =
    (Inr (tc_answer (if param p ''listZone'' = ''true'' then w else filter (\<lambda>rec. zrName rec = param p ''domain'') w)), w)"
proof -
  have d: "drop (length ''http://tc/api/zones/records/get?'') (''http://tc'' @ ''/api/zones/records/get'' @ ''?'' @ q) = q" for q :: string
    by simp
  show ?thesis
    by (simp only: technitium_get_def sample_tc_net_def http_request.simps sample_technitium_def technitium.simps tClient.simps
        d param_parse [OF assms] Let_def simp_thms if_True)
qed

lemma sample_tc_answers:
  "answers_records sample_tc_lib c req w (sample_tc_zone recs) w1 \<longleftrightarrow>
     (\<exists>resp. tcHttp c req w = (Inr resp, w1) \<and> map dec_zr (dec_entries [] (respBody resp)) = sample_tc_zone recs)"
  "answers_ok sample_tc_lib c req w w1 \<longleftrightarrow> (\<exists>resp. tcHttp c req w = (Inr resp, w1))"
  by (simp_all add: answers_records_def answers_ok_def sample_tc_lib_def)

lemma sample_tc_post:
  assumes "go_map_wf p"
  shows "\<exists>resp. sample_tc_net (technitium_post (tuClient sample_technitium) ''/api/zones/records/add'' p) w
      = (Inr resp, sample_tc_zone w @ [added_record p])"
    "\<exists>resp. sample_tc_net (technitium_post (tuClient sample_technitium) ''/api/zones/records/update'' p) w
      = (Inr resp, map (\<lambda>rec. if picked p rec then updated_record p else rec) (sample_tc_zone w))"
    "\<exists>resp. sample_tc_net (technitium_post (tuClient sample_technitium) ''/api/zones/records/delete'' p) w
      = (Inr resp, filter (\<lambda>rec. \<not> picked p rec) (sample_tc_zone w))"
  by (simp_all add: technitium_post_def sample_tc_net_def sample_technitium_def params_parse [OF assms] Let_def has_suffix_def)

lemma sample_technitium_serves: "technitium_serves sample_tc_lib (tuClient sample_technitium) sample_tc_zone"
proof -
  have http: "tcHttp (tuClient sample_technitium) = sample_tc_net" by (simp add: sample_technitium_def)
  have z: "map dec_zr (dec_entries [] (respBody (tc_answer recs))) = sample_tc_zone recs" for recs
    by (simp add: tc_answer_def sample_tc_zone_def comp_def del: enc_entries.simps dec_entries.simps)
  have f: "filter (\<lambda>rec. zrName rec = d) (sample_tc_zone w) = sample_tc_zone (filter (\<lambda>rec. zrName rec = d) w)" for d w
  proof -
    have "zrName (dec_zr (enc_zr rec)) = zrName rec" for rec
      by (simp add: dec_zr_def enc_zr_def Let_def del: enc_entries.simps dec_entries.simps)
    then show ?thesis by (simp add: sample_tc_zone_def filter_map comp_def)
  qed
  have i: "sample_tc_zone (sample_tc_zone w @ [added_record p]) = sample_tc_zone w @ [added_record p]"
    "sample_tc_zone (map (\<lambda>rec. if picked p rec then updated_record p else rec) (sample_tc_zone w)) =
       map (\<lambda>rec. if picked p rec then updated_record p else rec) (sample_tc_zone w)"
    "sample_tc_zone (filter (\<lambda>rec. \<not> picked p rec) (sample_tc_zone w)) = filter (\<lambda>rec. \<not> picked p rec) (sample_tc_zone w)" for p w
    by (rule sample_tc_zone_id; use written_int64 sample_tc_zone_int64 in \<open>auto split: if_splits\<close>)+
  show ?thesis
    unfolding technitium_serves_def
  proof (intro conjI allI ballI impI)
    show "tlUrlErr sample_tc_lib url = None" for url by (simp add: sample_tc_lib_def)
    show "in_int64 (Preference (zrRData rec))" if "rec \<in> set (sample_tc_zone w)" for rec w
      using sample_tc_zone_int64 [OF that] by blast
    show "\<exists>w1. answers_records sample_tc_lib (tuClient sample_technitium)
        (technitium_get (tuClient sample_technitium) (domain_params (tuClient sample_technitium) d)) w
        (filter (\<lambda>rec. zrName rec = d) (sample_tc_zone w)) w1 \<and> sample_tc_zone w1 = sample_tc_zone w" for d w
      by (rule exI [of _ w])
        (simp add: f sample_tc_answers http sample_tc_get z domain_params_def param_def go_get_def
          del: enc_entries.simps dec_entries.simps)
    show "\<exists>w1. answers_records sample_tc_lib (tuClient sample_technitium)
        (technitium_get (tuClient sample_technitium) (zone_params (tuClient sample_technitium))) w
        (sample_tc_zone w) w1 \<and> sample_tc_zone w1 = sample_tc_zone w" for w
      by (rule exI [of _ w])
        (simp add: sample_tc_answers http sample_tc_get z zone_params_def param_def go_get_def
          del: enc_entries.simps dec_entries.simps)
    fix p w
    assume "write_params (tuClient sample_technitium) p"
    then have wf: "go_map_wf p" by (simp add: write_params_def)
    note post = sample_tc_post [OF wf, of w]
    show "\<exists>w1. answers_ok sample_tc_lib (tuClient sample_technitium)
        (technitium_post (tuClient sample_technitium) ''/api/zones/records/update'' p) w w1 \<and>
        sample_tc_zone w1 = map (\<lambda>rec. if picked p rec then updated_record p else rec) (sample_tc_zone w)"
      using post(2) i(2) by (auto simp: sample_tc_answers(2) http)
    show "\<exists>w1. answers_ok sample_tc_lib (tuClient sample_technitium)
        (technitium_post (tuClient sample_technitium) ''/api/zones/records/delete'' p) w w1 \<and>
        sample_tc_zone w1 = filter (\<lambda>rec. \<not> picked p rec) (sample_tc_zone w)"
      using post(3) i(3) by (auto simp: sample_tc_answers(2) http)
  next
    fix p w
    assume "write_params (tuClient sample_technitium) p \<and>
      filter (\<lambda>rec. zrName rec = param p ''domain'' \<and> zrType rec = param p ''type'') (sample_tc_zone w) = []"
    then have wf: "go_map_wf p" by (simp add: write_params_def)
    show "\<exists>w1. answers_ok sample_tc_lib (tuClient sample_technitium)
        (technitium_post (tuClient sample_technitium) ''/api/zones/records/add'' p) w w1 \<and>
        sample_tc_zone w1 = sample_tc_zone w @ [added_record p]"
      using sample_tc_post(1) [OF wf, of w] i(1) by (auto simp: sample_tc_answers(2) http)
  qed
qed


end
