(* ===== verification/Delivery.thy ===== *)
theory Delivery
  imports Reconcile Pihole Technitium_Zone
begin

text \<open>
  From the sources to the providers: what a whole pass does to the servers behind the adapters. The
  workers of a pass run in some order, so the world after it is a fold of single calls
  (\<open>Apply_world\<close>). What the calls promise is the locale \<open>providers\<close>: an upsert shows the record, a
  deletion hides it, and records of another slot stay as they are. It is interpreted on the Pi-hole
  and the Technitium adapter together, over servers that keep their lists. Proved here: after a pass
  every desired record is on its server and every other recorded one is not, whatever the order of the
  workers; and what goes wrong when a removed and a new record share a slot.
\<close>

section \<open>A pass as a sequence of calls\<close>

lemma run_pool_fold:
  "\<exists>ts. mset ts = mset tasks \<and>
     snd (run_pool f k choices tasks res w) = fold (\<lambda>t w. snd (f (snd t) w)) ts w"
proof (induction "length tasks" arbitrary: tasks choices res w)
  case 0
  then show ?case by simp
next
  case (Suc n)
  then obtain t ts where t: "tasks = t # ts" by (cases tasks) auto
  obtain c where c: "c < length tasks"
    and r: "run_pool f k choices tasks res w
      = run_pool f k (tl choices) (take c tasks @ drop (Suc c) tasks)
          (res[fst (tasks ! c) := fst (f (snd (tasks ! c)) w)]) (snd (f (snd (tasks ! c)) w))"
    using run_pool_step [where f = f and k = k and t = t and ts = ts and w = w] t by metis
  let ?rest = "take c tasks @ drop (Suc c) tasks"
  have m: "mset tasks = add_mset (tasks ! c) (mset ?rest)" using c by (rule drop_nth_mset)
  have "n = length ?rest" using Suc(2) c by simp
  from Suc(1) [OF this] obtain us where us: "mset us = mset ?rest"
    "snd (run_pool f k choices tasks res w) = fold (\<lambda>t w. snd (f (snd t) w)) us (snd (f (snd (tasks ! c)) w))"
    unfolding r by blast
  show ?case
    by (rule exI [of _ "tasks ! c # us"]) (simp add: us m)
qed

text \<open>The call of one operation filed under an upstream, and its effect on the world.\<close>

definition call_world ::
  "('s, 'w) executor \<Rightarrow> (string, Record) go_map \<Rightarrow> string \<times> Op \<Rightarrow> 'w \<Rightarrow> 'w" where
  "call_world ex rec c w =
     (case map_of (exUpstreams ex) (fst c) of None \<Rightarrow> w | Some u \<Rightarrow> snd (worker (exEnv ex) u rec (snd c) w))"

definition group_calls :: "(string, int) go_map \<Rightarrow> int \<Rightarrow> (string \<times> Op list) list \<Rightarrow> (string \<times> Op) list" where
  "group_calls nr now gs = concat (map (\<lambda>(n, os). map (Pair n) (filter (attempted nr now) os)) gs)"

lemma applyUpstream_fold:
  "\<exists>os. mset os = mset (filter (attempted nr now) ops) \<and>
     snd (applyUpstream ex choices u ops rec now nr w) = fold (\<lambda>op w. snd (worker (exEnv ex) u rec op w)) os w"
proof -
  let ?tasks = "filter (\<lambda>(i, op). Kind op \<noteq> OpNoop \<and> \<not> gated nr now op) (enumerate 0 ops)"
  obtain ts where ts: "mset ts = mset ?tasks"
    "snd (applyUpstream ex choices u ops rec now nr w) = fold (\<lambda>t w. snd (worker (exEnv ex) u rec (snd t) w)) ts w"
    using run_pool_fold [of ?tasks "worker (exEnv ex) u rec" "exMaxConc ex" choices "replicate (length ops) skip_result" w]
    by (elim exE conjE) (rule that, assumption, simp only: applyUpstream_def Let_def)
  have m: "map snd (filter (\<lambda>(i, op). P op) (enumerate n xs)) = filter P xs" for P n and xs :: "Op list"
    by (induction xs arbitrary: n) auto
  have f: "map snd ?tasks = filter (attempted nr now) ops"
    unfolding attempted_def [abs_def] by (rule m)
  have "mset (map snd ts) = mset (map snd ?tasks)" by (simp only: mset_map ts(1))
  then have "mset (map snd ts) = mset (filter (attempted nr now) ops)" by (simp only: f)
  with ts(2) show ?thesis by (intro exI [of _ "map snd ts"]) (simp add: fold_map comp_def)
qed

lemma apply_group_fold:
  "\<exists>cs. mset cs = mset (group_calls (xsNextRetry st) now [(n, os)]) \<and>
     xsWorld (apply_group ex sched rec now n os st) = fold (call_world ex rec) cs (xsWorld st)"
proof (cases "map_of (exUpstreams ex) n")
  case None
  have "fold (call_world ex rec) (map (Pair n) xs) w = w" for xs w
    by (induction xs) (simp_all add: call_world_def None)
  with None show ?thesis
    by (intro exI [of _ "group_calls (xsNextRetry st) now [(n, os)]"]) (simp add: apply_group_def group_calls_def)
next
  case (Some u)
  obtain xs where xs: "mset xs = mset (filter (attempted (xsNextRetry st) now) os)"
    "snd (applyUpstream ex (sched n) u os rec now (xsNextRetry st) (xsWorld st))
       = fold (\<lambda>op w. snd (worker (exEnv ex) u rec op w)) xs (xsWorld st)"
    using applyUpstream_fold [of "xsNextRetry st" now os ex "sched n" u rec "xsWorld st"]
    by (elim exE conjE) (rule that)
  have "fold (call_world ex rec) (map (Pair n) xs) w = fold (\<lambda>op w. snd (worker (exEnv ex) u rec op w)) xs w" for w
    by (induction xs arbitrary: w) (simp_all add: call_world_def Some)
  moreover have "mset (map (Pair n) xs) = mset (group_calls (xsNextRetry st) now [(n, os)])"
    by (simp add: group_calls_def xs(1) del: mset_filter)
  ultimately show ?thesis
    using xs(2) by (intro exI [of _ "map (Pair n) xs"]) (simp add: apply_group_def Some Let_def split_def)
qed

lemma attempted_cong: "map_of nr (op_key op) = map_of nr' (op_key op) \<Longrightarrow> attempted nr now op = attempted nr' now op"
  by (simp add: attempted_iff)

lemma group_calls_cong:
  "(\<And>k. k \<in> op_key ` set (plan_ops gs) \<Longrightarrow> map_of nr k = map_of nr' k) \<Longrightarrow> group_calls nr now gs = group_calls nr' now gs"
proof (induction gs)
  case (Cons g gs)
  obtain n os where g: "g = (n, os)" by (cases g)
  have "filter (attempted nr now) os = filter (attempted nr' now) os"
    using Cons.prems by (intro filter_cong refl attempted_cong) (simp add: g plan_ops_def)
  moreover have "group_calls nr now gs = group_calls nr' now gs"
    by (rule Cons.IH) (rule Cons.prems, auto simp: g plan_ops_def)
  ultimately show ?case by (simp add: g group_calls_def)
qed (simp add: group_calls_def)

text \<open>The world after a pass: every attempted operation is called once, in some order.\<close>

context record_store
begin

lemma apply_groups_fold:
  assumes "exOps ex = ops" "inv (xsStore st)" "distinct (map op_key (plan_ops gs))"
  shows "\<exists>cs. mset cs = mset (group_calls (xsNextRetry st) now gs) \<and>
    xsWorld (apply_groups ex sched rec now gs st) = fold (call_world ex rec) cs (xsWorld st)"
  using assms(2,3)
proof (induction gs arbitrary: st)
  case Nil
  then show ?case by (simp add: group_calls_def)
next
  case (Cons g gs)
  obtain n os where g: "g = (n, os)" by (cases g)
  let ?st1 = "apply_group ex sched rec now n os st"
  have "plan_ops (g # gs) = os @ plan_ops gs" by (simp add: plan_ops_def g)
  then have d: "distinct (map op_key os)" "distinct (map op_key (plan_ops gs))"
    and disj: "op_key ` set os \<inter> op_key ` set (plan_ops gs) = {}"
    using Cons.prems(2) by auto
  note e = group_effect [OF assms(1) Cons.prems(1) d(1), where sched = sched and rec = rec and now = now and name = n]
  obtain cs1 where cs1: "mset cs1 = mset (group_calls (xsNextRetry st) now [(n, os)])"
    "xsWorld ?st1 = fold (call_world ex rec) cs1 (xsWorld st)"
    using apply_group_fold by blast
  have "group_calls (xsNextRetry ?st1) now gs = group_calls (xsNextRetry st) now gs"
    using e disj by (intro group_calls_cong) blast
  with Cons.IH [OF conjunct1 [OF e] d(2)] obtain cs2 where cs2: "mset cs2 = mset (group_calls (xsNextRetry st) now gs)"
    "xsWorld (apply_groups ex sched rec now gs ?st1) = fold (call_world ex rec) cs2 (xsWorld ?st1)"
    by metis
  show ?case
    by (rule exI [of _ "cs1 @ cs2"]) (simp add: cs1 cs2 g apply_groups_Cons group_calls_def)
qed

lemma Apply_fold:
  assumes "exOps ex = ops" "inv (xsStore st)" "go_map_wf plan" "distinct (map op_key (plan_ops plan))"
  shows "\<exists>cs. set cs = set (group_calls (xsNextRetry st) (envNow (exEnv ex) (xsWorld st)) plan) \<and>
    xsWorld (Apply ex sched it plan recorded st) = fold (call_world ex (go_index RecordKey recorded)) cs (xsWorld st)"
proof -
  have d: "distinct (map op_key (plan_ops (iterate it plan)))"
    by (metis assms(4) mset_map mset_eq_imp_distinct_iff plan_ops_mset_iterate)
  have s: "set (group_calls nr now (iterate it plan)) = set (group_calls nr now plan)" for nr now
    by (simp add: group_calls_def)
  have plan: "\<exists>cs. set cs = set (group_calls (xsNextRetry st) (envNow (exEnv ex) (xsWorld st)) plan) \<and>
      xsWorld (apply_plan ex sched it plan recorded st) = fold (call_world ex (go_index RecordKey recorded)) cs (xsWorld st)"
    if i: "inv (xsStore st)" for st
    using apply_groups_fold [OF assms(1) i d, of "envNow (exEnv ex) (xsWorld st)" sched "go_index RecordKey recorded"]
    unfolding apply_plan_def by (elim exE conjE) (metis s set_mset_mset)
  show ?thesis
  proof (cases "stBatch ops")
    case None
    then show ?thesis using plan [OF assms(2)] by (simp add: Apply_def assms(1))
  next
    case (Some b)
    have "inv (snd (fst b (xsStore st)))" using batch_begin [OF assms(2) Some] by simp
    with plan [of "\<lparr>xsStore = snd (fst b (xsStore st)), xsNextRetry = xsNextRetry st, xsWorld = xsWorld st\<rparr>"]
    show ?thesis by (simp add: Apply_def assms(1) Some run_batch_def split_def Let_def)
  qed
qed

end

lemma mem_group_calls:
  "go_map_wf plan \<Longrightarrow> (n, op) \<in> set (group_calls nr now plan) \<longleftrightarrow> op \<in> set (go_get [] plan n) \<and> attempted nr now op"
  by (auto simp: group_calls_def go_get_def split: option.splits dest: map_of_SomeD)

section \<open>What a provider promises\<close>

text \<open>
  The contract of the configured upstreams, on one world: \<open>fits r\<close>, the server can hold \<open>r\<close>; \<open>slot\<close>,
  the place \<open>r\<close> takes on its server; \<open>shown w r\<close>, the server has \<open>r\<close> as it is desired.
\<close>

locale providers =
  fixes ups :: "(string, 'w upstream) go_map" and fits :: "Record \<Rightarrow> bool" and slot :: "Record \<Rightarrow> 'slot"
    and shown :: "'w \<Rightarrow> Record \<Rightarrow> bool"
  assumes upsert_shows: "map_of ups (Upstream r) = Some u \<Longrightarrow> fits r \<Longrightarrow>
      \<exists>w1. upUpsert u r w = (Returned None, w1) \<and> shown w1 r \<and>
        (\<forall>r'. fits r' \<and> slot r' \<noteq> slot r \<longrightarrow> shown w1 r' = shown w r')"
    and delete_hides: "map_of ups (Upstream r) = Some u \<Longrightarrow> fits r \<Longrightarrow>
      \<exists>w1. upDelete u r w = (Returned None, w1) \<and> \<not> shown w1 r \<and>
        (\<forall>r'. fits r' \<longrightarrow> (shown w1 r' \<longrightarrow> shown w r') \<and> (slot r' \<noteq> slot r \<longrightarrow> shown w1 r' = shown w r'))"
    and same_content: "appliedEqual r r' \<Longrightarrow> Upstream r = Upstream r' \<Longrightarrow>
      fits r = fits r' \<and> slot r = slot r' \<and> shown w r = shown w r'"
begin

lemma fits_accepted: "fits r \<Longrightarrow> map_of ups (Upstream r) = Some u \<Longrightarrow> accepts_record u r"
  unfolding accepts_record_def using upsert_shows delete_hides by (metis fst_conv)

lemma same_failures: "fits (r\<lparr>Failures := n\<rparr>) = fits r" "slot (r\<lparr>Failures := n\<rparr>) = slot r" "shown w (r\<lparr>Failures := n\<rparr>) = shown w r"
  using same_content [of "r\<lparr>Failures := n\<rparr>" r] by (simp_all add: appliedEqual_def)

text \<open>A call of the plan: filed under its upstream, which can hold the record.\<close>

definition proper :: "string \<times> Op \<Rightarrow> bool" where
  "proper c \<longleftrightarrow> fst c = Upstream (opRecord (snd c)) \<and> Kind (snd c) \<noteq> OpNoop \<and>
     (map_of ups (fst c) \<noteq> None \<longrightarrow> fits (opRecord (snd c)))"

lemma call_other:
  assumes "exUpstreams ex = ups" "proper c" "fits r" "slot r \<noteq> slot (opRecord (snd c))"
  shows "shown (call_world ex rec c w) r = shown w r"
proof (cases "map_of ups (fst c)")
  case None
  then show ?thesis by (simp add: call_world_def assms(1))
next
  case (Some u)
  let ?r = "opRecord (snd c)"
  have u: "map_of ups (Upstream ?r) = Some u" "fits ?r" using assms(2) Some by (auto simp: proper_def)
  show ?thesis
  proof (cases "Kind (snd c) = OpDelete")
    case True
    obtain w1 where "upDelete u ?r w = (Returned None, w1)" "shown w1 r = shown w r"
      using delete_hides [OF u, of w] assms(3,4) by blast
    with True Some show ?thesis by (simp add: call_world_def assms(1) worker_world)
  next
    case False
    let ?s = "?r\<lparr>Failures := Failures (go_get zero_record rec (op_key (snd c)))\<rparr>"
    obtain w1 where "upUpsert u ?s w = (Returned None, w1)" "shown w1 r = shown w r"
      using upsert_shows [of ?s u w] u assms(3,4) by (auto simp: same_failures)
    with False Some assms(2) show ?thesis
      by (cases "Kind (snd c)") (simp_all add: call_world_def assms(1) worker_world proper_def)
  qed
qed

lemma call_upsert:
  assumes "exUpstreams ex = ups" "proper c" "map_of ups (fst c) \<noteq> None" "Kind (snd c) \<noteq> OpDelete"
  shows "shown (call_world ex rec c w) (opRecord (snd c))"
proof -
  let ?r = "opRecord (snd c)" and ?s = "(opRecord (snd c))\<lparr>Failures := Failures (go_get zero_record rec (op_key (snd c)))\<rparr>"
  obtain u where u: "map_of ups (fst c) = Some u" "map_of ups (Upstream ?r) = Some u" "fits ?r"
    using assms(2,3) by (auto simp: proper_def)
  obtain w1 where "upUpsert u ?s w = (Returned None, w1)" "shown w1 ?r"
    using upsert_shows [of ?s u w] u by (auto simp: same_failures)
  with u(1) assms(2,4) show ?thesis
    by (cases "Kind (snd c)") (simp_all add: call_world_def assms(1) worker_world proper_def)
qed

lemma call_delete:
  assumes "exUpstreams ex = ups" "proper c" "map_of ups (fst c) \<noteq> None" "Kind (snd c) = OpDelete"
  shows "\<not> shown (call_world ex rec c w) (opRecord (snd c))"
    "fits r \<Longrightarrow> shown (call_world ex rec c w) r \<Longrightarrow> shown w r"
proof -
  let ?r = "opRecord (snd c)"
  obtain u where u: "map_of ups (fst c) = Some u" "map_of ups (Upstream ?r) = Some u" "fits ?r"
    using assms(2,3) by (auto simp: proper_def)
  obtain w1 where w1: "upDelete u ?r w = (Returned None, w1)" "\<not> shown w1 ?r" "\<And>r. fits r \<Longrightarrow> shown w1 r \<Longrightarrow> shown w r"
    using delete_hides [OF u(2,3), of w] by blast
  have "call_world ex rec c w = w1" using u(1) w1(1) assms(4) by (simp add: call_world_def assms(1) worker_world)
  with w1 show "\<not> shown (call_world ex rec c w) ?r" "fits r \<Longrightarrow> shown (call_world ex rec c w) r \<Longrightarrow> shown w r"
    by simp_all
qed

text \<open>Sequences of calls, in whatever order the workers make them.\<close>

lemma calls_other:
  assumes "exUpstreams ex = ups" "fits r" "\<forall>c \<in> set cs. proper c \<and> slot r \<noteq> slot (opRecord (snd c))"
  shows "shown (fold (call_world ex rec) cs w) r = shown w r"
  using assms(3) by (induction cs arbitrary: w) (simp_all add: call_other [OF assms(1) _ assms(2)])

lemma calls_show:
  assumes "exUpstreams ex = ups" "fits r" "map_of ups (Upstream r) \<noteq> None" "c \<in> set cs" "opRecord (snd c) = r"
    "\<forall>c \<in> set cs. proper c \<and> (slot r = slot (opRecord (snd c)) \<longrightarrow> opRecord (snd c) = r \<and> Kind (snd c) \<noteq> OpDelete)"
  shows "shown (fold (call_world ex rec) cs w) r"
  using assms(4,6)
proof (induction cs rule: rev_induct)
  case (snoc d cs)
  let ?w = "fold (call_world ex rec) cs w"
  show ?case
  proof (cases "slot r = slot (opRecord (snd d))")
    case True
    then have "opRecord (snd d) = r" "Kind (snd d) \<noteq> OpDelete" "proper d" using snoc.prems(2) by auto
    with call_upsert [OF assms(1), of d rec ?w] assms(3) show ?thesis by (simp add: proper_def)
  next
    case False
    then have "c \<in> set cs" using snoc.prems(1) assms(5) by auto
    with snoc have "shown ?w r" by simp
    with call_other [OF assms(1) _ assms(2) False, of rec ?w] snoc.prems(2) show ?thesis by simp
  qed
qed simp

lemma calls_hide:
  assumes "exUpstreams ex = ups" "fits r" "map_of ups (Upstream r) \<noteq> None" "c \<in> set cs" "opRecord (snd c) = r"
    "Kind (snd c) = OpDelete"
    "\<forall>c \<in> set cs. proper c \<and> (slot r = slot (opRecord (snd c)) \<longrightarrow> Kind (snd c) = OpDelete)"
  shows "\<not> shown (fold (call_world ex rec) cs w) r"
  using assms(4,7)
proof (induction cs rule: rev_induct)
  case (snoc d cs)
  let ?w = "fold (call_world ex rec) cs w"
  have p: "proper d" using snoc.prems(2) by simp
  show ?case
  proof (cases "d = c")
    case True
    with call_delete(1) [OF assms(1) p, of rec ?w] assms(3,5,6) p show ?thesis by (simp add: proper_def)
  next
    case False
    then have ih: "\<not> shown ?w r" using snoc by simp
    show ?thesis
    proof (cases "slot r = slot (opRecord (snd d)) \<and> map_of ups (fst d) \<noteq> None")
      case True
      with call_delete(2) [OF assms(1) p _ _ assms(2), of rec ?w] snoc.prems(2) ih show ?thesis by auto
    next
      case False
      then have "shown (call_world ex rec d ?w) r = shown ?w r"
        using call_other [OF assms(1) p assms(2), of rec ?w] by (auto simp: call_world_def assms(1))
      with ih show ?thesis by simp
    qed
  qed
qed simp

end

section \<open>A pass over the providers\<close>

text \<open>Sources whose reading leaves what the servers show as it is.\<close>

definition quiet :: "('w \<Rightarrow> Record \<Rightarrow> bool) \<Rightarrow> 'w snapshotter list \<Rightarrow> bool" where
  "quiet shown srcs \<longleftrightarrow> (\<forall>s \<in> set srcs. \<forall>w r. shown (snd (snapSnapshot s w)) r = shown w r)"

lemma collect_quiet:
  assumes "quiet shown srcs"
  shows "shown (snd (snd (collect_sources srcs d sn lg w))) r = shown w r"
  using assms
proof (induction srcs arbitrary: d sn lg w)
  case (Cons src srcs)
  obtain res w1 where s: "snapSnapshot src w = (res, w1)" by (cases "snapSnapshot src w")
  then have "shown w1 r = shown w r" using Cons.prems by (auto simp: quiet_def dest: spec [of _ w])
  moreover have "quiet shown srcs" using Cons.prems by (simp add: quiet_def)
  ultimately show ?case using Cons.IH s by (auto split: outcome.splits sum.splits)
qed simp

text \<open>
  Desired records of different keys take different slots, and none takes the slot of a recorded one
  that is to be removed.
\<close>

definition slots_apart :: "(Record \<Rightarrow> 'slot) \<Rightarrow> (string \<Rightarrow> Record option) \<Rightarrow> (string \<Rightarrow> Record option) \<Rightarrow> bool" where
  "slots_apart slot des rec \<longleftrightarrow>
     (\<forall>k k' want r. des k = Some want \<and> k' \<noteq> k \<and> (des k' = Some r \<or> des k' = None \<and> rec k' = Some r) \<longrightarrow> slot want \<noteq> slot r)"

text \<open>Every recorded record that has not failed is on its server.\<close>

definition in_step :: "('w \<Rightarrow> Record \<Rightarrow> bool) \<Rightarrow> (file_store, 'w) rec_state \<Rightarrow> bool" where
  "in_step shown st \<longleftrightarrow> (\<forall>k r. store_entry st k = Some r \<and> Status r \<noteq> RecordStatusFailed \<longrightarrow> shown (rsWorld st) r)"

lemma desired_op_unverified_kind:
  assumes "Fetched ver = []"
  shows "Kind (desired_op idx ver rec k want) \<noteq> OpDelete"
    "Kind (desired_op idx ver rec k want) = OpNoop \<longleftrightarrow>
       (\<exists>have. map_of rec k = Some have \<and> Status have \<noteq> RecordStatusFailed \<and> appliedEqual want have)"
  using assms by (auto simp: desired_op_unverified split: option.splits)

context providers
begin

lemma pass_serves:
  fixes enc :: "(string, Record) go_map \<Rightarrow> error + string"
  defines "des \<equiv> \<lambda>srcs content. map_of (go_index RecordKey (concat (map content srcs)))"
  assumes rc: "rc = NewReconciler (file_ops enc) srcs ups [] interval debounce maxConc env sleep"
    and keyed: "keyed (fsRecords (rsStore st))"
    and ctx: "\<not> envCtxErr env (rsWorld st)"
    and gates: "rsNextRetry st = []"
    and reads: "\<forall>s \<in> set srcs. reads_as s (content s)"
    and quiet: "quiet shown srcs"
    and desired: "\<forall>r \<in> set (concat (map content srcs)). map_of ups (Upstream r) \<noteq> None \<and> fits r"
    and stored: "\<And>k r. store_entry st k = Some r \<Longrightarrow> map_of ups (Upstream r) \<noteq> None \<Longrightarrow> fits r"
    and same_up: "\<And>k want r. des srcs content k = Some want \<Longrightarrow> store_entry st k = Some r \<Longrightarrow> Upstream r = Upstream want"
    and apart: "slots_apart slot (des srcs content) (store_entry st)"
    and step: "in_step shown st"
  shows "(\<forall>k want. des srcs content k = Some want \<longrightarrow> shown (rsWorld (reconcile rc pc st)) want) \<and>
    (\<forall>k r. store_entry st k = Some r \<and> des srcs content k = None \<and> map_of ups (Upstream r) \<noteq> None \<longrightarrow>
       \<not> shown (rsWorld (reconcile rc pc st)) r) \<and>
    in_step shown (reconcile rc pc st)"
proof -
  let ?D = "concat (map content srcs)" and ?des = "des srcs content"
  have index: "?des = map_of (go_index RecordKey ?D)" by (simp add: des_def)
  obtain snap recorded ver lg where ver: "Fetched ver = []"
    and idx: "map_of (go_index RecordKey recorded) = store_entry st"
    and snap: "\<And>r. store_entry st (RecordKey r) = Some r \<Longrightarrow> go_get False snap (SourceName r)"
    and pass: "reconcile rc pc st =
      (let w = snd (snd (CollectDesired srcs (rsLastGood st) (rsWorld st)));
           xs = Apply (rcExecutor rc) (pcSched pc) (pcPlan pc)
             (diff (pcDiff pc) ?D recorded snap ver) recorded
             \<lparr>xsStore = rsStore st, xsNextRetry = rsNextRetry st, xsWorld = w\<rparr>
       in \<lparr>rsStore = xsStore xs, rsNextRetry = xsNextRetry xs, rsLastGood = lg,
           rsNextCheck = rsNextCheck st, rsListFailures = 0, rsWorld = xsWorld xs\<rparr>)"
    by (rule clean_pass [OF rc keyed ctx reads, where pc = pc]) (rule that)
  define w where "w = snd (snd (CollectDesired srcs (rsLastGood st) (rsWorld st)))"
  define ops where "ops = diff_ops (pcDiff pc) ?D recorded snap ver"
  define want_op where "want_op = (\<lambda>k want. desired_op (buildActualIndex (ordActual (pcDiff pc)) (Actual ver)) ver (go_index RecordKey recorded) k want)"
  define w1 where "w1 = rsWorld (reconcile rc pc st)"
  have w: "shown w r = shown (rsWorld st) r" for r
    unfolding w_def CollectDesired_def by (rule collect_quiet [OF quiet])
  have ex: "exOps (rcExecutor rc) = file_ops enc" "exUpstreams (rcExecutor rc) = ups" by (simp_all add: rc)
  let ?plan = "diff (pcDiff pc) ?D recorded snap ver"
  let ?xs = "\<lparr>xsStore = rsStore st, xsNextRetry = rsNextRetry st, xsWorld = w\<rparr>"
  have k: "keyed (fsRecords (xsStore ?xs))" "go_map_wf ?plan" "distinct (map op_key (plan_ops ?plan))"
    using keyed diff_wf diff_distinct by simp_all
  have w1: "w1 = xsWorld (Apply (rcExecutor rc) (pcSched pc) (pcPlan pc) ?plan recorded ?xs)"
    by (simp add: w1_def pass Let_def w_def)
  obtain cs where cs: "set cs = set (group_calls [] (envNow (exEnv (rcExecutor rc)) w) ?plan)"
    and world: "w1 = fold (call_world (rcExecutor rc) (go_index RecordKey recorded)) cs w"
    using fstore.Apply_fold [OF ex(1) k, where sched = "pcSched pc" and it = "pcPlan pc" and recorded = recorded]
    by (elim exE conjE) (rule that, simp_all add: gates w1)
  have mem: "(n, op) \<in> set cs \<longleftrightarrow> op \<in> set ops \<and> n = Upstream (opRecord op) \<and> Kind op \<noteq> OpNoop" for n op
    unfolding cs mem_group_calls [OF diff_wf] diff_get ops_def by (auto simp: attempted_iff gate_open_def)
  have planned: "op \<in> set ops \<longleftrightarrow> (\<exists>k want. ?des k = Some want \<and> op = want_op k want) \<or>
      (\<exists>k r. store_entry st k = Some r \<and> ?des k = None \<and> go_get False snap (SourceName r) \<and> op = simple_op OpDelete r)" for op
    unfolding ops_def mem_diff_ops idx index want_op_def ..
  have rec_op: "opRecord (want_op k want) = want" "Kind (want_op k want) \<noteq> OpDelete" for k want
    by (simp_all add: want_op_def desired_op_unverified_kind [OF ver])
  have fits_want: "fits want \<and> map_of ups (Upstream want) \<noteq> None" if "?des k = Some want" for k want
    using go_index_SomeD [of RecordKey ?D k want] that desired by (auto simp: index)
  have proper: "proper c" if "c \<in> set cs" for c
  proof (cases c)
    case (Pair n op)
    with that have op: "op \<in> set ops" "n = Upstream (opRecord op)" "Kind op \<noteq> OpNoop" by (simp_all add: mem)
    from op(1) have "map_of ups n \<noteq> None \<longrightarrow> fits (opRecord op)"
      unfolding planned using fits_want stored op(2) by (auto simp: rec_op)
    with op Pair show ?thesis by (simp add: proper_def)
  qed
  have delete_op: "(Upstream r, simple_op OpDelete r) \<in> set cs" if "store_entry st k = Some r" "?des k = None" for k r
  proof -
    have "RecordKey r = k" using keyed_lookup [OF keyed] that(1) by simp
    then have "simple_op OpDelete r \<in> set ops" unfolding planned using that snap by blast
    then show ?thesis by (simp add: mem)
  qed
  have same_slot: "?des k' = Some r \<Longrightarrow> k' = k" "store_entry st k' = Some r \<Longrightarrow> ?des k' = None \<Longrightarrow> False"
    if "?des k = Some want" "slot want = slot r" for k k' want r
    using apart that unfolding slots_apart_def by (blast, metis option.distinct(1))
  have shown_want: "shown w1 want" if want: "?des k = Some want" for k want
  proof -
    note fw = fits_want [OF want]
    have own: "opRecord (snd c) = want \<and> Kind (snd c) \<noteq> OpDelete \<and> snd c = want_op k want"
      if "c \<in> set cs" "slot want = slot (opRecord (snd c))" for c
    proof -
      have "snd c \<in> set ops" using that(1) by (metis mem prod.collapse)
      then show ?thesis
        unfolding planned
      proof (elim disjE exE conjE)
        fix k' want' assume "?des k' = Some want'" "snd c = want_op k' want'"
        moreover from this have "k' = k" using same_slot(1) [OF want] that(2) by (simp add: rec_op)
        ultimately show ?thesis using want by (simp add: rec_op)
      next
        fix k' r assume "store_entry st k' = Some r" "?des k' = None" "snd c = simple_op OpDelete r"
        then show ?thesis using same_slot(2) [OF want, of r k'] that(2) by simp
      qed
    qed
    show ?thesis
    proof (cases "Kind (want_op k want) = OpNoop")
      case True
      then obtain r where r: "store_entry st k = Some r" "Status r \<noteq> RecordStatusFailed" "appliedEqual want r"
        unfolding want_op_def desired_op_unverified_kind(2) [OF ver] idx by blast
      have "shown w want"
        using step r same_content [OF r(3)] same_up [OF want r(1)] by (auto simp: in_step_def w)
      moreover have "slot want \<noteq> slot (opRecord (snd c))" if "c \<in> set cs" for c
        using own [OF that] True that by (metis mem prod.collapse)
      ultimately show ?thesis
        unfolding world using calls_other [OF ex(2)] fw proper by simp
    next
      case False
      have "(Upstream want, want_op k want) \<in> set cs" using want False by (auto simp: mem planned rec_op)
      from calls_show [OF ex(2) _ _ this] show ?thesis
        unfolding world using fw proper own by (simp add: rec_op)
    qed
  qed
  moreover have "\<not> shown w1 r" if r: "store_entry st k = Some r" "?des k = None" "map_of ups (Upstream r) \<noteq> None" for k r
  proof -
    have "Kind (snd c) = OpDelete" if "c \<in> set cs" "slot r = slot (opRecord (snd c))" for c
    proof -
      have "snd c \<in> set ops" using that(1) by (metis mem prod.collapse)
      moreover have "\<not> (\<exists>k' want. ?des k' = Some want \<and> snd c = want_op k' want)"
      proof (intro notI, elim exE conjE)
        fix k' want assume want: "?des k' = Some want" "snd c = want_op k' want"
        then have "slot want = slot r" using that(2) by (simp add: rec_op)
        then show False using same_slot(2) [OF want(1) _ r(1,2)] by blast
      qed
      ultimately show ?thesis unfolding planned by auto
    qed
    with calls_hide [OF ex(2) stored [OF r(1,3)] r(3) delete_op [OF r(1,2)]] proper show ?thesis
      unfolding world by simp
  qed
  moreover have "shown w1 r" if r: "store_entry (reconcile rc pc st) k = Some r" for k r
  proof -
    have conv: "settled ?D (store_entry (reconcile rc pc st))"
      "store_entry st k = Some r \<or> (\<exists>want. ?des k = Some want \<and> Upstream r = Upstream want)"
      using converges_on [OF rc keyed ctx gates reads, where good = fits and pc = pc] desired stored fits_accepted r
      by (simp_all add: same_failures index)
    obtain want where want: "?des k = Some want"
      using settled_None [OF conv(1), of k] r by (cases "?des k") (auto simp: index)
    then have "appliedEqual want r"
      using settled_Some [OF conv(1), of k want] r by (auto simp: index)
    moreover have "Upstream r = Upstream want" using conv(2) want same_up by auto
    ultimately show ?thesis using shown_want [OF want] same_content [of want r] by simp
  qed
  ultimately show ?thesis unfolding in_step_def w1_def [symmetric] by blast
qed

end

section \<open>A Pi-hole and a Technitium server\<close>

text \<open>What a client leaves of the world alone, an operation made of its requests leaves alone.\<close>

definition keeps :: "('w \<Rightarrow> 'a) \<Rightarrow> 'w transport \<Rightarrow> bool" where
  "keeps f t \<longleftrightarrow> (\<forall>req w. f (snd (t req w)) = f w)"

lemma keepsD: "keeps f t \<Longrightarrow> t req w = (res, w1) \<Longrightarrow> f w1 = f w"
  unfolding keeps_def by (metis snd_conv)

lemma client_Do_keeps: "keeps f t \<Longrightarrow> keeps f (client_Do t)"
  unfolding keeps_def client_Do_def by (simp add: split_def split: sum.split)

lemma pihole_change_keeps:
  assumes "keeps f (phClient u)"
  shows "f (snd (pihole_change lib u remove r w)) = f w"
proof -
  note d = keepsD [OF client_Do_keeps [OF assms]]
  have g: "f (snd (pihole_get lib u path decode w)) = f w" for path and decode :: "string \<Rightarrow> error + string list" and w
    by (auto simp: pihole_get_def split: sum.splits prod.splits dest: d)
  have p: "f (snd (pihole_patch lib u body w)) = f w" for body w
    by (auto simp: pihole_patch_def split: sum.splits prod.splits dest: d)
  have g': "pihole_get lib u path decode w = (res, w1) \<Longrightarrow> f w1 = f w" for path and decode :: "string \<Rightarrow> error + string list" and w res w1
    using g [of path decode w] by simp
  show ?thesis
    by (auto simp: pihole_change_def patchHosts_def patchCNAME_def getHosts_def getCNAMERecords_def p Let_def
        split: sum.splits prod.splits dest: g')
qed

lemma technitium_keeps:
  assumes "keeps f (tcHttp (tuClient u))"
  shows "f (snd (technitium_Upsert lib u r w)) = f w" "f (snd (technitium_Delete lib u r w)) = f w"
proof -
  note d = keepsD [OF client_Do_keeps [OF assms]]
  have t: "technitium_do lib (tuClient u) meth path params w = (res, w1) \<Longrightarrow> f w1 = f w" for meth path params w res w1
    by (auto simp: technitium_do_def split: sum.splits prod.splits if_splits dest: d)
  have g: "getRecords lib (tuClient u) domain w = (res, w1) \<Longrightarrow> f w1 = f w" for domain w res w1
    by (auto simp: getRecords_def decode_records_def split: sum.splits prod.splits dest: t)
  have e: "f (snd (do_error (technitium_do lib (tuClient u) meth path params w))) = f w" for meth path params w
    using t [of meth path params w] by (auto simp: do_error_def split: sum.splits prod.splits)
  show "f (snd (technitium_Upsert lib u r w)) = f w"
    by (auto simp: technitium_Upsert_def addRecord_def updateRecord_def e split: sum.splits prod.splits list.splits dest: g)
  show "f (snd (technitium_Delete lib u r w)) = f w"
    by (auto simp: technitium_Delete_def deleteRecord_def e split: sum.splits prod.splits dest: g)
qed

text \<open>What the two servers show.\<close>

definition pihole_shown ::
  "pihole_lib \<Rightarrow> 'w pihole \<Rightarrow> ('w \<Rightarrow> string list) \<Rightarrow> ('w \<Rightarrow> string list) \<Rightarrow> 'w \<Rightarrow> Record \<Rightarrow> bool" where
  "pihole_shown lib u hosts cnames w r \<longleftrightarrow>
     (let rs = listed (phName u) (hosts w) (cnames w) in
      kept_record lib u r \<in> set rs \<and> (\<forall>got\<in>set rs. same_slot r got \<longrightarrow> got = kept_record lib u r))"

definition technitium_shown :: "('w \<Rightarrow> zoneRecord list) \<Rightarrow> 'w \<Rightarrow> Record \<Rightarrow> bool" where
  "technitium_shown zone w r \<longleftrightarrow> (\<exists>cur\<in>set (zone w). at_place r cur \<and> recordUpToDate cur r)"

definition pihole_slot :: "Record \<Rightarrow> string \<times> string \<times> string" where
  "pihole_slot r = (Upstream r, if Type r = RecordTypeCNAME then RecordTypeCNAME else '''', Name r)"

definition technitium_slot :: "Record \<Rightarrow> string \<times> string \<times> string" where
  "technitium_slot r = (Upstream r, Type r, Name r)"

definition two_upstreams ::
  "pihole_lib \<Rightarrow> 'w pihole \<Rightarrow> technitium_lib \<Rightarrow> 'w technitium \<Rightarrow> (string, 'w upstream) go_map" where
  "two_upstreams plib ph tlib tc = [(phName ph, pihole_upstream plib ph), (tuName tc, technitium_upstream tlib tc)]"

definition two_fit :: "'w pihole \<Rightarrow> 'w technitium \<Rightarrow> Record \<Rightarrow> bool" where
  "two_fit ph tc r \<longleftrightarrow> Upstream r = phName ph \<and> pihole_record_ok r \<or> Upstream r = tuName tc \<and> technitium_fits r"

definition two_slot :: "'w pihole \<Rightarrow> Record \<Rightarrow> string \<times> string \<times> string" where
  "two_slot ph r = (if Upstream r = phName ph then pihole_slot r else technitium_slot r)"

definition two_shown ::
  "pihole_lib \<Rightarrow> 'w pihole \<Rightarrow> ('w \<Rightarrow> string list) \<Rightarrow> ('w \<Rightarrow> string list) \<Rightarrow> ('w \<Rightarrow> zoneRecord list) \<Rightarrow> 'w \<Rightarrow> Record \<Rightarrow> bool" where
  "two_shown plib ph hosts cnames zone w r =
     (if Upstream r = phName ph then pihole_shown plib ph hosts cnames w r else technitium_shown zone w r)"

text \<open>Both servers do what their adapters rely on, and the requests of one do not change the other.\<close>

definition two_serve ::
  "pihole_lib \<Rightarrow> 'w pihole \<Rightarrow> technitium_lib \<Rightarrow> 'w technitium
     \<Rightarrow> ('w \<Rightarrow> string list) \<Rightarrow> ('w \<Rightarrow> string list) \<Rightarrow> ('w \<Rightarrow> zoneRecord list) \<Rightarrow> bool" where
  "two_serve plib ph tlib tc hosts cnames zone \<longleftrightarrow>
     pihole_serves plib ph hosts cnames \<and> technitium_serves tlib (tuClient tc) zone \<and> tuZone tc = tcZone (tuClient tc) \<and>
     phName ph \<noteq> tuName tc \<and> keeps zone (phClient ph) \<and> keeps hosts (tcHttp (tuClient tc)) \<and> keeps cnames (tcHttp (tuClient tc))"

lemma pihole_slot_iff: "Upstream r = Upstream r' \<Longrightarrow> pihole_slot r = pihole_slot r' \<longleftrightarrow> same_slot r r'"
  by (auto simp: pihole_slot_def same_slot_def go_consts)

lemma pihole_call_shown:
  assumes "pihole_serves lib u hosts cnames" "pihole_record_ok r" "Upstream r = phName u"
  obtains w1 where "pihole_change lib u remove r w = (None, w1)" "pihole_shown lib u hosts cnames w1 r = (\<not> remove)"
    "\<And>r'. \<not> same_slot r r' \<Longrightarrow> pihole_shown lib u hosts cnames w1 r' = pihole_shown lib u hosts cnames w r'"
    "\<And>r'. remove \<Longrightarrow> pihole_shown lib u hosts cnames w1 r' \<Longrightarrow> pihole_shown lib u hosts cnames w r'"
proof -
  obtain w1 where w1: "pihole_change lib u remove r w = (None, w1)"
    and l: "\<And>got. got \<in> set (listed (phName u) (hosts w1) (cnames w1)) \<longleftrightarrow>
       (if same_slot r got then \<not> remove \<and> got = kept_record lib u r
        else got \<in> set (listed (phName u) (hosts w) (cnames w)))"
    using pihole_change_listed [OF assms(1,2), of remove w] by blast
  have k: "same_slot r (kept_record lib u r') \<longleftrightarrow> same_slot r r'" for r'
    by (simp add: same_slot_def kept_record_def)
  have s: "same_slot r r' \<Longrightarrow> same_slot r' got \<longleftrightarrow> same_slot r got" "\<not> same_slot r r' \<Longrightarrow> same_slot r' got \<Longrightarrow> \<not> same_slot r got" for r' got
    by (auto simp: same_slot_def)
  have other: "pihole_shown lib u hosts cnames w1 r' = pihole_shown lib u hosts cnames w r'" if "\<not> same_slot r r'" for r'
  proof -
    have "got \<in> set (listed (phName u) (hosts w1) (cnames w1)) \<longleftrightarrow> got \<in> set (listed (phName u) (hosts w) (cnames w))"
      if "same_slot r' got" for got
      using l [of got] s(2) [OF \<open>\<not> same_slot r r'\<close> that] by simp
    moreover have "same_slot r' (kept_record lib u r')" by (simp add: same_slot_def kept_record_def)
    ultimately show ?thesis unfolding pihole_shown_def Let_def by blast
  qed
  have own: "\<not> pihole_shown lib u hosts cnames w1 r'" if "same_slot r r'" remove for r'
    using that unfolding pihole_shown_def Let_def l by (auto simp: k)
  have "same_slot r r" by (simp add: same_slot_def)
  then have "pihole_shown lib u hosts cnames w1 r = (\<not> remove)"
    unfolding pihole_shown_def Let_def using l k by metis
  with w1 other own show ?thesis by (intro that) blast+
qed

lemma technitium_Upsert_shown:
  assumes "technitium_serves lib (tuClient u) zone" "tuZone u = tcZone (tuClient u)" "technitium_fits r"
  obtains w1 where "technitium_Upsert lib u r w = (None, w1)" "technitium_shown zone w1 r"
    "\<And>r'. (Name r', Type r') \<noteq> (Name r, Type r) \<Longrightarrow> technitium_shown zone w1 r' = technitium_shown zone w r'"
proof -
  obtain w1 cur rest where w1: "technitium_Upsert lib u r w = (None, w1)"
    "filter (\<lambda>rec. \<not> at_place r rec) (zone w1) = filter (\<lambda>rec. \<not> at_place r rec) (zone w)"
    and cur: "filter (at_place r) (zone w1) = cur # rest" "recordUpToDate cur r"
    by (rule Upsert_on_zone [OF assms, of w]) blast
  have "cur \<in> set (zone w1) \<and> at_place r cur" using cur(1) by (auto simp: filter_eq_Cons_iff)
  moreover have "technitium_shown zone w1 r' = technitium_shown zone w r'" if "(Name r', Type r') \<noteq> (Name r, Type r)" for r'
  proof -
    have "technitium_shown zone w r' \<longleftrightarrow> (\<exists>cur\<in>set (filter (\<lambda>rec. \<not> at_place r rec) (zone w)). at_place r' cur \<and> recordUpToDate cur r')" for w
      using that by (auto simp: technitium_shown_def at_place_def)
    then show ?thesis by (simp only: w1(2))
  qed
  ultimately show ?thesis using w1(1) cur(2) by (intro that [of w1]) (auto simp: technitium_shown_def)
qed

lemma technitium_Delete_shown:
  assumes "technitium_serves lib (tuClient u) zone" "tuZone u = tcZone (tuClient u)" "technitium_fits r"
  obtains w1 where "technitium_Delete lib u r w = (None, w1)" "\<not> technitium_shown zone w1 r"
    "\<And>r'. (Name r', Type r') \<noteq> (Name r, Type r) \<Longrightarrow> technitium_shown zone w1 r' = technitium_shown zone w r'"
    "\<And>r'. technitium_shown zone w1 r' \<Longrightarrow> technitium_shown zone w r'"
proof -
  obtain w1 where w1: "technitium_Delete lib u r w = (None, w1)" "zone w1 = filter (\<lambda>rec. \<not> deletes_record r rec) (zone w)"
    by (rule Delete_on_zone [OF assms, of w])
  have "deletes_record r cur" if "at_place r cur" "recordUpToDate cur r" for cur
    using that by (auto simp: deletes_record_def at_place_def recordUpToDate_def recordValue_def recordPriority_def
        go_consts split: if_splits)
  then have "\<not> technitium_shown zone w1 r" by (auto simp: technitium_shown_def w1(2))
  with w1 show ?thesis by (intro that [of w1]) (auto simp: technitium_shown_def deletes_record_def at_place_def)
qed

lemma two_providers:
  assumes "two_serve plib ph tlib tc hosts cnames zone"
  shows "providers (two_upstreams plib ph tlib tc) (two_fit ph tc) (two_slot ph) (two_shown plib ph hosts cnames zone)"
proof unfold_locales
  have a: "pihole_serves plib ph hosts cnames" "technitium_serves tlib (tuClient tc) zone" "tuZone tc = tcZone (tuClient tc)"
    "phName ph \<noteq> tuName tc" and k: "keeps zone (phClient ph)" "keeps hosts (tcHttp (tuClient tc))" "keeps cnames (tcHttp (tuClient tc))"
    using assms by (simp_all add: two_serve_def)
  have zk: "zone w1 = zone w" if "pihole_change plib ph remove r w = (e, w1)" for remove r w e w1
    using pihole_change_keeps [OF k(1), of plib remove r w] that by simp
  have hk: "hosts w1 = hosts w \<and> cnames w1 = cnames w"
    if "technitium_Upsert tlib tc r w = (e, w1) \<or> technitium_Delete tlib tc r w = (e, w1)" for r w e w1
    using technitium_keeps [OF k(2), of tlib r w] technitium_keeps [OF k(3), of tlib r w] that by auto
  let ?shown = "two_shown plib ph hosts cnames zone"
  have frame_pi: "technitium_shown zone w1 r = technitium_shown zone w r" if "zone w1 = zone w" for r w w1
    using that by (simp add: technitium_shown_def)
  have frame_tc: "pihole_shown plib ph hosts cnames w1 r = pihole_shown plib ph hosts cnames w r"
    if "hosts w1 = hosts w \<and> cnames w1 = cnames w" for r w w1
    using that by (simp add: pihole_shown_def)
  fix r u w
  assume u: "map_of (two_upstreams plib ph tlib tc) (Upstream r) = Some u" and fits: "two_fit ph tc r"
  from fits a(4) consider (pi) "Upstream r = phName ph" "pihole_record_ok r" "u = pihole_upstream plib ph"
    | (tc) "Upstream r = tuName tc" "technitium_fits r" "u = technitium_upstream tlib tc"
    using u by (auto simp: two_fit_def two_upstreams_def)
  note cases = this
  have slot_pi: "\<not> same_slot r r'" if "Upstream r = phName ph" "Upstream r' = phName ph" "two_slot ph r' \<noteq> two_slot ph r" for r'
    using that pihole_slot_iff [of r r'] by (simp add: two_slot_def)
  have slot_tc: "(Name r', Type r') \<noteq> (Name r, Type r)"
    if "Upstream r = tuName tc" "Upstream r' = tuName tc" "two_slot ph r' \<noteq> two_slot ph r" for r'
    using that a(4) by (auto simp: two_slot_def technitium_slot_def)
  show "\<exists>w1. upUpsert u r w = (Returned None, w1) \<and> ?shown w1 r \<and>
      (\<forall>r'. two_fit ph tc r' \<and> two_slot ph r' \<noteq> two_slot ph r \<longrightarrow> ?shown w1 r' = ?shown w r')"
  proof (cases rule: cases)
    case pi
    obtain w1 where w1: "pihole_change plib ph False r w = (None, w1)" "pihole_shown plib ph hosts cnames w1 r"
      "\<And>r'. \<not> same_slot r r' \<Longrightarrow> pihole_shown plib ph hosts cnames w1 r' = pihole_shown plib ph hosts cnames w r'"
      by (rule pihole_call_shown [OF a(1) pi(2,1), of False w]) simp
    show ?thesis
      using w1 pi(1,3) slot_pi [OF pi(1)] frame_pi [OF zk [OF w1(1)]]
      by (intro exI [of _ w1]) (auto simp: pihole_upstream_def pihole_Upsert_def two_shown_def)
  next
    case tc
    obtain w1 where w1: "technitium_Upsert tlib tc r w = (None, w1)" "technitium_shown zone w1 r"
      "\<And>r'. (Name r', Type r') \<noteq> (Name r, Type r) \<Longrightarrow> technitium_shown zone w1 r' = technitium_shown zone w r'"
      by (rule technitium_Upsert_shown [OF a(2,3) tc(2), of w]) blast
    have "hosts w1 = hosts w \<and> cnames w1 = cnames w" using hk w1(1) by blast
    from w1 tc(1,3) a(4) frame_tc [OF this] slot_tc [OF tc(1)] show ?thesis
      by (intro exI [of _ w1]) (auto simp: technitium_upstream_def two_shown_def two_fit_def)
  qed
  show "\<exists>w1. upDelete u r w = (Returned None, w1) \<and> \<not> ?shown w1 r \<and>
      (\<forall>r'. two_fit ph tc r' \<longrightarrow> (?shown w1 r' \<longrightarrow> ?shown w r') \<and>
         (two_slot ph r' \<noteq> two_slot ph r \<longrightarrow> ?shown w1 r' = ?shown w r'))"
  proof (cases rule: cases)
    case pi
    obtain w1 where w1: "pihole_change plib ph True r w = (None, w1)" "\<not> pihole_shown plib ph hosts cnames w1 r"
      "\<And>r'. \<not> same_slot r r' \<Longrightarrow> pihole_shown plib ph hosts cnames w1 r' = pihole_shown plib ph hosts cnames w r'"
      "\<And>r'. pihole_shown plib ph hosts cnames w1 r' \<Longrightarrow> pihole_shown plib ph hosts cnames w r'"
      by (rule pihole_call_shown [OF a(1) pi(2,1), of True w]) blast
    show ?thesis
      using w1 pi(1,3) slot_pi [OF pi(1)] frame_pi [OF zk [OF w1(1)]]
      by (intro exI [of _ w1]) (auto simp: pihole_upstream_def pihole_Delete_def two_shown_def)
  next
    case tc
    obtain w1 where w1: "technitium_Delete tlib tc r w = (None, w1)" "\<not> technitium_shown zone w1 r"
      "\<And>r'. (Name r', Type r') \<noteq> (Name r, Type r) \<Longrightarrow> technitium_shown zone w1 r' = technitium_shown zone w r'"
      "\<And>r'. technitium_shown zone w1 r' \<Longrightarrow> technitium_shown zone w r'"
      by (rule technitium_Delete_shown [OF a(2,3) tc(2), of w]) blast
    have "hosts w1 = hosts w \<and> cnames w1 = cnames w" using hk w1(1) by blast
    from w1 tc(1,3) a(4) frame_tc [OF this] slot_tc [OF tc(1)] show ?thesis
      by (intro exI [of _ w1]) (auto simp: technitium_upstream_def two_shown_def two_fit_def)
  qed
next
  fix r r' w
  assume "appliedEqual r r'" "Upstream r = Upstream r'"
  then have e: "Type r = Type r'" "Name r = Name r'" "Value r = Value r'" "TTL r = TTL r'" "Priority r = Priority r'"
    "Upstream r = Upstream r'" by (simp_all add: appliedEqual_def)
  then have "kept_record plib ph r = kept_record plib ph r'" "same_slot r = same_slot r'" "at_place r = at_place r'"
    "recordUpToDate cur r = recordUpToDate cur r'" for cur
    by (simp_all add: kept_record_def same_slot_def [abs_def] at_place_def [abs_def] recordUpToDate_def)
  with e show "two_fit ph tc r = two_fit ph tc r' \<and> two_slot ph r = two_slot ph r' \<and>
      two_shown plib ph hosts cnames zone w r = two_shown plib ph hosts cnames zone w r'"
    by (simp add: two_fit_def pihole_record_ok_def technitium_fits_def two_slot_def pihole_slot_def technitium_slot_def
        two_shown_def pihole_shown_def technitium_shown_def)
qed


section \<open>A sample of both\<close>

text \<open>The two sample servers side by side: each client moves its own part of the world.\<close>

type_synonym sample_net = "(string list \<times> string list) \<times> zoneRecord list"

definition left_net :: "(string list \<times> string list) transport \<Rightarrow> sample_net transport" where
  "left_net t req w = (case t req (fst w) of (res, x) \<Rightarrow> (res, (x, snd w)))"

definition right_net :: "zoneRecord list transport \<Rightarrow> sample_net transport" where
  "right_net t req w = (case t req (snd w) of (res, x) \<Rightarrow> (res, (fst w, x)))"

definition both_pihole :: "sample_net pihole" where
  "both_pihole = \<lparr>phName = ''pi'', phBaseURL = ''http://pi'', phPassword = ''pw'',
     phClient = left_net sample_pihole_net, phAuthClient = left_net sample_pihole_net\<rparr>"

definition both_technitium :: "sample_net technitium" where
  "both_technitium = \<lparr>tuName = ''tc'', tuZone = ''lan'',
     tuClient = \<lparr>tcHttp = right_net sample_tc_net, tcBaseURL = ''http://tc'', tcZone = ''lan''\<rparr>\<rparr>"

definition both_hosts :: "sample_net \<Rightarrow> string list" where "both_hosts w = fst (fst w)"
definition both_cnames :: "sample_net \<Rightarrow> string list" where "both_cnames w = snd (fst w)"
definition both_zone :: "sample_net \<Rightarrow> zoneRecord list" where "both_zone w = sample_tc_zone (snd w)"

lemma both_pihole_serves: "pihole_serves sample_pihole_lib both_pihole both_hosts both_cnames"
  by (simp add: pihole_serves_def sample_pihole_lib_def both_pihole_def sample_pihole_net_def left_net_def get_request_def
      patch_request_def text_answer_def has_suffix_def both_hosts_def both_cnames_def)

lemma right_net_simp: "right_net t req w = (res, w1) \<longleftrightarrow> t req (snd w) = (res, snd w1) \<and> fst w1 = fst w"
  by (cases "t req (snd w)"; cases w1) (auto simp: right_net_def)

lemma both_technitium_serves: "technitium_serves sample_tc_lib (tuClient both_technitium) both_zone"
proof -
  let ?c = "tuClient both_technitium" and ?d = "tuClient sample_technitium"
  have req: "technitium_get ?c p = technitium_get ?d p" "technitium_post ?c path p = technitium_post ?d path p"
    "domain_params ?c d = domain_params ?d d" "zone_params ?c = zone_params ?d" "write_params ?c = write_params ?d" for p path d
    by (simp_all add: technitium_get_def technitium_post_def both_technitium_def sample_technitium_def
        domain_params_def zone_params_def write_params_def [abs_def])
  have t: "tcHttp ?c = right_net (tcHttp ?d)" by (simp add: both_technitium_def sample_technitium_def)
  have rec: "answers_records sample_tc_lib ?d r (snd w) recs x \<Longrightarrow> answers_records sample_tc_lib ?c r w recs (fst w, x)" for r w recs x
    by (auto simp: answers_records_def t right_net_simp)
  have ok: "answers_ok sample_tc_lib ?d r (snd w) x \<Longrightarrow> answers_ok sample_tc_lib ?c r w (fst w, x)" for r w x
    by (auto simp: answers_ok_def t right_net_simp)
  have z: "both_zone w = sample_tc_zone (snd w)" "both_zone (a, x) = sample_tc_zone x" for w a x by (simp_all add: both_zone_def)
  note s = sample_technitium_serves [unfolded technitium_serves_def]
  show ?thesis
    unfolding technitium_serves_def req z(1)
  proof (intro conjI allI impI)
    show "tlUrlErr sample_tc_lib url = None" for url using s by blast
    show "\<forall>rec\<in>set (sample_tc_zone (snd w)). in_int64 (Preference (zrRData rec))" for w using s by blast
    show "\<exists>w1. answers_records sample_tc_lib ?c (technitium_get ?d (domain_params ?d d)) w
        (filter (\<lambda>rec. zrName rec = d) (sample_tc_zone (snd w))) w1 \<and> sample_tc_zone (snd w1) = sample_tc_zone (snd w)" for d w
    proof -
      obtain x where "answers_records sample_tc_lib ?d (technitium_get ?d (domain_params ?d d)) (snd w)
          (filter (\<lambda>rec. zrName rec = d) (sample_tc_zone (snd w))) x" "sample_tc_zone x = sample_tc_zone (snd w)"
        using s by meson
      with rec show ?thesis by (intro exI [of _ "(fst w, x)"]) simp
    qed
    show "\<exists>w1. answers_records sample_tc_lib ?c (technitium_get ?d (zone_params ?d)) w (sample_tc_zone (snd w)) w1 \<and>
        sample_tc_zone (snd w1) = sample_tc_zone (snd w)" for w
    proof -
      obtain x where "answers_records sample_tc_lib ?d (technitium_get ?d (zone_params ?d)) (snd w) (sample_tc_zone (snd w)) x"
        "sample_tc_zone x = sample_tc_zone (snd w)"
        using s by meson
      with rec show ?thesis by (intro exI [of _ "(fst w, x)"]) simp
    qed
    have post: "\<exists>w1. answers_ok sample_tc_lib ?c r w w1 \<and> sample_tc_zone (snd w1) = z"
      if "\<exists>x. answers_ok sample_tc_lib ?d r (snd w) x \<and> sample_tc_zone x = z" for r w z
    proof -
      from that obtain x where "answers_ok sample_tc_lib ?d r (snd w) x" "sample_tc_zone x = z" by blast
      with ok show ?thesis by (intro exI [of _ "(fst w, x)"]) simp
    qed
    fix p w
    show "\<exists>w1. answers_ok sample_tc_lib ?c (technitium_post ?d ''/api/zones/records/add'' p) w w1 \<and>
        sample_tc_zone (snd w1) = sample_tc_zone (snd w) @ [added_record p]"
      if "write_params ?d p \<and> filter (\<lambda>rec. zrName rec = param p ''domain'' \<and> zrType rec = param p ''type'') (sample_tc_zone (snd w)) = []"
      by (rule post) (use s that in meson)
    show "\<exists>w1. answers_ok sample_tc_lib ?c (technitium_post ?d ''/api/zones/records/update'' p) w w1 \<and>
        sample_tc_zone (snd w1) = map (\<lambda>rec. if picked p rec then updated_record p else rec) (sample_tc_zone (snd w))"
      if "write_params ?d p"
      by (rule post) (use s that in meson)
    show "\<exists>w1. answers_ok sample_tc_lib ?c (technitium_post ?d ''/api/zones/records/delete'' p) w w1 \<and>
        sample_tc_zone (snd w1) = filter (\<lambda>rec. \<not> picked p rec) (sample_tc_zone (snd w))"
      if "write_params ?d p"
      by (rule post) (use s that in meson)
  qed
qed

lemma both_serve:
  "two_serve sample_pihole_lib both_pihole sample_tc_lib both_technitium both_hosts both_cnames both_zone"
  using both_pihole_serves both_technitium_serves
  by (auto simp: two_serve_def keeps_def both_pihole_def both_technitium_def left_net_def right_net_def
      both_hosts_def both_cnames_def both_zone_def split: prod.splits)

interpretation both: providers "two_upstreams sample_pihole_lib both_pihole sample_tc_lib both_technitium"
  "two_fit both_pihole both_technitium" "two_slot both_pihole"
  "two_shown sample_pihole_lib both_pihole both_hosts both_cnames both_zone"
  by (rule two_providers) (rule both_serve)

definition still_env :: "'w env" where
  "still_env = \<lparr>envNow = (\<lambda>_. 0), envCtxErr = (\<lambda>_. False)\<rparr>"

definition pi_record :: "string \<Rightarrow> Record" where
  "pi_record container = zero_record\<lparr>SourceID := container, ID := ''web'', SourceName := ''d'', Upstream := ''pi'',
     Type := RecordTypeA, Name := ''nas.lan'', Value := ''10.0.0.9''\<rparr>"

definition tc_record :: Record where
  "tc_record = sample_tr\<lparr>SourceID := ''c1'', ID := ''dns'', SourceName := ''d'', Upstream := ''tc''\<rparr>"

definition old_record :: Record where
  "old_record = zero_record\<lparr>SourceID := ''c0'', ID := ''tv'', SourceName := ''d'', Upstream := ''pi'',
     Type := RecordTypeA, Name := ''tv.lan'', Value := ''10.0.0.7'', Status := RecordStatusSynced\<rparr>"

definition both_reconciler :: "Record list \<Rightarrow> (file_store, sample_net) reconciler" where
  "both_reconciler desired = NewReconciler (file_ops sample_enc) [fixed_source ''d'' desired]
     (two_upstreams sample_pihole_lib both_pihole sample_tc_lib both_technitium) [] 0 0 4 still_env (\<lambda>d w. w)"

definition both_state :: "Record list \<Rightarrow> sample_net \<Rightarrow> (file_store, sample_net) rec_state" where
  "both_state rs w = \<lparr>rsStore = empty_file_store\<lparr>fsRecords := go_index RecordKey rs\<rparr>, rsNextRetry = [],
     rsLastGood = [], rsNextCheck = [], rsListFailures = 0, rsWorld = w\<rparr>"

abbreviation both_shown :: "sample_net \<Rightarrow> Record \<Rightarrow> bool" where
  "both_shown \<equiv> two_shown sample_pihole_lib both_pihole both_hosts both_cnames both_zone"

lemma sample_records [simp]:
  "RecordKey (pi_record c) = c @ ''/web/pi''" "RecordKey tc_record = ''c1/dns/tc''" "RecordKey old_record = ''c0/tv/pi''"
  "Upstream (pi_record c) = ''pi''" "Upstream tc_record = ''tc''" "Upstream old_record = ''pi''"
  by (simp_all add: RecordKey_def pi_record_def tc_record_def old_record_def)

lemma sample_fits: "two_fit both_pihole both_technitium (pi_record c)" "two_fit both_pihole both_technitium tc_record"
  "two_fit both_pihole both_technitium old_record"
  by (simp_all add: two_fit_def both_pihole_def both_technitium_def pihole_record_ok_def technitium_fits_def
      pi_record_def tc_record_def old_record_def sample_tr_def zero_record_def hostRecordType_def go_consts is_space_def
      supported_def in_int64_def min_int64_def max_int64_def)

lemma sample_slots: "two_slot both_pihole (pi_record c) = (''pi'', '''', ''nas.lan'')"
  "two_slot both_pihole tc_record = (''tc'', ''A'', ''nas.lan'')" "two_slot both_pihole old_record = (''pi'', '''', ''tv.lan'')"
  by (simp_all add: two_slot_def pihole_slot_def technitium_slot_def both_pihole_def pi_record_def tc_record_def
      old_record_def sample_tr_def zero_record_def go_consts)

lemma old_shown: "both_shown (([''10.0.0.7 tv.lan''], []), []) old_record"
proof -
  have s: "splitHostEntry ''10.0.0.7 tv.lan'' = Some (''10.0.0.7'', ''tv.lan'')" by code_simp
  show ?thesis
    by (simp add: two_shown_def pihole_shown_def both_pihole_def both_hosts_def both_cnames_def listed_def s
        old_record_def kept_record_def zero_record_def hostRecordType_def go_consts)
qed

lemma both_state_simps [simp]:
  "fsRecords (rsStore (both_state rs w)) = go_index RecordKey rs" "rsNextRetry (both_state rs w) = []"
  "rsWorld (both_state rs w) = w"
  by (simp_all add: both_state_def)


section \<open>A recreated container\<close>

text \<open>
  The key of a record holds the ID of its container. A container that is recreated between two passes
  with the same labels gives one pass a creation under the new key and a deletion under the old one,
  for the same record of the same server. They are made in the order of the plan, which has the creation
  first, or in any order by the workers: here the record is gone afterwards, the store has it as
  synced, and with verification off no later pass creates it again.
\<close>

lemma recreated_container_loses_record:
  "let st = reconcile (both_reconciler [pi_record ''c2'']) sample_choices
       (both_state [(pi_record ''c1'')\<lparr>Status := RecordStatusSynced\<rparr>] (([''10.0.0.9 nas.lan''], []), []))
   in rsWorld st = (([], []), []) \<and>
     map (\<lambda>(k, r). (k, Status r)) (fsRecords (rsStore st)) = [(''c2/web/pi'', RecordStatusSynced)]"
  by code_simp

end
