(* ===== verification/Store_Choice.thy ===== *)
theory Store_Choice
  imports Reconcile
begin

text \<open>
  The reconciler over the file store and over the memory store. A pass and a run of the loop do the same with
  both, step by step, whatever fails on the disk: \<open>in_memory\<close> forgets the disk and is a functional
  refinement of the executor, the pass and the loop. So what is proved of passes over the file store holds over
  the memory store, and a full disk never changes what is sent to the providers.
\<close>

definition exec_in_memory :: "(file_store, 'w) exec_state \<Rightarrow> (memory_store, 'w) exec_state" where
  "exec_in_memory st = \<lparr>xsStore = fsRecords (xsStore st), xsNextRetry = xsNextRetry st, xsWorld = xsWorld st\<rparr>"

definition in_memory :: "(file_store, 'w) rec_state \<Rightarrow> (memory_store, 'w) rec_state" where
  "in_memory st = \<lparr>rsStore = fsRecords (rsStore st), rsNextRetry = rsNextRetry st, rsLastGood = rsLastGood st,
     rsNextCheck = rsNextCheck st, rsListFailures = rsListFailures st, rsWorld = rsWorld st\<rparr>"

definition run_in_memory :: "(file_store, 'w) run_state \<Rightarrow> (memory_store, 'w) run_state" where
  "run_in_memory rs = \<lparr>rnRec = in_memory (rnRec rs), rnStarted = rnStarted rs, rnNotify = rnNotify rs,
     rnBlocked = rnBlocked rs, rnTick = rnTick rs, rnTimer = rnTimer rs, rnExited = rnExited rs,
     rnDirty = rnDirty rs, rnPasses = rnPasses rs\<rparr>"

lemma in_memory_simps [simp]:
  "xsStore (exec_in_memory st) = fsRecords (xsStore st)" "xsNextRetry (exec_in_memory st) = xsNextRetry st"
  "xsWorld (exec_in_memory st) = xsWorld st"
  "rsStore (in_memory rst) = fsRecords (rsStore rst)" "rsNextRetry (in_memory rst) = rsNextRetry rst"
  "rsLastGood (in_memory rst) = rsLastGood rst" "rsNextCheck (in_memory rst) = rsNextCheck rst"
  "rsListFailures (in_memory rst) = rsListFailures rst" "rsWorld (in_memory rst) = rsWorld rst"
  by (simp_all add: exec_in_memory_def in_memory_def)

text \<open>Executors that differ in their store only.\<close>

definition same_executor :: "(file_store, 'w) executor \<Rightarrow> (memory_store, 'w) executor \<Rightarrow> bool" where
  "same_executor ex ex' \<longleftrightarrow> (\<exists>enc. exOps ex = file_ops enc) \<and> exOps ex' = memory_ops \<and> exUpstreams ex' = exUpstreams ex \<and>
     exMaxConc ex' = exMaxConc ex \<and> exBackoff ex' = exBackoff ex \<and> exEnv ex' = exEnv ex"

lemma ops_in_memory:
  "fsRecords (snd (stUpsert (file_ops enc) r f)) = snd (stUpsert memory_ops r (fsRecords f))"
  "fsRecords (snd (stDeleteRecord (file_ops enc) r f)) = snd (stDeleteRecord memory_ops r (fsRecords f))"
  "stList (file_ops enc) it f = stList memory_ops it (fsRecords f)"
  by (simp_all add: file_defs memory_defs)

lemma applyUpstream_same:
  "same_executor ex ex' \<Longrightarrow> applyUpstream ex' choices u ops rec now nr w = applyUpstream ex choices u ops rec now nr w"
  by (simp add: same_executor_def applyUpstream_def)

lemma persist_in_memory:
  assumes "same_executor ex ex'"
  shows "persist ex' results now (fsRecords f) nr = map_prod fsRecords id (persist ex results now f nr)"
proof -
  obtain enc where o: "exOps ex = file_ops enc" "exOps ex' = memory_ops" "exBackoff ex' = exBackoff ex"
    using assms by (auto simp: same_executor_def)
  show ?thesis
    by (induction results arbitrary: f nr) (simp_all add: o ops_in_memory(1,2) [of enc, symmetric] Let_def)
qed

lemma unknown_in_memory:
  assumes "same_executor ex ex'"
  shows "applyUnknownUpstream ex' ops (fsRecords f) = fsRecords (applyUnknownUpstream ex ops f)"
proof -
  obtain enc where o: "exOps ex = file_ops enc" "exOps ex' = memory_ops"
    using assms by (auto simp: same_executor_def)
  show ?thesis
    by (induction ops arbitrary: f) (simp_all add: o ops_in_memory(2) [of enc, symmetric] split: OpKind.split)
qed

lemma apply_group_in_memory:
  assumes "same_executor ex ex'"
  shows "apply_group ex' sched rec now name os (exec_in_memory st) = exec_in_memory (apply_group ex sched rec now name os st)"
proof (cases "map_of (exUpstreams ex) name")
  case None
  then show ?thesis
    using assms unknown_in_memory [OF assms] by (simp add: apply_group_def same_executor_def exec_in_memory_def)
next
  case (Some u)
  then have "map_of (exUpstreams ex') name = Some u" using assms by (simp add: same_executor_def)
  with Some show ?thesis
    by (simp add: apply_group_def applyUpstream_same [OF assms] persist_in_memory [OF assms] split_def Let_def
        exec_in_memory_def)
qed

lemma apply_groups_in_memory:
  assumes "same_executor ex ex'"
  shows "apply_groups ex' sched rec now gs (exec_in_memory st) = exec_in_memory (apply_groups ex sched rec now gs st)"
proof (induction gs arbitrary: st)
  case (Cons g gs)
  then show ?case by (cases g) (simp add: apply_groups_Cons apply_group_in_memory [OF assms])
qed simp

lemma Apply_in_memory:
  assumes "same_executor ex ex'"
  shows "Apply ex' sched it plan recorded (exec_in_memory st) = exec_in_memory (Apply ex sched it plan recorded st)"
proof -
  obtain enc where o: "exOps ex = file_ops enc" "exOps ex' = memory_ops" "exEnv ex' = exEnv ex"
    using assms by (auto simp: same_executor_def)
  let ?begun = "\<lparr>xsStore = snd (fs_batch_begin (xsStore st)), xsNextRetry = xsNextRetry st, xsWorld = xsWorld st\<rparr>"
  have b: "exec_in_memory ?begun = exec_in_memory st" by (simp add: exec_in_memory_def)
  have "Apply ex' sched it plan recorded (exec_in_memory st) = apply_plan ex' sched it plan recorded (exec_in_memory ?begun)"
    by (simp add: Apply_def o memory_ops_def b)
  also have "\<dots> = exec_in_memory (apply_plan ex sched it plan recorded ?begun)"
    unfolding apply_plan_def apply_groups_in_memory [OF assms] by (simp add: o)
  also have "\<dots> = exec_in_memory (Apply ex sched it plan recorded st)"
    by (simp add: Apply_def o file_ops_def run_batch_def split_def Let_def exec_in_memory_def)
  finally show ?thesis .
qed

section \<open>The pass and the loop\<close>

definition same_reconciler :: "(file_store, 'w) reconciler \<Rightarrow> (memory_store, 'w) reconciler \<Rightarrow> bool" where
  "same_reconciler rc rc' \<longleftrightarrow> (\<exists>enc. rcOps rc = file_ops enc) \<and> rcOps rc' = memory_ops \<and>
     same_executor (rcExecutor rc) (rcExecutor rc') \<and> rcSources rc' = rcSources rc \<and> rcUpstreams rc' = rcUpstreams rc \<and>
     rcVerify rc' = rcVerify rc \<and> rcDrift rc' = rcDrift rc \<and> rcInterval rc' = rcInterval rc \<and>
     rcDebounce rc' = rcDebounce rc \<and> rcEnv rc' = rcEnv rc \<and> rcSleep rc' = rcSleep rc"

lemma NewReconciler_same:
  "same_reconciler (NewReconciler (file_ops enc) srcs ups verify interval debounce maxConc env sleep)
     (NewReconciler memory_ops srcs ups verify interval debounce maxConc env sleep)"
  by (auto simp: same_reconciler_def same_executor_def NewReconciler_def NewExecutor_def)

lemma reconcile_in_memory:
  assumes "same_reconciler rc rc'"
  shows "reconcile rc' pc (in_memory st) = in_memory (reconcile rc pc st)"
proof -
  obtain enc where o: "rcOps rc = file_ops enc" "rcOps rc' = memory_ops" using assms by (auto simp: same_reconciler_def)
  have s: "rcSources rc' = rcSources rc" "rcUpstreams rc' = rcUpstreams rc" "rcVerify rc' = rcVerify rc" "rcDrift rc' = rcDrift rc"
    "rcEnv rc' = rcEnv rc" "rcSleep rc' = rcSleep rc" and ex: "same_executor (rcExecutor rc) (rcExecutor rc')"
    using assms by (simp_all add: same_reconciler_def)
  have a: "Apply (rcExecutor rc') sched it plan recorded \<lparr>xsStore = fsRecords f, xsNextRetry = nr, xsWorld = w\<rparr>
      = exec_in_memory (Apply (rcExecutor rc) sched it plan recorded \<lparr>xsStore = f, xsNextRetry = nr, xsWorld = w\<rparr>)"
    for sched it plan recorded f nr w
    using Apply_in_memory [OF ex, of sched it plan recorded "\<lparr>xsStore = f, xsNextRetry = nr, xsWorld = w\<rparr>"]
    by (simp add: exec_in_memory_def)
  obtain r lg w where c: "CollectDesired (rcSources rc) (rsLastGood st) (rsWorld st) = (r, lg, w)" by (metis prod_cases3)
  obtain ur uc w1 where u: "CollectUpstreams (pcUpstreams pc) (rcUpstreams rc) (rcVerify rc) (envNow (rcEnv rc) w) (rsNextCheck st) w = (ur, uc, w1)"
    by (metis prod_cases3)
  show ?thesis
    unfolding reconcile_def o s ops_in_memory(3) in_memory_simps c u
    by (cases "envCtxErr (rcEnv rc) (rsWorld st)"; cases r; cases "stList memory_ops (pcList pc) (fsRecords (rsStore st))"; cases ur)
      (simp_all add: a u Let_def split_def in_memory_def)
qed

lemma run_in_memory_simps [simp]:
  "rnRec (run_in_memory rs) = in_memory (rnRec rs)" "rnStarted (run_in_memory rs) = rnStarted rs"
  "rnNotify (run_in_memory rs) = rnNotify rs" "rnBlocked (run_in_memory rs) = rnBlocked rs"
  "rnTick (run_in_memory rs) = rnTick rs" "rnTimer (run_in_memory rs) = rnTimer rs"
  "rnExited (run_in_memory rs) = rnExited rs" "rnDirty (run_in_memory rs) = rnDirty rs"
  "rnPasses (run_in_memory rs) = rnPasses rs"
  by (simp_all add: run_in_memory_def)

lemma run_step_in_memory:
  assumes "same_reconciler rc rc'"
  shows "run_step rc' ev (run_in_memory rs) = map_option run_in_memory (run_step rc ev rs)"
proof -
  have s: "rcEnv rc' = rcEnv rc" "rcInterval rc' = rcInterval rc" "rcDebounce rc' = rcDebounce rc"
    using assms by (simp_all add: same_reconciler_def)
  have w: "in_memory st\<lparr>rsWorld := v\<rparr> = in_memory (st\<lparr>rsWorld := v\<rparr>)" for st :: "(file_store, 'a) rec_state" and v
    by (simp add: in_memory_def)
  show ?thesis
    by (cases ev)
      (simp_all add: s w run_live_def run_pass_def receive_notify_def reconcile_in_memory [OF assms] run_in_memory_def)
qed

text \<open>
  C13. The kind of store makes no difference to a run. Whatever states a run over the file store goes
  through, with any failures of the disk, the same run over the memory store, with the same events and
  choices, goes through the same states less the disk: the same records and gates, the same calls of the
  providers, the same exit. In particular no error of the state file changes what a pass sends.
\<close>

theorem run_store_refines:
  assumes "run_reachable (NewReconciler (file_ops enc) srcs ups verify interval debounce maxConc env sleep) st rs"
  shows "run_reachable (NewReconciler memory_ops srcs ups verify interval debounce maxConc env sleep)
      (in_memory st) (run_in_memory rs)"
  using assms
proof (induction rule: run_reachable.induct)
  case run_begin
  have "run_in_memory (run_init st) = run_init (in_memory st)" by (simp add: run_in_memory_def run_init_def)
  then show ?case by (simp add: run_reachable.run_begin)
next
  case (run_next rs ev rs')
  then have "run_step (NewReconciler memory_ops srcs ups verify interval debounce maxConc env sleep) ev (run_in_memory rs)
      = Some (run_in_memory rs')"
    using run_step_in_memory [OF NewReconciler_same] by (metis option.map_disc_iff option.simps(9))
  with run_next.IH show ?case by (rule run_reachable.run_next)
qed

text \<open>A run over a disk on which every write fails, and the same run in memory.\<close>

definition full_disk :: disk where
  "full_disk = empty_disk\<lparr>ioFaults := replicate 8 (Some (OtherError ''no space left on device'', 0))\<rparr>"

definition full_disk_state :: "(file_store, int) rec_state" where
  "full_disk_state = (sample_rec_state [])\<lparr>rsStore := empty_file_store\<lparr>fsDisk := full_disk\<rparr>\<rparr>"

theorem run_store_refines_witness:
  "\<exists>rs. run_reachable (NewReconciler (file_ops sample_enc) [fixed_source ''d'' [sample_record]] [(''pi'', ok_upstream ''pi'')] [] 0 0 4
        clock_env (\<lambda>d w. w + d)) full_disk_state rs \<and> rnPasses rs = 1 \<and>
     run_reachable (NewReconciler memory_ops [fixed_source ''d'' [sample_record]] [(''pi'', ok_upstream ''pi'')] [] 0 0 4
        clock_env (\<lambda>d w. w + d)) (in_memory full_disk_state) (run_in_memory rs)"
proof -
  let ?rc = "NewReconciler (file_ops sample_enc) [fixed_source ''d'' [sample_record]] [(''pi'', ok_upstream ''pi'')] [] 0 0 4
        clock_env (\<lambda>d w. w + d)"
  let ?rs = "(run_pass ?rc sample_choices (run_init full_disk_state))\<lparr>rnStarted := True\<rparr>"
  have "run_step ?rc (LoopStart sample_choices) (run_init full_disk_state) = Some ?rs"
    by (simp add: run_init_def)
  then have r: "run_reachable ?rc full_disk_state ?rs"
    by (rule run_reachable.run_next [OF run_reachable.run_begin])
  moreover have "rnPasses ?rs = 1" by (simp add: run_pass_def run_init_def)
  ultimately show ?thesis using run_store_refines [OF r] by blast
qed

end
