(* ===== verification/Instruments.thy ===== *)
theory Instruments
  imports Metrics_Registry Upstreams
begin

text \<open>
  \<open>internal/metrics/metrics.go\<close> as it is built on the Prometheus client: \<open>New\<close> makes seven vectors and
  registers them, and every method picks a series by a list of label values. \<open>MustRegister\<close> and the
  test that \<open>WithLabelValues\<close> makes of the values, which decides whether it panics, are arguments.
  Floats are left out: buckets are in milliseconds. Proved here: with
  a registerer that accepts new names \<open>New\<close> returns, a second \<open>New\<close> on the same one panics, and
  afterwards no method panics and the vectors are the maps of \<open>Metrics_Registry\<close>.
\<close>

section \<open>Vectors\<close>

datatype vec_kind = CounterVec | GaugeVec | HistogramVec "int list"

record desc =
  dcName :: string
  dcHelp :: string
  dcKind :: vec_kind
  dcLabels :: "string list"

record 'v vec =
  vcDesc :: desc
  vcSeries :: "(string list, 'v) go_map"

definition new_vec :: "vec_kind \<Rightarrow> string \<Rightarrow> string \<Rightarrow> string list \<Rightarrow> 'v vec" where
  "new_vec kind name help labels =
     \<lparr>vcDesc = \<lparr>dcName = name, dcHelp = help, dcKind = kind, dcLabels = labels\<rparr>, vcSeries = []\<rparr>"

text \<open>\<open>WithLabelValues(vs...)\<close> followed by a change of the series, which starts as \<open>zero\<close>.\<close>

definition with_labels ::
  "(desc \<Rightarrow> string list \<Rightarrow> bool) \<Rightarrow> 'v \<Rightarrow> string list \<Rightarrow> ('v \<Rightarrow> 'v) \<Rightarrow> 'v vec \<Rightarrow> 'v vec outcome" where
  "with_labels ok zero vs change v =
     (if \<not> ok (vcDesc v) vs then Panicked ''WithLabelValues''
      else Returned (v\<lparr>vcSeries := go_put vs (change (go_get zero (vcSeries v) vs)) (vcSeries v)\<rparr>))"

record instruments =
  SyncTotal :: "nat vec"
  SyncLatency :: "int list vec"
  DriftTotal :: "nat vec"
  UpstreamAPICalls :: "nat vec"
  UpstreamAPILatency :: "int list vec"
  CircuitBreakerOpen :: "bool vec"
  BackoffGatedTotal :: "nat vec"

definition latency_buckets :: "int list" where
  "latency_buckets = [10, 50, 100, 500, 1000, 5000]"

definition new_instruments :: instruments where
  "new_instruments = \<lparr>
     SyncTotal = new_vec CounterVec ''beacons_sync_operations_total'' ''Total upstream sync operations.''
       [''upstream'', ''operation'', ''result''],
     SyncLatency = new_vec (HistogramVec latency_buckets) ''beacons_sync_duration_seconds''
       ''Latency of upstream sync operations.'' [''upstream'', ''operation''],
     DriftTotal = new_vec CounterVec ''beacons_drift_corrections_total''
       ''Drift corrections found by upstream verification (store believed synced, upstream disagreed).''
       [''upstream'', ''reason''],
     UpstreamAPICalls = new_vec CounterVec ''beacons_upstream_api_calls_total''
       ''HTTP attempts made to upstream APIs, one per retry attempt.'' [''upstream'', ''method'', ''status''],
     UpstreamAPILatency = new_vec (HistogramVec latency_buckets) ''beacons_upstream_api_latency_seconds''
       ''Latency of individual HTTP attempts to upstream APIs.'' [''upstream'', ''method''],
     CircuitBreakerOpen = new_vec GaugeVec ''beacons_circuit_breaker_open''
       (''1 if an upstream'' @ [CHR 0x27] @ ''s circuit breaker has tripped (too many consecutive auth failures), else 0.'')
       [''upstream''],
     BackoffGatedTotal = new_vec CounterVec ''beacons_backoff_gated_total''
       ''Reconcile ops skipped because the record is still within its post-failure backoff window.''
       [''upstream'']\<rparr>"

section \<open>Registration\<close>

definition instrument_descs :: "instruments \<Rightarrow> desc list" where
  "instrument_descs m = [vcDesc (SyncTotal m), vcDesc (SyncLatency m), vcDesc (DriftTotal m), vcDesc (UpstreamAPICalls m),
     vcDesc (UpstreamAPILatency m), vcDesc (CircuitBreakerOpen m), vcDesc (BackoffGatedTotal m)]"

definition metrics_New :: "(desc list \<Rightarrow> 'reg \<Rightarrow> unit outcome \<times> 'reg) \<Rightarrow> 'reg \<Rightarrow> instruments outcome \<times> 'reg" where
  "metrics_New register reg =
     (case register (instrument_descs new_instruments) reg of
        (Panicked m, reg1) \<Rightarrow> (Panicked m, reg1)
      | (Returned _, reg1) \<Rightarrow> (Returned new_instruments, reg1))"

text \<open>The registry of \<open>main\<close>: the collectors of the Go runtime and of the process first.\<close>

definition main_metrics ::
  "(desc list \<Rightarrow> 'reg \<Rightarrow> unit outcome \<times> 'reg) \<Rightarrow> desc list \<Rightarrow> 'reg \<Rightarrow> instruments outcome \<times> 'reg" where
  "main_metrics register collectors reg =
     (case register collectors reg of
        (Panicked m, reg1) \<Rightarrow> (Panicked m, reg1)
      | (Returned _, reg1) \<Rightarrow> metrics_New register reg1)"

section \<open>Recording\<close>

text \<open>The methods; a panic of the first statement leaves the second undone.\<close>

definition vec_RecordSync ::
  "(desc \<Rightarrow> string list \<Rightarrow> bool) \<Rightarrow> string \<Rightarrow> string \<Rightarrow> string \<Rightarrow> int \<Rightarrow> instruments \<Rightarrow> instruments outcome" where
  "vec_RecordSync ok upstream operation result dur m =
     (case with_labels ok 0 [upstream, operation, result] (\<lambda>n. n + 1) (SyncTotal m) of
        Panicked e \<Rightarrow> Panicked e
      | Returned c \<Rightarrow>
     (case with_labels ok [] [upstream, operation] (\<lambda>ds. ds @ [dur]) (SyncLatency m) of
        Panicked e \<Rightarrow> Panicked e
      | Returned h \<Rightarrow> Returned (m\<lparr>SyncTotal := c, SyncLatency := h\<rparr>)))"

definition vec_RecordDrift :: "(desc \<Rightarrow> string list \<Rightarrow> bool) \<Rightarrow> string \<Rightarrow> string \<Rightarrow> instruments \<Rightarrow> instruments outcome" where
  "vec_RecordDrift ok upstream reason m =
     (case with_labels ok 0 [upstream, reason] (\<lambda>n. n + 1) (DriftTotal m) of
        Panicked e \<Rightarrow> Panicked e
      | Returned c \<Rightarrow> Returned (m\<lparr>DriftTotal := c\<rparr>))"

definition vec_RecordAPICall ::
  "(desc \<Rightarrow> string list \<Rightarrow> bool) \<Rightarrow> string \<Rightarrow> string \<Rightarrow> int \<Rightarrow> int \<Rightarrow> instruments \<Rightarrow> instruments outcome" where
  "vec_RecordAPICall ok upstream meth status dur m =
     (case with_labels ok 0 [upstream, meth, statusLabel status] (\<lambda>n. n + 1) (UpstreamAPICalls m) of
        Panicked e \<Rightarrow> Panicked e
      | Returned c \<Rightarrow>
     (case with_labels ok [] [upstream, meth] (\<lambda>ds. ds @ [dur]) (UpstreamAPILatency m) of
        Panicked e \<Rightarrow> Panicked e
      | Returned h \<Rightarrow> Returned (m\<lparr>UpstreamAPICalls := c, UpstreamAPILatency := h\<rparr>)))"

definition vec_SetCircuitBreakerOpen :: "(desc \<Rightarrow> string list \<Rightarrow> bool) \<Rightarrow> string \<Rightarrow> bool \<Rightarrow> instruments \<Rightarrow> instruments outcome" where
  "vec_SetCircuitBreakerOpen ok upstream isOpen m =
     (case with_labels ok False [upstream] (\<lambda>_. isOpen) (CircuitBreakerOpen m) of
        Panicked e \<Rightarrow> Panicked e
      | Returned g \<Rightarrow> Returned (m\<lparr>CircuitBreakerOpen := g\<rparr>))"

definition vec_RecordBackoffGated :: "(desc \<Rightarrow> string list \<Rightarrow> bool) \<Rightarrow> string \<Rightarrow> instruments \<Rightarrow> instruments outcome" where
  "vec_RecordBackoffGated ok upstream m =
     (case with_labels ok 0 [upstream] (\<lambda>n. n + 1) (BackoffGatedTotal m) of
        Panicked e \<Rightarrow> Panicked e
      | Returned c \<Rightarrow> Returned (m\<lparr>BackoffGatedTotal := c\<rparr>))"

text \<open>A program's calls of the methods, on the vectors and on the maps of \<open>Metrics_Registry\<close>.\<close>

datatype metric_call =
    CallSync string string string int
  | CallDrift string string
  | CallAPI string string int int
  | CallBreaker string bool
  | CallGated string

fun vec_call :: "(desc \<Rightarrow> string list \<Rightarrow> bool) \<Rightarrow> metric_call \<Rightarrow> instruments \<Rightarrow> instruments outcome" where
  "vec_call ok (CallSync up oper res dur) m = vec_RecordSync ok up oper res dur m"
| "vec_call ok (CallDrift up reason) m = vec_RecordDrift ok up reason m"
| "vec_call ok (CallAPI up meth status dur) m = vec_RecordAPICall ok up meth status dur m"
| "vec_call ok (CallBreaker up isOpen) m = vec_SetCircuitBreakerOpen ok up isOpen m"
| "vec_call ok (CallGated up) m = vec_RecordBackoffGated ok up m"

fun map_call :: "metric_call \<Rightarrow> metrics \<Rightarrow> metrics" where
  "map_call (CallSync up oper res dur) m = RecordSync up oper res dur m"
| "map_call (CallDrift up reason) m = RecordDrift up reason m"
| "map_call (CallAPI up meth status dur) m = RecordAPICall up meth status dur m"
| "map_call (CallBreaker up isOpen) m = SetCircuitBreakerOpen up isOpen m"
| "map_call (CallGated up) m = RecordBackoffGated up m"

fun call_labels :: "metric_call \<Rightarrow> string list" where
  "call_labels (CallSync up oper res dur) = [up, oper, res]"
| "call_labels (CallDrift up reason) = [up, reason]"
| "call_labels (CallAPI up meth status dur) = [up, meth, statusLabel status]"
| "call_labels (CallBreaker up isOpen) = [up]"
| "call_labels (CallGated up) = [up]"

fun vec_calls :: "(desc \<Rightarrow> string list \<Rightarrow> bool) \<Rightarrow> metric_call list \<Rightarrow> instruments \<Rightarrow> instruments outcome" where
  "vec_calls ok [] m = Returned m"
| "vec_calls ok (c # cs) m = (case vec_call ok c m of Panicked e \<Rightarrow> Panicked e | Returned m1 \<Rightarrow> vec_calls ok cs m1)"

section \<open>The vectors are the maps\<close>

definition key1 :: "string \<Rightarrow> string list" where "key1 a = [a]"
definition key2 :: "string \<times> string \<Rightarrow> string list" where "key2 = (\<lambda>(a, b). [a, b])"
definition key3 :: "string \<times> string \<times> string \<Rightarrow> string list" where "key3 = (\<lambda>(a, b, c). [a, b, c])"

definition label_keyed :: "('k \<Rightarrow> string list) \<Rightarrow> ('k, 'v) go_map \<Rightarrow> (string list, 'v) go_map" where
  "label_keyed f m = map (\<lambda>(k, v). (f k, v)) m"

definition desc_like :: "instruments \<Rightarrow> bool" where
  "desc_like m \<longleftrightarrow> instrument_descs m = instrument_descs new_instruments"

definition vec_maps :: "instruments \<Rightarrow> metrics \<Rightarrow> bool" where
  "vec_maps m t \<longleftrightarrow> desc_like m \<and>
     vcSeries (SyncTotal m) = label_keyed key3 (mtSyncTotal t) \<and> vcSeries (SyncLatency m) = label_keyed key2 (mtSyncLatency t) \<and>
     vcSeries (DriftTotal m) = label_keyed key2 (mtDriftTotal t) \<and> vcSeries (UpstreamAPICalls m) = label_keyed key3 (mtAPICalls t) \<and>
     vcSeries (UpstreamAPILatency m) = label_keyed key2 (mtAPILatency t) \<and>
     vcSeries (CircuitBreakerOpen m) = label_keyed key1 (mtBreakerOpen t) \<and>
     vcSeries (BackoffGatedTotal m) = label_keyed key1 (mtBackoffGated t)"

definition no_metrics :: metrics where
  "no_metrics = \<lparr>mtSyncTotal = [], mtSyncLatency = [], mtDriftTotal = [], mtAPICalls = [], mtAPILatency = [],
     mtBreakerOpen = [], mtBackoffGated = []\<rparr>"

lemma inj_keys: "inj key1" "inj key2" "inj key3"
  by (auto simp: inj_def key1_def key2_def key3_def)

lemma vec_keyed_put: "inj f \<Longrightarrow> go_put (f k) v (label_keyed f m) = label_keyed f (go_put k v m)"
  by (induction m) (auto simp: label_keyed_def dest: injD)

lemma keyed_get: "inj f \<Longrightarrow> go_get z (label_keyed f m) (f k) = go_get z m k"
  by (induction m) (auto simp: label_keyed_def go_get_def dest: injD)

text \<open>
  What the library documents of \<open>WithLabelValues\<close>: as many values as the vector has labels, all in UTF-8, are
  accepted.
\<close>

definition accepts_labels :: "(string \<Rightarrow> bool) \<Rightarrow> (desc \<Rightarrow> string list \<Rightarrow> bool) \<Rightarrow> bool" where
  "accepts_labels utf8 ok \<longleftrightarrow> (\<forall>d vs. length vs = length (dcLabels d) \<and> list_all utf8 vs \<longrightarrow> ok d vs)"

lemma with_labels_keyed:
  assumes "vcSeries v = label_keyed f m" "inj f" "vs = f k" "length vs = length (dcLabels (vcDesc v))" "list_all utf8 vs"
    "accepts_labels utf8 ok"
  shows "with_labels ok zero vs change v =
    Returned (v\<lparr>vcSeries := label_keyed f (go_put k (change (go_get zero m k)) m)\<rparr>)"
  using assms by (simp add: with_labels_def vec_keyed_put keyed_get accepts_labels_def)

text \<open>A call with labels in UTF-8 returns, and does to the vectors what it does to the maps.\<close>

lemma desc_like_labels:
  assumes "desc_like m"
  shows "dcLabels (vcDesc (SyncTotal m)) = [''upstream'', ''operation'', ''result'']"
    "dcLabels (vcDesc (SyncLatency m)) = [''upstream'', ''operation'']"
    "dcLabels (vcDesc (DriftTotal m)) = [''upstream'', ''reason'']"
    "dcLabels (vcDesc (UpstreamAPICalls m)) = [''upstream'', ''method'', ''status'']"
    "dcLabels (vcDesc (UpstreamAPILatency m)) = [''upstream'', ''method'']"
    "dcLabels (vcDesc (CircuitBreakerOpen m)) = [''upstream'']"
    "dcLabels (vcDesc (BackoffGatedTotal m)) = [''upstream'']"
  using assms by (simp_all add: desc_like_def instrument_descs_def new_instruments_def new_vec_def)

lemma vec_call_maps:
  assumes "accepts_labels utf8 ok" "vec_maps m t" "list_all utf8 (call_labels c)"
  obtains m1 where "vec_call ok c m = Returned m1" "vec_maps m1 (map_call c t)"
proof (cases c)
  case (CallSync up oper res dur)
  have k: "[up, oper, res] = key3 (up, oper, res)" "[up, oper] = key2 (up, oper)" by (simp_all add: key3_def key2_def)
  show ?thesis
    using assms CallSync
    by (intro that) (auto simp: vec_maps_def vec_RecordSync_def RecordSync_def counter_inc_def observe_def
        with_labels_keyed [OF _ inj_keys(3) k(1) _ _ assms(1)] with_labels_keyed [OF _ inj_keys(2) k(2) _ _ assms(1)] desc_like_labels
        desc_like_def instrument_descs_def)
next
  case (CallDrift up reason)
  have k: "[up, reason] = key2 (up, reason)" by (simp add: key2_def)
  show ?thesis
    using assms CallDrift
    by (intro that) (auto simp: vec_maps_def vec_RecordDrift_def RecordDrift_def counter_inc_def
        with_labels_keyed [OF _ inj_keys(2) k _ _ assms(1)] desc_like_labels desc_like_def instrument_descs_def)
next
  case (CallAPI up meth status dur)
  have k: "[up, meth, statusLabel status] = key3 (up, meth, statusLabel status)" "[up, meth] = key2 (up, meth)"
    by (simp_all add: key3_def key2_def)
  show ?thesis
    using assms CallAPI
    by (intro that) (auto simp: vec_maps_def vec_RecordAPICall_def RecordAPICall_def counter_inc_def observe_def
        with_labels_keyed [OF _ inj_keys(3) k(1) _ _ assms(1)] with_labels_keyed [OF _ inj_keys(2) k(2) _ _ assms(1)] desc_like_labels
        desc_like_def instrument_descs_def)
next
  case (CallBreaker up isOpen)
  have k: "[up] = key1 up" by (simp add: key1_def)
  show ?thesis
    using assms CallBreaker
    by (intro that) (auto simp: vec_maps_def vec_SetCircuitBreakerOpen_def SetCircuitBreakerOpen_def
        with_labels_keyed [OF _ inj_keys(1) k _ _ assms(1)] desc_like_labels desc_like_def instrument_descs_def)
next
  case (CallGated up)
  have k: "[up] = key1 up" by (simp add: key1_def)
  show ?thesis
    using assms CallGated
    by (intro that) (auto simp: vec_maps_def vec_RecordBackoffGated_def RecordBackoffGated_def counter_inc_def
        with_labels_keyed [OF _ inj_keys(1) k _ _ assms(1)] desc_like_labels desc_like_def instrument_descs_def)
qed

lemma vec_calls_maps:
  assumes "accepts_labels utf8 ok" "vec_maps m t" "\<forall>c \<in> set cs. list_all utf8 (call_labels c)"
  shows "\<exists>m1. vec_calls ok cs m = Returned m1 \<and> vec_maps m1 (fold map_call cs t)"
  using assms(2,3)
proof (induction cs arbitrary: m t)
  case (Cons c cs)
  obtain m1 where "vec_call ok c m = Returned m1" "vec_maps m1 (map_call c t)"
    by (rule vec_call_maps [OF assms(1) Cons.prems(1), of c]) (use Cons.prems(2) in auto)
  with Cons show ?case by simp
qed simp

lemma new_instruments_maps: "vec_maps new_instruments no_metrics"
  by (simp add: vec_maps_def desc_like_def new_instruments_def new_vec_def no_metrics_def label_keyed_def)

section \<open>A registerer\<close>

text \<open>What \<open>New\<close> relies on: new names are registered, and a name that is taken makes it panic.\<close>

definition registers :: "(desc list \<Rightarrow> 'reg \<Rightarrow> unit outcome \<times> 'reg) \<Rightarrow> ('reg \<Rightarrow> string set) \<Rightarrow> bool" where
  "registers register names \<longleftrightarrow>
     (\<forall>ds reg. distinct (map dcName ds) \<and> dcName ` set ds \<inter> names reg = {} \<longrightarrow>
        fst (register ds reg) = Returned () \<and> names (snd (register ds reg)) = dcName ` set ds \<union> names reg) \<and>
     (\<forall>ds reg. dcName ` set ds \<inter> names reg \<noteq> {} \<longrightarrow> (\<exists>e. fst (register ds reg) = Panicked e))"

lemma register_fresh:
  assumes "registers register names" "distinct (map dcName ds)" "dcName ` set ds \<inter> names reg = {}"
  obtains reg1 where "register ds reg = (Returned (), reg1)" "names reg1 = dcName ` set ds \<union> names reg"
  using assms unfolding registers_def by (metis prod.collapse)

lemma New_fresh:
  assumes "registers register names" "distinct (map dcName (instrument_descs new_instruments))"
    "dcName ` set (instrument_descs new_instruments) \<inter> names reg = {}"
  obtains reg1 where "metrics_New register reg = (Returned new_instruments, reg1)"
    "dcName ` set (instrument_descs new_instruments) \<subseteq> names reg1"
  by (rule register_fresh [OF assms]) (auto simp: metrics_New_def intro: that)

lemma New_taken:
  assumes "registers register names" "dcName ` set (instrument_descs new_instruments) \<subseteq> names reg"
  shows "\<exists>e. fst (metrics_New register reg) = Panicked e"
proof -
  have "dcName ` set (instrument_descs new_instruments) \<inter> names reg \<noteq> {}"
    using assms(2) by (auto simp: instrument_descs_def)
  with assms(1) obtain e where "fst (register (instrument_descs new_instruments) reg) = Panicked e"
    unfolding registers_def by blast
  then show ?thesis
    by (cases "register (instrument_descs new_instruments) reg") (auto simp: metrics_New_def)
qed

text \<open>A registry that is the list of its names.\<close>

definition list_register :: "desc list \<Rightarrow> string list \<Rightarrow> unit outcome \<times> string list" where
  "list_register ds reg =
     (if \<exists>d\<in>set ds. dcName d \<in> set reg then (Panicked ''duplicate metrics collector registration attempted'', reg)
      else (Returned (), map dcName ds @ reg))"

lemma list_registers: "registers list_register set"
  by (auto simp: registers_def list_register_def)

definition beacons_names :: "string set" where
  "beacons_names = dcName ` set (instrument_descs new_instruments)"

lemma new_names_distinct: "distinct (map dcName (instrument_descs new_instruments))"
  by (simp add: instrument_descs_def new_instruments_def new_vec_def)

text \<open>
  C18. The setup of the metrics succeeds when the runtime's collectors have names of their own, none of them
  one of Beacons', and then no sequence of recording calls panics, as long as the label
  values are valid UTF-8: every call gives as many label values as its vector has labels, and the
  series hold what the maps of the model hold. A second registration on the same registry panics.
\<close>

theorem metrics_never_panic:
  assumes "registers register names" "names reg = {}" "distinct (map dcName collectors)"
    "dcName ` set collectors \<inter> beacons_names = {}"
    "accepts_labels utf8 ok" "\<forall>c\<in>set cs. list_all utf8 (call_labels c)"
  shows "\<exists>m reg1 m1. main_metrics register collectors reg = (Returned m, reg1) \<and>
    vec_calls ok cs m = Returned m1 \<and> vec_maps m1 (fold map_call cs no_metrics) \<and>
    (\<exists>e. fst (metrics_New register reg1) = Panicked e)"
proof -
  obtain reg0 where c: "register collectors reg = (Returned (), reg0)" "names reg0 = dcName ` set collectors"
    by (rule register_fresh [OF assms(1,3), of reg]) (use assms(2) in auto)
  obtain reg1 where n: "metrics_New register reg0 = (Returned new_instruments, reg1)"
    "dcName ` set (instrument_descs new_instruments) \<subseteq> names reg1"
    by (rule New_fresh [OF assms(1) new_names_distinct, of reg0])
      (use assms(4) c(2) in \<open>auto simp: beacons_names_def\<close>)
  have "main_metrics register collectors reg = (Returned new_instruments, reg1)"
    by (simp add: main_metrics_def c(1) n(1))
  with vec_calls_maps [OF assms(5) new_instruments_maps assms(6)] New_taken [OF assms(1) n(2)]
  show ?thesis by blast
qed

theorem metrics_never_panic_witness:
  "\<exists>m reg1 m1. main_metrics list_register [\<lparr>dcName = ''go_info'', dcHelp = ''Go'', dcKind = GaugeVec, dcLabels = [''version'']\<rparr>] []
      = (Returned m, reg1) \<and>
    vec_calls (\<lambda>d vs. length vs = length (dcLabels d)) [CallSync ''cf'' ''upsert'' ''success'' 5, CallGated ''cf''] m = Returned m1 \<and>
    vcSeries (BackoffGatedTotal m1) = [([''cf''], 1)]"
  using metrics_never_panic [OF list_registers, of "[]"
      "[\<lparr>dcName = ''go_info'', dcHelp = ''Go'', dcKind = GaugeVec, dcLabels = [''version'']\<rparr>]" "\<lambda>s. True"
      "\<lambda>d vs. length vs = length (dcLabels d)" "[CallSync ''cf'' ''upsert'' ''success'' 5, CallGated ''cf'']"]
  by (auto simp: beacons_names_def instrument_descs_def new_instruments_def new_vec_def vec_maps_def no_metrics_def
      RecordBackoffGated_def RecordSync_def counter_inc_def go_get_def label_keyed_def key1_def accepts_labels_def)

end
