(* ===== verification/Spec2Isabelle.thy ===== *)
theory Spec2Isabelle
  imports Beacons_Prelude Go_Strings Model Registry Diff Upstreams Executor Collect Reconcile Validate Docker_Source Transport Debug_Log Http_Api Pihole Technitium Cloudflare Envutil Yaml_Source Config Server Metrics_Registry Wiring Pass_Metrics Lifecycle
    Url_Codec Technitium_Zone Delivery Store_Choice Instruments Env_Log
begin

text \<open>
  Verification library of Beacons, a declarative DNS synchroniser written in Go. Sources (Docker
  labels, YAML files) say which DNS records should exist; upstreams (Pi-hole, Technitium,
  Cloudflare) hold the records that do; a store remembers which records Beacons created. A pass of
  the reconciler collects the desired and the actual records, computes a plan with \<open>diff\<close>, and
  applies it: it calls the upstreams and writes the store. The program runs one pass after the
  other, triggered by change signals of the sources and by a timer, beside an HTTP server that
  shows the state. What must not happen is that a record that Beacons does not own is deleted, that
  one it owns is deleted because a source could not be read, or that the store forgets a record
  that an upstream still holds.

  \<^bold>\<open>Theories and code\<close>

  \<^item> \<open>Beacons_Prelude\<close>: 64-bit wrap-around, Go maps as association lists with distinct keys, sorting,
    errors with their wrapping, and the outcome of a call that can panic.
  \<^item> \<open>Go_Strings\<close>: the functions of \<open>strings\<close>, \<open>strconv\<close> and \<open>fmt\<close> that the source calls.
  \<^item> \<open>Model\<close>: \<open>internal/model/model.go\<close>, the record, its key and the configuration structs.
  \<^item> \<open>Registry\<close>: \<open>internal/registry\<close>, the store interface and its contract, the memory store, and the
    file store over a model of the disk in which each system call can fail or the machine can crash.
  \<^item> \<open>Diff\<close>: \<open>internal/reconcile/plan.go\<close> and \<open>diff.go\<close>.
  \<^item> \<open>Upstreams\<close>: \<open>pkg/upstream/upstream.go\<close>, the provider interface with its optional extensions, and
    the wrappers \<open>NewDisabled\<close> and \<open>NewDryRun\<close>.
  \<^item> \<open>Executor\<close>: \<open>internal/reconcile/executor.go\<close>, the worker pool, the retry gate, and what is
    recorded in the store after each call.
  \<^item> \<open>Collect\<close>: \<open>internal/reconcile/collect.go\<close>, \<open>upstream_collect.go\<close>, \<open>pkg/source/source.go\<close>.
  \<^item> \<open>Reconcile\<close>: \<open>internal/reconcile/reconcile.go\<close>, \<open>New\<close>, one pass, and \<open>Run\<close> as a step relation with
    its debounce timer, its ticker and its channels.
  \<^item> \<open>Store_Choice\<close>: the two stores of \<open>internal/registry\<close> seen from the reconciler: a run on the file
    store mapped to a run on the memory store.
  \<^item> \<open>Delivery\<close>: executor, reconciler and two adapters composed: what a pass leaves on the servers.
  \<^item> \<open>Validate\<close>: \<open>internal/validate\<close>, the rules and the walk over reflected structs.
  \<^item> \<open>Docker_Source\<close>: \<open>pkg/source/docker/docker.go\<close>, labels, snapshot and event loop.
  \<^item> \<open>Yaml_Source\<close>: \<open>pkg/source/yaml/yaml.go\<close>, files, snapshot, watched directories and watch loop.
  \<^item> \<open>Envutil\<close>, \<open>Config\<close>: \<open>internal/envutil\<close> and \<open>internal/config\<close>, the expansion of variables, the
    defaults, the reflective overlay of the environment, and \<open>Load\<close>.
  \<^item> \<open>Env_Log\<close>: \<open>logEnvOverride\<close> and the warnings of \<open>setScalar\<close> in \<open>internal/config/envoverride.go\<close>, as a
    second walk that returns the lines.
  \<^item> \<open>Transport\<close>, \<open>Debug_Log\<close>: \<open>pkg/upstream/transport\<close>, the middleware for retries, the circuit
    breaker, sessions, tokens, metrics and the request log, and the client that stacks them.
  \<^item> \<open>Http_Api\<close>: what the three adapters share of \<open>net/http\<close> and \<open>net/url\<close>.
  \<^item> \<open>Pihole\<close>, \<open>Technitium\<close>, \<open>Cloudflare\<close>: the files of the same names under \<open>pkg/upstream\<close>.
  \<^item> \<open>Url_Codec\<close>, \<open>Technitium_Zone\<close>: the query codec of \<open>net/url\<close>, and the Technitium adapter against a
    server that keeps a list of records and follows its API.
  \<^item> \<open>Server\<close>: \<open>internal/server\<close> and \<open>internal/healthcheck\<close>.
  \<^item> \<open>Metrics_Registry\<close>: the recording methods of \<open>internal/metrics/metrics.go\<close> on maps.
  \<^item> \<open>Instruments\<close>: the same file with its vectors, their descriptors, \<open>New\<close>, and the panics.
  \<^item> \<open>Wiring\<close>: \<open>cmd/beacons/main.go\<close> up to its start, and \<open>internal/validateconfig\<close>: flags and builders.
  \<^item> \<open>Lifecycle\<close>: the rest of \<open>main.go\<close> and \<open>Server.Run\<close>: the running program as a step relation, the
    reconciler with its loop and the server with its shutdown goroutine, up to the exit.
  \<^item> \<open>Pass_Metrics\<close>: the metrics that executor, collector and reconciler record in a pass.

  Definitions keep the names of the Go functions. A struct is a record, a method on it a function
  that takes the record and returns it updated; an interface is a record of functions. Whatever is
  outside the process and can change (the providers, the network, the disk) is a type variable
  \<open>'w\<close> or a record that the calls thread through. \<open>error\<close> is a datatype; a result \<open>(T, error)\<close> is a
  sum. A Go map is an association list, and wherever the code ranges over one, the order of the
  iteration is an argument (\<open>diff_orders\<close>, \<open>label_orders\<close>, \<open>yaml_orders\<close>, \<open>env_orders\<close>), so the theorems
  hold for all orders.

  \<^bold>\<open>What is shown\<close>

  \<^item> Planning: the operations of a plan exactly, at most one per key, none when converged, and
    deletions only of recorded records that nobody desires and whose source was read cleanly.
  \<^item> Execution: for every order in which the workers finish, what a successful, a refused and a
    cancelled call leave in the store; the store drops an entry only after a confirmed deletion.
  \<^item> Stores: both stores are maps from keys to records (the locale \<open>record_store\<close>); the state file is
    at every moment that of a completed flush, and a flush that reports success survives a crash.
  \<^item> Passes: a source that fails loses nothing, a pass with working parties reaches the desired
    state, a further pass changes nothing; the \<open>Run\<close> loop loses no signal; the program winds down in a
    bounded number of steps once its context is cancelled. The counters account for each operation
    of a plan once, and forgetting them gives the pass without metrics.
  \<^item> Delivery: after a pass the Pi-hole and the Technitium server hold every desired record and none
    that was withdrawn, whatever the order of the workers, if no two records share a slot of their
    server; \<open>recreated_container_loses_record\<close> and \<open>second_value_overwrites\<close> show what
    happens when they do.
  \<^item> Choice of the store: a run on the file store is, step by step, a run on the memory store, whatever
    the disk answers; only a restart tells them apart.
  \<^item> Metrics: the setup and every recording call give as many label values as the vector has labels,
    so none of them panics.
  \<^item> Sources: the records of a container and of a file exactly, and their watch loops.
  \<^item> Configuration: the walk by reflection is the field-by-field assignment, so a loaded
    configuration is well-formed; the validator reports exactly the violated rules.
  \<^item> Transport: the number and the spacing of attempts, the breaker as a refinement of a counter of
    consecutive refusals, one re-authentication per rejected token, and a log that changes nothing
    and hides the token.
  \<^item> Adapters: what is written is read back, nothing else changes, the paging loop ends.
  \<^item> Server: without the key, no answer shows more of the store than its size.
  \<^item> Wiring: which upstream each name is wired to, what stops a start, and that a dry run leaves the
    outside world unchanged, from the command line down to the worker pool.

  \<^bold>\<open>Interfaces\<close>

  \<open>record_store\<close> (Registry) is the contract of \<open>Store\<close>; it is interpreted by the memory store and by
  the file store with an arbitrary codec, and the executor uses its laws. \<open>state_cell\<close> (Transport)
  is the contract of the mutable fields of a middleware; it is interpreted by the circuit
  breaker, the session and the debug log. \<open>inert_upstream\<close> (Wiring) is the contract of an upstream
  that leaves the outside world alone; it is interpreted by both wrappers. \<open>providers\<close> (Delivery) is
  what the executor relies on of the adapters and the servers behind them; it is interpreted by the
  Pi-hole and the Technitium adapter side by side.

  \<^bold>\<open>Loops and bounds\<close>

  No function takes fuel that could be too small. The worker pool (\<open>run_pool\<close>) recurses on the number of
  tasks; \<open>static_dir_from\<close> on the weight of a path, which \<open>filepath.Dir\<close> decreases until the path is
  its own directory; the struct walk of the validator on the size of the value; the attempts of a
  request on the attempts left. The paging loop of Cloudflare has no bound in the code: it is a
  \<open>partial_function\<close> in the option monad, and that it returns is a theorem about a service that
  pages consistently. The overlay of the environment recurses on a depth, and \<open>overlay_depth\<close> = 3 is
  enough: \<open>overlay_value\<close> gives the same result for every larger depth. The loops that run as long
  as the process (\<open>Run\<close> and the \<open>Notify\<close> loops) are relations or folds over events; that the process
  ends is shown with a rank (\<open>life_rank\<close>), not with fuel. \<open>int\<close> and
  \<open>time.Duration\<close> wrap at 64 bits wherever the code computes with them.

  \<^bold>\<open>Arguments of the model\<close>

  Code outside the repository is an argument: the JSON and YAML decoders and encoders, \<open>url.Parse\<close>,
  the Docker client, the system calls of the sources, file events, the clock, waiting, randomness,
  the fallback of the request multiplexer, the Prometheus registry and its handler. Hypotheses about them state
  documented behaviour (a codec that decodes what it encoded, a service that follows its API), and each
  theorem that has one is applied at a concrete instance.

  \<^bold>\<open>Not modelled\<close>

  \<^item> Logging with \<open>slog\<close>, apart from the choice of the handler, the request log and the log of the
    overlay, which decide what of a secret is shown; logs feed nothing back into the program.
  \<^item> Mutexes and goroutines: each component runs under its lock or in one goroutine; the
    interleavings that remain (workers, events, callers of a session) are explicit.
  \<^item> What \<open>net/http\<close> does with the sockets and timeouts of the server, the creation of the Docker client and of file
    watchers: operating-system and library calls with no decision in between.
  \<^item> The Prometheus registry: that new names are accepted and taken ones panic is a hypothesis.
  \<^item> HTTP redirects; in the transport also errors while a response body is read (\<open>Debug_Log\<close> has a
    model of such bodies of its own), and durations in its logs and metrics.
  \<^item> Floating-point fields and interfaces inside validated structs: no struct of the program has them.
  \<^item> The test helpers, the tests, the documentation and the Docker files.

  What would come next: Cloudflare among the servers of \<open>Delivery\<close>, bodies that break off in the
  transport and the adapters, and the interleaving of requests to the server with the writes of a pass.
\<close>

end
